(* ===== verification/Prelude.thy ===== *)
theory Prelude
  imports Main "HOL-Library.Word" "HOL-Library.AList"
begin

text \<open>
  What the components share: the machine integers of the Go code, the outcomes of a
  Go call (a value, an error value, a panic), byte slices with their capacity, Go maps
  as association lists with distinct keys, and the big-endian encodings of
  \<^verbatim>\<open>encoding/binary\<close>.  Every lemma here is about lists, maps and words, not about
  the program.
\<close>

unbundle bit_operations_syntax

section \<open>Machine integers\<close>

type_synonym u8 = "8 word"
type_synonym u16 = "16 word"
type_synonym u32 = "32 word"
type_synonym u64 = "64 word"
type_synonym byte = "8 word"

lemma unat_u16_bound: "unat (x :: u16) < 65536"
  by (rule unsigned_less [of x, THEN less_le_trans]) simp

lemma unat_u32_bound: "unat (x :: u32) < 4294967296"
  by (rule unsigned_less [of x, THEN less_le_trans]) simp

lemma unat_u64_bound: "unat (x :: u64) < 18446744073709551616"
  by (rule unsigned_less [of x, THEN less_le_trans]) simp

lemma unat_u32_u64 [simp]: "unat (ucast (x :: u32) :: u64) = unat x"
  using unat_u32_bound [of x] by (simp add: unsigned_ucast_eq take_bit_nat_eq_self_iff)

lemma unat_u16_u32 [simp]: "unat (ucast (x :: u16) :: u32) = unat x"
  using unat_u16_bound [of x] by (simp add: unsigned_ucast_eq take_bit_nat_eq_self_iff)

lemma unat_u64_u32: "unat (ucast (x :: u64) :: u32) = unat x mod 4294967296"
  by (simp add: unsigned_ucast_eq take_bit_nat_def)

section \<open>Collections of rewrite rules\<close>

named_theorems gomap_simps \<open>lookups in updated Go maps\<close>
named_theorems codec_simps \<open>lengths and round trips of encodings\<close>

section \<open>Outcomes of a call\<close>

text \<open>
  A Go function with results \<^verbatim>\<open>(T, error)\<close> returns \<open>Ok v\<close> (a nil error) or
  \<open>Err e\<close>; a run-time panic, which ends the process, is \<open>Panic\<close>.
\<close>

datatype ('e, 'a) result = Ok 'a | Err 'e | Panic

fun rbind :: "('e, 'a) result \<Rightarrow> ('a \<Rightarrow> ('e, 'b) result) \<Rightarrow> ('e, 'b) result" where
  "rbind (Ok a) f = f a"
| "rbind (Err e) f = Err e"
| "rbind Panic f = Panic"

lemma rbind_Ok_iff: "rbind r f = Ok b \<longleftrightarrow> (\<exists>a. r = Ok a \<and> f a = Ok b)"
  by (cases r) auto

section \<open>Byte slices\<close>

text \<open>
  A Go slice is a window on an array: \<open>elems\<close> are the elements below its length,
  \<open>spare\<close> the ones of the same array between its length and its capacity.  Re-slicing
  \<^verbatim>\<open>b[lo:hi]\<close> is checked against the capacity, not the length.
\<close>

record GoSlice =
  elems :: "byte list"
  spare :: "byte list"

definition slice_of :: "byte list \<Rightarrow> GoSlice" where
  "slice_of bs = \<lparr>elems = bs, spare = []\<rparr>"

definition slice_len :: "GoSlice \<Rightarrow> nat" where
  "slice_len s = length (elems s)"

definition slice_cap :: "GoSlice \<Rightarrow> nat" where
  "slice_cap s = length (elems s) + length (spare s)"

text \<open>The array from the slice's first element up to its capacity.\<close>

definition backing :: "GoSlice \<Rightarrow> byte list" where
  "backing s = elems s @ spare s"

lemma length_backing [simp]: "length (backing s) = slice_cap s"
  by (simp add: backing_def slice_cap_def)

definition reslice :: "GoSlice \<Rightarrow> nat \<Rightarrow> nat \<Rightarrow> GoSlice option" where
  "reslice s lo hi =
     (if lo \<le> hi \<and> hi \<le> slice_cap s
      then Some \<lparr>elems = take (hi - lo) (drop lo (backing s)),
                 spare = drop hi (backing s)\<rparr>
      else None)"

lemma reslice_None_iff: "reslice s lo hi = None \<longleftrightarrow> \<not> (lo \<le> hi \<and> hi \<le> slice_cap s)"
  by (simp add: reslice_def)

lemma reslice_length:
  "reslice s lo hi = Some r \<Longrightarrow> length (elems r) = hi - lo"
  by (auto simp: reslice_def split: if_splits)

section \<open>Go maps\<close>

text \<open>
  A Go map is an association list with distinct keys.  A \<^verbatim>\<open>range\<close> over it walks the
  list; the Go runtime may use any order, so the list stands for whichever order a run
  uses, and a result that must not depend on it is proved equal for every two lists
  with the same lookups.
\<close>

abbreviation mget :: "('k \<times> 'v) list \<Rightarrow> 'k \<Rightarrow> 'v option" where
  "mget m k \<equiv> map_of m k"

abbreviation mput :: "'k \<Rightarrow> 'v \<Rightarrow> ('k \<times> 'v) list \<Rightarrow> ('k \<times> 'v) list" where
  "mput k v m \<equiv> AList.update k v m"

abbreviation mdel :: "'k \<Rightarrow> ('k \<times> 'v) list \<Rightarrow> ('k \<times> 'v) list" where
  "mdel k m \<equiv> AList.delete k m"

definition wf_map :: "('k \<times> 'v) list \<Rightarrow> bool" where
  "wf_map m \<longleftrightarrow> distinct (map fst m)"

lemma wf_map_Nil [simp, intro]: "wf_map []"
  by (simp add: wf_map_def)

lemma wf_map_mput [simp, intro]: "wf_map m \<Longrightarrow> wf_map (mput k v m)"
  by (simp add: wf_map_def distinct_update)

lemma wf_map_mdel [simp, intro]: "wf_map m \<Longrightarrow> wf_map (mdel k m)"
  by (simp add: wf_map_def distinct_delete)

lemma mget_mput [gomap_simps]: "mget (mput k v m) j = (if j = k then Some v else mget m j)"
  by (simp add: update_conv')

lemma mget_mdel [gomap_simps]: "mget (mdel k m) j = (if j = k then None else mget m j)"
  by (simp add: delete_conv')

lemma wf_map_mem: "wf_map m \<Longrightarrow> (k, v) \<in> set m \<longleftrightarrow> mget m k = Some v"
  by (simp add: wf_map_def)

lemma mget_mem: "mget m k = Some v \<Longrightarrow> (k, v) \<in> set m"
  by (rule map_of_SomeD)

lemma keys_eq_dom: "fst ` set m = dom (mget m)"
  by (simp add: dom_map_of_conv_image_fst)

lemma same_map_set: "wf_map m \<Longrightarrow> wf_map n \<Longrightarrow> map_of m = map_of n \<Longrightarrow> set m = set n"
  by (auto simp: wf_map_mem)

text \<open>Deleting every key of a list, as a loop of \<^verbatim>\<open>delete\<close> does.\<close>

lemma mget_fold_mdel:
  "mget (fold mdel ks m) k = (if k \<in> set ks then None else mget m k)"
  by (induction ks arbitrary: m) (auto simp: gomap_simps)

lemma wf_map_fold_mdel: "wf_map m \<Longrightarrow> wf_map (fold mdel ks m)"
  by (induction ks arbitrary: m) auto

text \<open>
  A loop over items that changes, for each item, the entry of one key of a Go map.  What
  the loop leaves at a key is the fold of the changes of the items with that key.
\<close>

locale keyed_update =
  fixes key :: "'i \<Rightarrow> 'k"
    and upd :: "'i \<Rightarrow> 'v option \<Rightarrow> 'v option"
    and step :: "'i \<Rightarrow> ('k \<times> 'v) list \<Rightarrow> ('k \<times> 'v) list"
  assumes step_wf: "wf_map m \<Longrightarrow> wf_map (step i m)"
    and step_get: "mget (step i m) k = (if k = key i then upd i (mget m k) else mget m k)"
begin

lemma loop_wf: "wf_map m \<Longrightarrow> wf_map (fold step is m)"
  by (induction "is" arbitrary: m) (simp_all add: step_wf)

lemma loop_get: "mget (fold step is m) k = fold upd (filter (\<lambda>i. key i = k) is) (mget m k)"
  by (induction "is" arbitrary: m) (auto simp: step_get)

lemma loop_untouched: "k \<notin> key ` set is \<Longrightarrow> mget (fold step is m) k = mget m k"
  by (induction "is" arbitrary: m) (simp_all add: step_get)

lemma loop_pointwise:
  assumes "P k (mget m k)" and "\<And>i v. i \<in> set is \<Longrightarrow> key i = k \<Longrightarrow> P k v \<Longrightarrow> P k (upd i v)"
  shows "P k (mget (fold step is m) k)"
  using assms
proof (induction "is" arbitrary: m)
  case Nil
  then show ?case by simp
next
  case (Cons i "is")
  have "P k (mget (step i m) k)"
    using Cons.prems by (auto simp: step_get)
  then have "P k (mget (fold step is (step i m)) k)"
    using Cons.prems(2) by (intro Cons.IH) simp_all
  then show ?case by simp
qed

lemma loop_distinct:
  "distinct (map key is) \<Longrightarrow> i \<in> set is \<Longrightarrow> mget (fold step is m) (key i) = upd i (mget m (key i))"
proof (induction "is" arbitrary: m)
  case Nil
  then show ?case by simp
next
  case (Cons j "is")
  show ?case
  proof (cases "i = j")
    case True
    with Cons.prems have "key j \<notin> key ` set is" by simp
    with True show ?thesis by (simp add: loop_untouched step_get)
  next
    case False
    with Cons.prems have "i \<in> set is" and "key i \<noteq> key j" by (auto simp: image_iff)
    with Cons show ?thesis by (simp add: step_get)
  qed
qed

end

section \<open>Big-endian encodings (encoding/binary)\<close>

definition AppendUint16 :: "byte list \<Rightarrow> u16 \<Rightarrow> byte list" where
  "AppendUint16 b v = b @ [ucast (drop_bit 8 v), ucast v]"

definition AppendUint32 :: "byte list \<Rightarrow> u32 \<Rightarrow> byte list" where
  "AppendUint32 b v =
     b @ [ucast (drop_bit 24 v), ucast (drop_bit 16 v), ucast (drop_bit 8 v), ucast v]"

text \<open>Reading past the end of the argument panics: \<open>None\<close>.\<close>

fun Uint16 :: "byte list \<Rightarrow> u16 option" where
  "Uint16 (a # b # _) = Some (ucast b OR push_bit 8 (ucast a))"
| "Uint16 _ = None"

fun Uint32 :: "byte list \<Rightarrow> u32 option" where
  "Uint32 (a # b # c # d # _) =
     Some (ucast d OR push_bit 8 (ucast c) OR push_bit 16 (ucast b) OR push_bit 24 (ucast a))"
| "Uint32 _ = None"

lemma length_AppendUint16 [simp]: "length (AppendUint16 b v) = length b + 2"
  by (simp add: AppendUint16_def)

lemma length_AppendUint32 [simp]: "length (AppendUint32 b v) = length b + 4"
  by (simp add: AppendUint32_def)

lemma AppendUint16_append: "AppendUint16 b v = b @ AppendUint16 [] v"
  by (simp add: AppendUint16_def)

lemma AppendUint32_append: "AppendUint32 b v = b @ AppendUint32 [] v"
  by (simp add: AppendUint32_def)

text \<open>A fixed-width encoding, and what a client may do with a run of them.\<close>

locale codec =
  fixes enc :: "'a \<Rightarrow> byte list"
    and dec :: "byte list \<Rightarrow> 'a option"
    and width :: nat
  assumes enc_len: "length (enc x) = width"
    and dec_enc: "dec (enc x) = Some x"
begin

lemma enc_inj: "enc x = enc y \<Longrightarrow> x = y"
  by (metis dec_enc option.inject)

lemma run_len: "length (concat (map enc xs)) = width * length xs"
  by (induction xs) (simp_all add: enc_len)

lemma run_chunk:
  "i < length xs \<Longrightarrow>
   take width (drop (width * i) (concat (map enc xs) @ zs)) = enc (xs ! i)"
proof (induction xs arbitrary: i)
  case Nil
  then show ?case by simp
next
  case (Cons x xs)
  show ?case
  proof (cases i)
    case 0
    then show ?thesis by (simp add: enc_len)
  next
    case (Suc j)
    with Cons show ?thesis by (simp add: enc_len)
  qed
qed

lemma run_dec:
  "i < length xs \<Longrightarrow>
   dec (take width (drop (width * i) (concat (map enc xs) @ zs))) = Some (xs ! i)"
  by (subst run_chunk) (simp_all add: dec_enc)

lemma run_inj: "concat (map enc xs) = concat (map enc ys) \<Longrightarrow> length xs = length ys \<Longrightarrow> xs = ys"
  by (rule nth_equalityI) (metis enc_inj run_chunk append_Nil2)+

end

text \<open>When every byte string of the right width is the encoding of some value.\<close>

locale full_codec = codec +
  assumes dec_total: "length bs = width \<Longrightarrow> \<exists>x. dec bs = Some x \<and> enc x = bs"
begin

lemma dec_Some_enc: "length bs = width \<Longrightarrow> dec bs = Some x \<Longrightarrow> enc x = bs"
  using dec_total by fastforce

lemma run_enc_dec:
  "length bs = width * n \<Longrightarrow>
   concat (map (\<lambda>i. enc (the (dec (take width (drop (width * i) bs))))) [0..<n]) = bs"
proof (induction n arbitrary: bs)
  case 0
  then show ?case by simp
next
  case (Suc n)
  let ?f = "\<lambda>bs i. enc (the (dec (take width (drop (width * i) bs))))"
  let ?front = "take (width * n) bs"
  have "?f bs i = ?f ?front i" if "i < n" for i
  proof -
    from that have "width * i + width \<le> width * n"
      by (metis Suc_leI add.commute mult_Suc_right mult_le_mono2)
    then have "take width (drop (width * i) bs) = take width (drop (width * i) ?front)"
      by (simp add: drop_take min_def)
    then show ?thesis by simp
  qed
  then have "concat (map (?f bs) [0..<n]) = concat (map (?f ?front) [0..<n])"
    by (intro arg_cong [where f = concat]) simp
  also have "\<dots> = ?front"
    using Suc.prems by (intro Suc.IH) simp
  finally have front: "concat (map (?f bs) [0..<n]) = ?front" .
  have "length (drop (width * n) bs) = width"
    using Suc.prems by simp
  then have "?f bs n = drop (width * n) bs"
    using dec_total [of "drop (width * n) bs"] by auto
  with front show ?case by simp
qed

end

lemma length_2_listE:
  assumes "length xs = 2"
  obtains a b where "xs = [a, b]"
  using assms by (auto simp: numeral_2_eq_2 length_Suc_conv)

lemma length_4_listE:
  assumes "length xs = 4"
  obtains a b c d where "xs = [a, b, c, d]"
  using assms by (auto simp: eval_nat_numeral length_Suc_conv)

lemma u16_of_bytes:
  "ucast (ucast x :: byte) OR push_bit 8 (ucast (ucast (drop_bit 8 x) :: byte)) = (x :: u16)"
  by (rule bit_word_eqI) (auto simp: bit_simps)

lemma bytes_of_u16:
  fixes a b :: byte
  defines "x \<equiv> ucast b OR push_bit 8 (ucast a) :: u16"
  shows "ucast (drop_bit 8 x) = a" "ucast x = b"
  unfolding x_def by (rule bit_word_eqI; auto simp: bit_simps dest: bit_imp_le_length)+

lemma u32_of_bytes:
  "ucast (ucast x :: byte) OR push_bit 8 (ucast (ucast (drop_bit 8 x) :: byte)) OR
   push_bit 16 (ucast (ucast (drop_bit 16 x) :: byte)) OR
   push_bit 24 (ucast (ucast (drop_bit 24 x) :: byte)) = (x :: u32)"
proof (rule bit_word_eqI)
  fix n
  assume "n < LENGTH(32)"
  then consider "n < 8" | "8 \<le> n" "n < 16" | "16 \<le> n" "n < 24" | "24 \<le> n" "n < 32"
    by fastforce
  then show "bit (ucast (ucast x :: byte) OR push_bit 8 (ucast (ucast (drop_bit 8 x) :: byte)) OR
   push_bit 16 (ucast (ucast (drop_bit 16 x) :: byte)) OR
   push_bit 24 (ucast (ucast (drop_bit 24 x) :: byte)) :: u32) n = bit x n"
    by cases (auto simp: bit_simps)
qed

lemma bytes_of_u32:
  fixes a b c d :: byte
  defines "x \<equiv> ucast d OR push_bit 8 (ucast c) OR push_bit 16 (ucast b) OR push_bit 24 (ucast a) :: u32"
  shows "ucast (drop_bit 24 x) = a" "ucast (drop_bit 16 x) = b"
    "ucast (drop_bit 8 x) = c" "ucast x = d"
  unfolding x_def by (rule bit_word_eqI; auto simp: bit_simps dest: bit_imp_le_length)+

interpretation be16: full_codec "AppendUint16 []" Uint16 2
proof
  show "length (AppendUint16 [] x) = 2" for x
    by simp
  show "Uint16 (AppendUint16 [] x) = Some x" for x
    by (simp add: AppendUint16_def u16_of_bytes)
  show "\<exists>x. Uint16 bs = Some x \<and> AppendUint16 [] x = bs" if "length bs = 2" for bs
    using that by (elim length_2_listE) (simp add: AppendUint16_def bytes_of_u16 del: drop_bit_or)
qed

interpretation be32: full_codec "AppendUint32 []" Uint32 4
proof
  show "length (AppendUint32 [] x) = 4" for x
    by simp
  show "Uint32 (AppendUint32 [] x) = Some x" for x
    by (simp add: AppendUint32_def u32_of_bytes)
  show "\<exists>x. Uint32 bs = Some x \<and> AppendUint32 [] x = bs" if "length bs = 4" for bs
    using that by (elim length_4_listE) (simp add: AppendUint32_def bytes_of_u32 del: drop_bit_or)
qed

lemma Uint16_take2 [codec_simps]: "Uint16 (AppendUint16 [] v @ zs) = Some v"
  using be16.dec_enc [of v] by (simp add: AppendUint16_def)

lemma Uint32_take4 [codec_simps]: "Uint32 (AppendUint32 [] v @ zs) = Some v"
  using be32.dec_enc [of v] by (simp add: AppendUint32_def)

lemma Uint16_Some: "2 \<le> length bs \<Longrightarrow> \<exists>v. Uint16 bs = Some v"
  by (cases bs rule: Uint16.cases) auto

lemma Uint32_Some: "4 \<le> length bs \<Longrightarrow> \<exists>v. Uint32 bs = Some v"
  by (cases bs rule: Uint32.cases) auto

end
