(* ===== verification/Netip.thy ===== *)
theory Netip
  imports Prelude
begin

text \<open>
  The part of Go's \<^verbatim>\<open>net/netip\<close> that the program uses: addresses, address/port
  pairs and prefixes with their comparison by value, containment and masking.  An
  address is the zero \<^verbatim>\<open>Addr\<close>, an IPv4 address, or an IPv6 address with its zone.
  A prefix keeps its address and its bit count, \<open>-1\<close> when it is not valid.
\<close>

section \<open>Addresses\<close>

datatype Addr = NoAddr | V4 u32 | V6 "128 word" string

record AddrPort =
  apAddr :: Addr
  apPort :: u16

definition AddrPortFrom :: "Addr \<Rightarrow> u16 \<Rightarrow> AddrPort" where
  "AddrPortFrom a p = \<lparr>apAddr = a, apPort = p\<rparr>"

fun Addr_IsValid :: "Addr \<Rightarrow> bool" where
  "Addr_IsValid NoAddr = False"
| "Addr_IsValid _ = True"

fun BitLen :: "Addr \<Rightarrow> int" where
  "BitLen NoAddr = 0"
| "BitLen (V4 _) = 32"
| "BitLen (V6 _ _) = 128"

fun hasZone :: "Addr \<Rightarrow> bool" where
  "hasZone (V6 _ z) = (z \<noteq> [])"
| "hasZone _ = False"

fun withoutZone :: "Addr \<Rightarrow> Addr" where
  "withoutZone (V6 a _) = V6 a []"
| "withoutZone a = a"

text \<open>\<^verbatim>\<open>As4\<close> panics on the zero address and on IPv6 unless it is IPv4-mapped.\<close>

fun As4 :: "Addr \<Rightarrow> byte list option" where
  "As4 (V4 a) = Some (AppendUint32 [] a)"
| "As4 (V6 a _) =
     (if drop_bit 32 a = 0xFFFF then Some (AppendUint32 [] (ucast a)) else None)"
| "As4 NoAddr = None"

text \<open>\<^verbatim>\<open>AddrFromSlice\<close> for the four-byte slices the program passes.\<close>

definition AddrFromSlice4 :: "byte list \<Rightarrow> Addr option" where
  "AddrFromSlice4 bs = (if length bs = 4 then map_option V4 (Uint32 bs) else None)"

lemma AddrFromSlice4_be32 [simp]: "AddrFromSlice4 (AppendUint32 [] a) = Some (V4 a)"
  by (simp add: AddrFromSlice4_def be32.dec_enc)

lemma As4_V4_be32 [simp]: "As4 (V4 a) = Some bs \<Longrightarrow> Uint32 bs = Some a"
  by (auto simp: be32.dec_enc)

section \<open>Prefixes\<close>

record Prefix =
  pfxAddr :: Addr
  pfxBits :: int

definition NoPrefix :: Prefix where
  "NoPrefix = \<lparr>pfxAddr = NoAddr, pfxBits = -1\<rparr>"

definition PrefixFrom :: "Addr \<Rightarrow> int \<Rightarrow> Prefix" where
  "PrefixFrom a b =
     \<lparr>pfxAddr = withoutZone a,
      pfxBits = (if a \<noteq> NoAddr \<and> 0 \<le> b \<and> b \<le> BitLen a then b else -1)\<rparr>"

definition Prefix_IsValid :: "Prefix \<Rightarrow> bool" where
  "Prefix_IsValid p \<longleftrightarrow> pfxAddr p \<noteq> NoAddr \<and> 0 \<le> pfxBits p \<and> pfxBits p \<le> BitLen (pfxAddr p)"

text \<open>The address with all but its first \<open>n\<close> bits cleared.\<close>

fun mask_addr :: "nat \<Rightarrow> Addr \<Rightarrow> Addr" where
  "mask_addr n NoAddr = NoAddr"
| "mask_addr n (V4 a) = V4 (a AND NOT (mask (32 - n)))"
| "mask_addr n (V6 a _) = V6 (a AND NOT (mask (128 - n))) []"

definition Masked :: "Prefix \<Rightarrow> Prefix" where
  "Masked p =
     (if Prefix_IsValid p
      then \<lparr>pfxAddr = mask_addr (nat (pfxBits p)) (pfxAddr p), pfxBits = pfxBits p\<rparr>
      else NoPrefix)"

fun same_bits :: "nat \<Rightarrow> Addr \<Rightarrow> Addr \<Rightarrow> bool" where
  "same_bits n (V4 a) (V4 b) = (drop_bit (32 - n) (a XOR b) = 0)"
| "same_bits n (V6 a _) (V6 b _) = ((a XOR b) AND NOT (mask (128 - n)) = 0)"
| "same_bits n _ _ = False"

definition Contains :: "Prefix \<Rightarrow> Addr \<Rightarrow> bool" where
  "Contains p ip \<longleftrightarrow>
     Prefix_IsValid p \<and> \<not> hasZone ip \<and> same_bits (nat (pfxBits p)) ip (pfxAddr p)"

section \<open>Containment and masking\<close>

lemma xor_and_zero_iff:
  fixes a b m :: "'a::len word"
  shows "(a XOR b) AND m = 0 \<longleftrightarrow> a AND m = b AND m"
proof
  assume *: "(a XOR b) AND m = 0"
  show "a AND m = b AND m"
  proof (rule bit_word_eqI)
    fix n
    from * have "bit ((a XOR b) AND m) n = bit (0 :: 'a word) n" by simp
    then show "bit (a AND m) n = bit (b AND m) n"
      by (auto simp: bit_simps)
  qed
next
  assume *: "a AND m = b AND m"
  show "(a XOR b) AND m = 0"
  proof (rule bit_word_eqI)
    fix n
    from * have "bit (a AND m) n = bit (b AND m) n" by simp
    then show "bit ((a XOR b) AND m) n = bit (0 :: 'a word) n"
      by (auto simp: bit_simps)
  qed
qed

lemma drop_bit_zero_iff_and_not_mask:
  fixes w :: "'a::len word"
  shows "drop_bit n w = 0 \<longleftrightarrow> w AND NOT (mask n) = 0"
proof
  assume *: "drop_bit n w = 0"
  show "w AND NOT (mask n) = 0"
  proof (rule bit_word_eqI)
    fix k
    from * have "bit (drop_bit n w) (k - n) = bit (0 :: 'a word) (k - n)" by simp
    then show "bit (w AND NOT (mask n)) k = bit (0 :: 'a word) k"
      by (cases "n \<le> k") (auto simp: bit_simps)
  qed
next
  assume *: "w AND NOT (mask n) = 0"
  show "drop_bit n w = 0"
  proof (rule bit_word_eqI)
    fix k
    from * have "bit (w AND NOT (mask n)) (n + k) = bit (0 :: 'a word) (n + k)" by simp
    then show "bit (drop_bit n w) k = bit (0 :: 'a word) k"
      by (auto simp: bit_simps dest: bit_imp_le_length)
  qed
qed

lemma same_bits_mask_addr:
  "same_bits n a b \<Longrightarrow> mask_addr n a = mask_addr n b"
  by (induction n a b rule: same_bits.induct)
     (simp_all add: drop_bit_zero_iff_and_not_mask xor_and_zero_iff del: drop_bit_xor)

lemma same_bits_refl: "a \<noteq> NoAddr \<Longrightarrow> same_bits n a a"
  by (cases a) auto

lemma same_bits_kind: "same_bits n a b \<Longrightarrow> BitLen a = BitLen b \<and> a \<noteq> NoAddr \<and> b \<noteq> NoAddr"
  by (induction n a b rule: same_bits.induct) auto

text \<open>
  The masked form of a prefix that contains \<open>dst\<close> depends on \<open>dst\<close> and the bit count
  only: two prefixes of the same length that contain the same address have the same
  masked form.
\<close>

definition prefix_at :: "Addr \<Rightarrow> int \<Rightarrow> Prefix" where
  "prefix_at dst b = \<lparr>pfxAddr = mask_addr (nat b) dst, pfxBits = b\<rparr>"

lemma Contains_Masked: "Contains p dst \<Longrightarrow> Masked p = prefix_at dst (pfxBits p)"
  by (auto simp: Contains_def Masked_def prefix_at_def dest: same_bits_mask_addr)

lemma Contains_bits: "Contains p dst \<Longrightarrow> 0 \<le> pfxBits p \<and> pfxBits p \<le> BitLen dst"
  by (auto simp: Contains_def Prefix_IsValid_def dest: same_bits_kind)

lemma Masked_bits: "Prefix_IsValid p \<Longrightarrow> pfxBits (Masked p) = pfxBits p"
  by (simp add: Masked_def)

lemma mask_addr_kind [simp]: "BitLen (mask_addr n a) = BitLen a" "mask_addr n a = NoAddr \<longleftrightarrow> a = NoAddr"
  by (cases a; simp)+

lemma mask_addr_idem [simp]: "mask_addr n (mask_addr n a) = mask_addr n a"
  by (cases a) (simp_all add: and.assoc)

lemma Masked_valid: "Prefix_IsValid p \<Longrightarrow> Prefix_IsValid (Masked p)"
  by (simp add: Masked_def Prefix_IsValid_def)

lemma Masked_idem [simp]: "Masked (Masked p) = Masked p"
proof (cases "Prefix_IsValid p")
  case True
  from Masked_valid [OF True] have "Prefix_IsValid (Masked p)" .
  then show ?thesis
    by (subst (1) Masked_def) (simp add: Masked_def True)
next
  case False
  then have "Masked p = NoPrefix" by (simp add: Masked_def)
  then show ?thesis
    by (simp add: Masked_def Prefix_IsValid_def NoPrefix_def)
qed

lemma mask_same_bits: "same_bits n dst (mask_addr n a) = same_bits n dst a"
  by (cases dst; cases a)
     (simp_all add: drop_bit_zero_iff_and_not_mask xor_and_zero_iff and.assoc del: drop_bit_xor)

lemma Contains_of_Masked: "Prefix_IsValid p \<Longrightarrow> Contains (Masked p) dst = Contains p dst"
  using Masked_valid [of p] by (auto simp: Contains_def Masked_def mask_same_bits)

end
