(* ===== verification/RipHeader.thy ===== *)
theory RipHeader
  imports Netip
begin

text \<open>
  \<^verbatim>\<open>pkg/rip-headers/ripheader.go\<close>: the RIP message, its wire format
  (\<^verbatim>\<open>Marshal\<close>, \<^verbatim>\<open>Parse\<close>, \<^verbatim>\<open>ParseHeader\<close>) and the translation between
  prefix lengths and netmasks (\<^verbatim>\<open>Bits2Mask\<close>, \<^verbatim>\<open>Mask2Bits\<close>).  The lemmas show the
  round trip, when parsing panics, and which messages each side refuses.
\<close>

section \<open>Data\<close>

datatype RipError =
  ErrInvalidCommand | ErrEntriesTooLong | ErrEntriesRequest | ErrNilHeader | ErrHeaderTooShort

definition commandEntrySize :: nat where "commandEntrySize = 4"
definition INFINITY :: u32 where "INFINITY = 16"
definition maxEntrySize :: u16 where "maxEntrySize = 64"

definition Request :: u16 where "Request = 1"
definition Response :: u16 where "Response = 2"

lemma commands_distinct [simp]: "Request \<noteq> Response" "Response \<noteq> Request"
  by (simp_all add: Request_def Response_def)

record Route =
  Cost :: u32
  Address :: u32
  Mask :: u32

record RipHeader =
  Command :: u16
  Num_entries :: u16
  Hosts :: "Route list"

text \<open>The value of \<^verbatim>\<open>new(RipHeader)\<close>.\<close>

definition newRipHeader :: RipHeader where
  "newRipHeader = \<lparr>Command = 0, Num_entries = 0, Hosts = []\<rparr>"

section \<open>Marshal\<close>

fun marshal_hosts :: "byte list \<Rightarrow> Route list \<Rightarrow> byte list" where
  "marshal_hosts b1 [] = b1"
| "marshal_hosts b1 (host # hosts) =
     marshal_hosts
       (AppendUint32 (AppendUint32 (AppendUint32 b1 (Cost host)) (Address host)) (Mask host))
       hosts"

text \<open>The receiver is a pointer: \<open>None\<close> is nil.\<close>

definition Marshal :: "RipHeader option \<Rightarrow> (RipError, byte list) result" where
  "Marshal hp =
     (case hp of
        None \<Rightarrow> Err ErrNilHeader
      | Some h \<Rightarrow>
          if Command h \<noteq> Request \<and> Command h \<noteq> Response then Err ErrInvalidCommand
          else if Command h = Request \<and> Num_entries h \<noteq> 0 then Err ErrEntriesRequest
          else if Num_entries h > maxEntrySize then Err ErrEntriesTooLong
          else Ok (marshal_hosts (AppendUint16 (AppendUint16 [] (Command h)) (Num_entries h))
                     (Hosts h)))"

section \<open>Parse\<close>

text \<open>\<open>rd16 b lo\<close> is \<^verbatim>\<open>binary.BigEndian.Uint16(b[lo:lo+2])\<close>; \<open>None\<close> is its panic.\<close>

definition rd16 :: "GoSlice \<Rightarrow> nat \<Rightarrow> u16 option" where
  "rd16 b lo = Option.bind (reslice b lo (lo + 2)) (\<lambda>s. Uint16 (elems s))"

definition rd32 :: "GoSlice \<Rightarrow> nat \<Rightarrow> u32 option" where
  "rd32 b lo = Option.bind (reslice b lo (lo + 4)) (\<lambda>s. Uint32 (elems s))"

definition parse_host :: "GoSlice \<Rightarrow> nat \<Rightarrow> Route option" where
  "parse_host b i =
     (let start = 4 + 12 * i
      in Option.bind (rd32 b start) (\<lambda>cost.
         Option.bind (rd32 b (start + 4)) (\<lambda>address.
         Option.bind (rd32 b (start + 8)) (\<lambda>mask.
         Some \<lparr>Cost = cost, Address = address, Mask = mask\<rparr>))))"

text \<open>The loop \<^verbatim>\<open>for i := 0; i < n; i++\<close> with \<open>k\<close> rounds left, appending to \<open>hosts\<close>.\<close>

fun parse_hosts :: "GoSlice \<Rightarrow> nat \<Rightarrow> nat \<Rightarrow> Route list \<Rightarrow> Route list option" where
  "parse_hosts b i 0 hosts = Some hosts"
| "parse_hosts b i (Suc k) hosts =
     Option.bind (parse_host b i) (\<lambda>host. parse_hosts b (Suc i) k (hosts @ [host]))"

text \<open>
  \<^verbatim>\<open>Parse\<close> writes its receiver as it goes: the receiver after the call and the
  returned error (\<open>None\<close> is nil); the outer \<open>None\<close> is a panic.
\<close>

definition Parse :: "RipHeader option \<Rightarrow> GoSlice option \<Rightarrow> (RipHeader option \<times> RipError option) option" where
  "Parse hp bp =
     (case (hp, bp) of
        (Some h, Some b) \<Rightarrow>
          (case rd16 b 0 of None \<Rightarrow> None | Some command \<Rightarrow>
          (case rd16 b 2 of None \<Rightarrow> None | Some num \<Rightarrow>
           let h = h\<lparr>Command := command, Num_entries := num\<rparr> in
           if slice_len b < commandEntrySize then Some (Some h, Some ErrHeaderTooShort)
           else if Command h \<noteq> Request \<and> Command h \<noteq> Response
             then Some (Some h, Some ErrInvalidCommand)
           else if Command h = Request \<and> Num_entries h \<noteq> 0
             then Some (Some h, Some ErrEntriesRequest)
           else (case parse_hosts b 0 (unat (Num_entries h)) (Hosts h) of
               None \<Rightarrow> None
             | Some hosts \<Rightarrow>
                 let h = h\<lparr>Hosts := hosts\<rparr> in
                 if Num_entries h > maxEntrySize \<or> length (Hosts h) > unat maxEntrySize
                 then Some (Some h, Some ErrEntriesTooLong)
                 else Some (Some h, None))))
      | _ \<Rightarrow> Some (hp, Some ErrNilHeader))"

definition ParseHeader :: "GoSlice option \<Rightarrow> (RipError, RipHeader) result" where
  "ParseHeader bp =
     (case Parse (Some newRipHeader) bp of
        None \<Rightarrow> Panic
      | Some (_, Some e) \<Rightarrow> Err e
      | Some (Some h, None) \<Rightarrow> Ok h
      | Some (None, None) \<Rightarrow> Panic)"

section \<open>Netmasks\<close>

text \<open>\<^verbatim>\<open>bits.OnesCount32\<close> counts the set bits.\<close>

definition OnesCount32 :: "u32 \<Rightarrow> nat" where
  "OnesCount32 x = length (filter (bit x) [0..<32])"

definition Mask2Bits :: "u32 \<Rightarrow> u32" where
  "Mask2Bits m = of_nat (OnesCount32 m)"

text \<open>Go's shift by 32 or more yields 0; \<open>32 - bits\<close> wraps on \<^verbatim>\<open>uint32\<close>.\<close>

definition Bits2Mask :: "u32 \<Rightarrow> u32" where
  "Bits2Mask bits = push_bit (unat (32 - bits)) (NOT 0)"

text \<open>What \<^verbatim>\<open>PrintHeader\<close> prints: the first line, and a line per entry.\<close>

definition PrintHeader :: "RipHeader \<Rightarrow> (u16 \<times> u16) \<times> (u32 \<times> Prefix) list" where
  "PrintHeader h =
     ((Command h, Num_entries h),
      map (\<lambda>host.
        let addr = (case AddrFromSlice4 (AppendUint32 [] (Address host)) of None \<Rightarrow> NoAddr | Some addr \<Rightarrow> addr)
        in (Cost host, PrefixFrom addr (uint (Mask2Bits (Mask host))))) (Hosts h))"

section \<open>The route record as a 12-byte encoding\<close>

definition enc_route :: "Route \<Rightarrow> byte list" where
  "enc_route r =
     AppendUint32 (AppendUint32 (AppendUint32 [] (Cost r)) (Address r)) (Mask r)"

definition dec_route :: "byte list \<Rightarrow> Route option" where
  "dec_route bs =
     Option.bind (Uint32 (take 4 bs)) (\<lambda>cost.
     Option.bind (Uint32 (take 4 (drop 4 bs))) (\<lambda>address.
     Option.bind (Uint32 (take 4 (drop 8 bs))) (\<lambda>mask.
     Some \<lparr>Cost = cost, Address = address, Mask = mask\<rparr>)))"

lemma enc_route_append:
  "enc_route r =
     AppendUint32 [] (Cost r) @ AppendUint32 [] (Address r) @ AppendUint32 [] (Mask r)"
  by (simp add: enc_route_def AppendUint32_def)

lemma take_Uint32_total:
  "n + 4 \<le> length bs \<Longrightarrow>
   \<exists>v. Uint32 (take 4 (drop n bs)) = Some v \<and> AppendUint32 [] v = take 4 (drop n bs)"
  by (rule be32.dec_total) simp

interpretation route: full_codec enc_route dec_route 12
proof
  show "length (enc_route x) = 12" for x
    by (simp add: enc_route_def)
  show "dec_route (enc_route x) = Some x" for x
    by (simp add: dec_route_def enc_route_append be32.dec_enc)
  show "\<exists>x. dec_route bs = Some x \<and> enc_route x = bs" if len: "length bs = 12" for bs
  proof -
    from len obtain c a m where
      c: "Uint32 (take 4 (drop 0 bs)) = Some c" "AppendUint32 [] c = take 4 (drop 0 bs)" and
      a: "Uint32 (take 4 (drop 4 bs)) = Some a" "AppendUint32 [] a = take 4 (drop 4 bs)" and
      m: "Uint32 (take 4 (drop 8 bs)) = Some m" "AppendUint32 [] m = take 4 (drop 8 bs)"
      using take_Uint32_total [of 0 bs] take_Uint32_total [of 4 bs] take_Uint32_total [of 8 bs]
      by auto
    have split: "take 4 bs @ take 4 (drop 4 bs) @ take 4 (drop 8 bs) = bs"
    proof -
      have "take 4 (drop 8 bs) = drop 8 bs" using len by simp
      moreover have "take 4 (drop 4 bs) @ drop 4 (drop 4 bs) = drop 4 bs"
        by (rule append_take_drop_id)
      ultimately show ?thesis by simp
    qed
    have "dec_route bs = Some \<lparr>Cost = c, Address = a, Mask = m\<rparr>"
      using c(1) a(1) m(1) by (simp add: dec_route_def)
    moreover have "enc_route \<lparr>Cost = c, Address = a, Mask = m\<rparr> = bs"
      using c(2) a(2) m(2) split by (simp add: enc_route_append)
    ultimately show ?thesis by blast
  qed
qed

lemma marshal_hosts_concat: "marshal_hosts b1 hosts = b1 @ concat (map enc_route hosts)"
  by (induction hosts arbitrary: b1) (simp_all add: enc_route_def AppendUint32_def)

section \<open>What the parsing loop reads\<close>

lemma rd16_eq:
  "rd16 b lo = (if lo + 2 \<le> slice_cap b then Uint16 (take 2 (drop lo (backing b))) else None)"
  by (simp add: rd16_def reslice_def)

lemma rd32_eq:
  "rd32 b lo = (if lo + 4 \<le> slice_cap b then Uint32 (take 4 (drop lo (backing b))) else None)"
  by (simp add: rd32_def reslice_def)

lemma rd32_Some: "lo + 4 \<le> slice_cap b \<Longrightarrow> \<exists>v. rd32 b lo = Some v"
  using be32.dec_total [of "take 4 (drop lo (backing b))"] by (auto simp: rd32_eq)

lemma rd16_Some: "lo + 2 \<le> slice_cap b \<Longrightarrow> \<exists>v. rd16 b lo = Some v"
  using be16.dec_total [of "take 2 (drop lo (backing b))"] by (auto simp: rd16_eq)

lemma take_drop_chunk:
  "n + 4 \<le> 12 \<Longrightarrow> take 4 (drop n (take 12 (drop m xs))) = take 4 (drop (m + n) xs)"
  by (simp add: drop_take min_def add.commute)

lemma parse_host_eq:
  "parse_host b i =
     (if 16 + 12 * i \<le> slice_cap b
      then dec_route (take 12 (drop (12 * i) (drop 4 (backing b)))) else None)"
proof (cases "16 + 12 * i \<le> slice_cap b")
  case True
  let ?bs = "take 12 (drop (4 + 12 * i) (backing b))"
  have "take 4 ?bs = take 4 (drop (4 + 12 * i) (backing b))"
    by simp
  moreover have "take 4 (drop 4 ?bs) = take 4 (drop (4 + 12 * i + 4) (backing b))"
    "take 4 (drop 8 ?bs) = take 4 (drop (4 + 12 * i + 8) (backing b))"
    by (rule take_drop_chunk; simp)+
  ultimately have "dec_route ?bs = parse_host b i"
    using True by (simp only: parse_host_def dec_route_def rd32_eq Let_def) simp
  then show ?thesis
    using True by (simp add: add.commute)
next
  case False
  then show ?thesis
    by (auto simp: parse_host_def rd32_eq Let_def bind_eq_None_conv)
qed

lemma parse_host_Some: "16 + 12 * i \<le> slice_cap b \<Longrightarrow> \<exists>r. parse_host b i = Some r"
  using route.dec_total [of "take 12 (drop (12 * i) (drop 4 (backing b)))"]
  by (auto simp: parse_host_eq)

lemma parse_hosts_eq:
  "parse_hosts b i k hosts =
     (if k = 0 \<or> 4 + 12 * (i + k) \<le> slice_cap b
      then Some (hosts @ map (\<lambda>j. the (parse_host b j)) [i..<i + k]) else None)"
proof (induction b i k hosts rule: parse_hosts.induct)
  case (1 b i hosts)
  then show ?case by simp
next
  case (2 b i k hosts)
  show ?case
  proof (cases "16 + 12 * i \<le> slice_cap b")
    case True
    with parse_host_Some obtain r where r: "parse_host b i = Some r" by blast
    have "[i..<i + Suc k] = i # [Suc i..<Suc i + k]" by (simp add: upt_conv_Cons)
    with True r show ?thesis by (simp add: "2.IH" [OF r])
  next
    case False
    then show ?thesis by (simp add: parse_host_eq)
  qed
qed

section \<open>Round trips\<close>

lemma Marshal_Ok_iff:
  "Marshal (Some h) = Ok bs \<longleftrightarrow>
     (Command h = Request \<and> Num_entries h = 0 \<or> Command h = Response \<and> Num_entries h \<le> maxEntrySize) \<and>
     bs = AppendUint16 [] (Command h) @ AppendUint16 [] (Num_entries h) @
          concat (map enc_route (Hosts h))"
  by (auto simp: Marshal_def marshal_hosts_concat AppendUint16_def Request_def Response_def
      maxEntrySize_def)

lemma ParseHeader_Some:
  "ParseHeader (Some b) =
     (case rd16 b 0 of None \<Rightarrow> Panic | Some command \<Rightarrow>
     (case rd16 b 2 of None \<Rightarrow> Panic | Some num \<Rightarrow>
      if slice_len b < commandEntrySize then Err ErrHeaderTooShort
      else if command \<noteq> Request \<and> command \<noteq> Response then Err ErrInvalidCommand
      else if command = Request \<and> num \<noteq> 0 then Err ErrEntriesRequest
      else (case parse_hosts b 0 (unat num) [] of None \<Rightarrow> Panic
        | Some hosts \<Rightarrow>
           if num > maxEntrySize \<or> length hosts > unat maxEntrySize then Err ErrEntriesTooLong
           else Ok \<lparr>Command = command, Num_entries = num, Hosts = hosts\<rparr>)))"
  by (simp add: ParseHeader_def Parse_def newRipHeader_def Let_def split: option.splits)

lemma rip_codec_roundtrip:
  assumes "Marshal (Some h) = Ok bs" and "unat (Num_entries h) = length (Hosts h)"
  shows "ParseHeader (Some \<lparr>elems = bs, spare = sp\<rparr>) = Ok h"
proof -
  let ?b = "\<lparr>elems = bs, spare = sp\<rparr>"
  let ?run = "concat (map enc_route (Hosts h))"
  let ?n = "length (Hosts h)"
  from assms(1) have bs: "bs = AppendUint16 [] (Command h) @ AppendUint16 [] (Num_entries h) @ ?run"
    and ok: "Command h = Request \<and> Num_entries h = 0 \<or> Command h = Response \<and> Num_entries h \<le> maxEntrySize"
    by (auto simp: Marshal_Ok_iff)
  have cap: "4 + 12 * ?n \<le> slice_cap ?b" and len: "slice_len ?b \<ge> 4"
    by (simp_all add: bs slice_cap_def slice_len_def route.run_len)
  have "rd16 ?b 0 = Some (Command h)" "rd16 ?b 2 = Some (Num_entries h)"
    using cap by (simp_all add: rd16_eq backing_def bs be16.dec_enc)
  moreover have "parse_hosts ?b 0 ?n [] = Some (Hosts h)"
  proof -
    have "the (parse_host ?b j) = Hosts h ! j" if "j < ?n" for j
    proof -
      have "drop 4 (backing ?b) = ?run @ sp"
        by (simp add: backing_def bs)
      then show ?thesis
        using that cap by (simp add: parse_host_eq route.run_dec del: drop_append take_append)
    qed
    then have "map (\<lambda>j. the (parse_host ?b j)) [0..<?n] = Hosts h"
      by (intro nth_equalityI) simp_all
    with cap show ?thesis by (simp add: parse_hosts_eq)
  qed
  moreover have "Num_entries h \<le> maxEntrySize" "length (Hosts h) \<le> unat maxEntrySize"
    using ok assms(2) by (auto simp: word_le_nat_alt)
  ultimately show ?thesis
    using ok len assms(2)
    by (auto simp: ParseHeader_Some commandEntrySize_def not_less)
qed

text \<open>
  C32: the RIP wire format is a round trip.  If \<^verbatim>\<open>Marshal\<close> accepts a message whose
  \<^verbatim>\<open>Num_entries\<close> is the number of its routes, then \<^verbatim>\<open>ParseHeader\<close> on the bytes it
  produced, in a slice of any capacity, returns exactly that message: no error, no panic,
  every cost, address and mask intact and in order.
\<close>

theorem rip_parse_marshal:
  assumes "Marshal (Some h) = Ok bs" and "unat (Num_entries h) = length (Hosts h)"
  shows "ParseHeader (Some \<lparr>elems = bs, spare = sp\<rparr>) = Ok h"
  using assms by (rule rip_codec_roundtrip)

theorem rip_parse_marshal_witness:
  "ParseHeader (Some \<lparr>elems = [0, 2, 0, 1, 0, 0, 0, 3, 10, 1, 0, 0, 255, 255, 255, 0], spare = [7]\<rparr>)
   = Ok \<lparr>Command = 2, Num_entries = 1, Hosts = [\<lparr>Cost = 3, Address = 0x0A010000, Mask = 0xFFFFFF00\<rparr>]\<rparr>"
  by (rule rip_parse_marshal)
     (simp_all add: Marshal_Ok_iff enc_route_append AppendUint16_def AppendUint32_def
        Request_def Response_def maxEntrySize_def)

text \<open>
  Parsing is faithful to the bytes.  When \<^verbatim>\<open>ParseHeader\<close> accepts a slice, the
  message has a valid command, a request carries no routes, there are exactly
  \<^verbatim>\<open>Num_entries\<close> routes and at most 64, and marshalling the message gives back the
  bytes that were read: the first \<open>4 + 12 * n\<close> bytes of the slice's array.
\<close>

theorem rip_marshal_parse:
  assumes "ParseHeader (Some b) = Ok h"
  shows "length (Hosts h) = unat (Num_entries h) \<and> length (Hosts h) \<le> 64 \<and>
    (Command h = Request \<and> Hosts h = [] \<or> Command h = Response) \<and>
    Marshal (Some h) = Ok (take (4 + 12 * length (Hosts h)) (backing b))"
proof -
  from assms obtain command num hosts where
    c: "rd16 b 0 = Some command" and n: "rd16 b 2 = Some num" and
    ps: "parse_hosts b 0 (unat num) [] = Some hosts" and
    ok: "command = Request \<and> num = 0 \<or> command = Response" "num \<le> maxEntrySize" and
    h: "h = \<lparr>Command = command, Num_entries = num, Hosts = hosts\<rparr>"
    by (auto simp: ParseHeader_Some split: option.splits if_splits)
  have hosts: "hosts = map (\<lambda>j. the (parse_host b j)) [0..<unat num]"
    and cap: "num = 0 \<or> 4 + 12 * unat num \<le> slice_cap b"
    using ps by (auto simp: parse_hosts_eq unat_eq_0 split: if_splits)
  let ?all = "backing b"
  let ?body = "take (12 * unat num) (drop 4 ?all)"
  have cap4: "4 \<le> slice_cap b"
    using n by (simp add: rd16_eq split: if_splits)
  have run: "concat (map enc_route hosts) = ?body"
  proof (cases "num = 0")
    case True
    then show ?thesis by (simp add: hosts)
  next
    case False
    with cap have len: "length ?body = 12 * unat num" by simp
    have "the (parse_host b j) = the (dec_route (take 12 (drop (12 * j) ?body)))"
      if "j < unat num" for j
    proof -
      from that have "12 * j + 12 \<le> 12 * unat num" by simp
      moreover from this have "16 + 12 * j \<le> slice_cap b" using cap False by simp
      ultimately show ?thesis by (simp add: parse_host_eq drop_take min_def)
    qed
    then have "map enc_route hosts =
        map (\<lambda>i. enc_route (the (dec_route (take 12 (drop (12 * i) ?body))))) [0..<unat num]"
      by (simp add: hosts)
    with route.run_enc_dec [OF len] show ?thesis by simp
  qed
  have "AppendUint16 [] command = take 2 ?all" "AppendUint16 [] num = take 2 (drop 2 ?all)"
    using c n cap4 by (auto simp: rd16_eq intro!: be16.dec_Some_enc)
  then have "AppendUint16 [] command @ AppendUint16 [] num @ ?body = take (4 + 12 * unat num) ?all"
    by (simp add: take_add flip: append_assoc)
       (metis append.assoc drop_drop numeral_Bit0 take_add)
  with run ok have "Marshal (Some h) = Ok (take (4 + 12 * unat num) ?all)"
    by (auto simp: Marshal_Ok_iff h)
  moreover have "unat num \<le> 64"
    using ok(2) by (simp add: maxEntrySize_def word_le_nat_alt)
  ultimately show ?thesis
    using ok(1) by (auto simp: h hosts)
qed

theorem rip_marshal_parse_witness:
  "Marshal (Some \<lparr>Command = 1, Num_entries = 0, Hosts = []\<rparr>) = Ok [0, 1, 0, 0]"
proof -
  have "ParseHeader (Some \<lparr>elems = [0, 1, 0, 0], spare = []\<rparr>)
      = Ok \<lparr>Command = 1, Num_entries = 0, Hosts = []\<rparr>"
    by (simp add: ParseHeader_Some rd16_eq backing_def slice_cap_def slice_len_def
        commandEntrySize_def Request_def Response_def maxEntrySize_def numeral_2_eq_2)
  from rip_marshal_parse [OF this] show ?thesis by (simp add: backing_def)
qed

section \<open>When parsing panics\<close>

lemma Uint16_take2_Some: "length bs = 2 \<Longrightarrow> \<exists>v. Uint16 bs = Some v"
  using be16.dec_total by blast

text \<open>
  C33: the exact condition under which \<^verbatim>\<open>ParseHeader\<close> panics instead of returning an
  error.  It slices before it looks at lengths, so it panics when the slice's capacity is
  below the four header bytes, and when a response announces more routes than the capacity
  holds (the limit of 64 entries is only checked after the loop).
\<close>

theorem rip_parse_panics_iff:
  "ParseHeader (Some b) = Panic \<longleftrightarrow>
     slice_cap b < 4 \<or>
     4 \<le> slice_len b \<and> rd16 b 0 = Some Response \<and>
       (case rd16 b 2 of None \<Rightarrow> False
        | Some num \<Rightarrow> num \<noteq> 0 \<and> slice_cap b < 4 + 12 * unat num)"
proof (cases "slice_cap b < 4")
  case True
  then have "rd16 b 2 = None" by (simp add: rd16_eq)
  with True show ?thesis by (simp add: ParseHeader_Some split: option.split)
next
  case False
  then obtain command num where "rd16 b 0 = Some command" "rd16 b 2 = Some num"
    using rd16_Some [of 0 b] rd16_Some [of 2 b] by auto
  with False show ?thesis
    by (auto simp: ParseHeader_Some parse_hosts_eq commandEntrySize_def unat_eq_0)
qed

text \<open>
  A response of four bytes that announces 200 routes, in a receive buffer with the
  capacity the device's listener leaves behind a 20-byte IP header, panics.
\<close>

lemma rip_parse_panic_example:
  "ParseHeader (Some \<lparr>elems = [0, 2, 0, 200], spare = replicate 1376 0\<rparr>) = Panic"
  unfolding rip_parse_panics_iff
  by (simp add: rd16_eq backing_def slice_cap_def slice_len_def Response_def)

section \<open>Netmask round trip\<close>

lemma bit_Bits2Mask: "bit (Bits2Mask b) i \<longleftrightarrow> unat (32 - b) \<le> i \<and> i < 32"
  by (auto simp: Bits2Mask_def bit_simps)

lemma filter_ge_upt: "filter (\<lambda>i. n \<le> i) [0..<m] = [n..<m]"
  by (induction m) auto

lemma OnesCount32_Bits2Mask: "OnesCount32 (Bits2Mask b) = 32 - unat (32 - b)"
proof -
  have "filter (bit (Bits2Mask b)) [0..<32] = filter (\<lambda>i. unat (32 - b) \<le> i) [0..<32]"
    by (rule filter_cong) (auto simp: bit_Bits2Mask)
  then show ?thesis
    by (simp add: OnesCount32_def filter_ge_upt)
qed

lemma mask_roundtrip:
  assumes "b \<le> 32"
  shows "Mask2Bits (Bits2Mask b) = b"
proof -
  from assms have "unat (32 - b) = 32 - unat b"
    by (simp add: unat_sub)
  moreover from assms have "unat b \<le> 32"
    by (simp add: word_le_nat_alt)
  ultimately show ?thesis
    by (simp add: Mask2Bits_def OnesCount32_Bits2Mask)
qed

text \<open>
  The two netmask conversions are inverse on prefix lengths.  A prefix length of at
  most 32 that is sent as the mask \<^verbatim>\<open>Bits2Mask(b)\<close> is recovered by \<^verbatim>\<open>Mask2Bits\<close>,
  length 0 (the default route) included, where Go's shift by 32 yields mask 0.
\<close>

theorem mask2bits_bits2mask:
  assumes "b \<le> 32"
  shows "Mask2Bits (Bits2Mask b) = b"
  using assms by (rule mask_roundtrip)

theorem mask2bits_bits2mask_witness:
  "Mask2Bits (Bits2Mask 24) = 24 \<and> Mask2Bits (Bits2Mask 0) = 0"
  using mask2bits_bits2mask [of 24] mask2bits_bits2mask [of 0] by simp

end
