(* ===== verification/ByteFifo.thy ===== *)
theory ByteFifo
  imports Prelude
begin

text \<open>
  The contract between a byte buffer and its users: bytes come out in the order they
  went in, none lost, none invented.  The two ring buffers of a transmission control
  block provide it; the stream theorems of the connection are proved once against it.
\<close>

datatype fifo_op = Put "byte list" | Get u32

text \<open>
  A run of operations: \<open>None\<close> when a writer meets too little room (it waits, so the
  run does not go on), otherwise the final state and all bytes read.
\<close>

fun fifo_run ::
  "(byte list \<Rightarrow> 's \<Rightarrow> 's) \<Rightarrow> (u32 \<Rightarrow> 's \<Rightarrow> 's \<times> byte list) \<Rightarrow> ('s \<Rightarrow> nat) \<Rightarrow>
   fifo_op list \<Rightarrow> 's \<Rightarrow> ('s \<times> byte list) option" where
  "fifo_run pt gt room [] s = Some (s, [])"
| "fifo_run pt gt room (Put bs # ops) s =
     (if length bs \<le> room s then fifo_run pt gt room ops (pt bs s) else None)"
| "fifo_run pt gt room (Get n # ops) s =
     (case gt n s of (s', out) \<Rightarrow>
        map_option (\<lambda>(s'', outs). (s'', out @ outs)) (fifo_run pt gt room ops s'))"

fun written :: "fifo_op list \<Rightarrow> byte list" where
  "written [] = []"
| "written (Put bs # ops) = bs @ written ops"
| "written (Get n # ops) = written ops"

locale byte_fifo =
  fixes inv :: "'s \<Rightarrow> bool"
    and contents :: "'s \<Rightarrow> byte list"
    and room :: "'s \<Rightarrow> nat"
    and pt :: "byte list \<Rightarrow> 's \<Rightarrow> 's"
    and gt :: "u32 \<Rightarrow> 's \<Rightarrow> 's \<times> byte list"
    and limit :: "u32 \<Rightarrow> nat"
  assumes put_inv: "inv s \<Longrightarrow> length bs \<le> room s \<Longrightarrow> inv (pt bs s)"
    and put_contents: "inv s \<Longrightarrow> length bs \<le> room s \<Longrightarrow> contents (pt bs s) = contents s @ bs"
    and get_inv: "inv s \<Longrightarrow> inv (fst (gt n s))"
    and get_out: "inv s \<Longrightarrow> snd (gt n s) = take (limit n) (contents s)"
    and get_contents: "inv s \<Longrightarrow> contents (fst (gt n s)) = drop (limit n) (contents s)"
begin

lemma get_split: "inv s \<Longrightarrow> snd (gt n s) @ contents (fst (gt n s)) = contents s"
  by (simp add: get_out get_contents)

lemma run_stream:
  "inv s \<Longrightarrow> fifo_run pt gt room ops s = Some (s', outs) \<Longrightarrow>
   inv s' \<and> outs @ contents s' = contents s @ written ops"
proof (induction ops arbitrary: s outs)
  case Nil
  then show ?case by simp
next
  case (Cons op ops)
  show ?case
  proof (cases op)
    case (Put bs)
    with Cons.prems have fits: "length bs \<le> room s"
      and rest: "fifo_run pt gt room ops (pt bs s) = Some (s', outs)"
      by (auto split: if_splits)
    from Cons.IH [OF put_inv [OF Cons.prems(1) fits] rest] show ?thesis
      using put_contents [OF Cons.prems(1) fits] by (simp add: Put)
  next
    case (Get n)
    obtain s1 out where g: "gt n s = (s1, out)" by (cases "gt n s")
    with Cons.prems Get obtain outs1 where
      rest: "fifo_run pt gt room ops s1 = Some (s', outs1)" and outs: "outs = out @ outs1"
      by auto
    from g Cons.prems(1) have "inv s1" and "out @ contents s1 = contents s"
      using get_inv [of s n] get_split [of s n] by simp_all
    with Cons.IH [OF _ rest] show ?thesis
      by (simp add: outs Get)
  qed
qed

lemma run_prefix:
  "inv s \<Longrightarrow> contents s = [] \<Longrightarrow> fifo_run pt gt room ops s = Some (s', outs) \<Longrightarrow>
   outs = take (length outs) (written ops)"
  by (drule run_stream, assumption) (metis append_Nil append_eq_conv_conj)

end

text \<open>A buffer of fixed capacity, whose room is exactly what the contents leave.\<close>

locale bounded_fifo = byte_fifo +
  fixes cap :: nat
  assumes room_cap: "inv s \<Longrightarrow> room s + length (contents s) = cap"
begin

lemma contents_bounded: "inv s \<Longrightarrow> length (contents s) \<le> cap"
  using room_cap by fastforce

lemma drained_room: "inv s \<Longrightarrow> length (contents s) \<le> limit n \<Longrightarrow> room (fst (gt n s)) = cap"
  using room_cap [OF get_inv, of s n] get_contents [of s n] by simp

lemma put_room: "inv s \<Longrightarrow> length bs \<le> room s \<Longrightarrow> room (pt bs s) = room s - length bs"
  using room_cap [of s] room_cap [OF put_inv, of s bs] put_contents [of s bs] by simp

end

end
