(* ===== verification/Tcb.thy ===== *)
theory Tcb
  imports ByteFifo
begin

text \<open>
  \<^verbatim>\<open>pkg/protocol/tcb.go\<close>: the transmission control block, with its two 65,536-byte
  ring buffers, its 64-bit relative pointers and the 32-bit sequence numbers made from
  them.  The lemmas show that each ring buffer is a first-in first-out byte queue, that
  the receive window is the free space, and where the 32-bit distance is exact.  The
  channels of the structure are not fields of the record: the operations here are the
  ones the controllers run between two channel operations.
\<close>

section \<open>State\<close>

definition tcbSize :: u64 where "tcbSize = 65535"

text \<open>\<^verbatim>\<open>1400 - ipv4header.HeaderLen - tcpheader.TcpHeaderLen\<close>, both headers 20 bytes.\<close>

definition Mss :: u64 where "Mss = 1400 - 20 - 20"

record TCB =
  irs :: u32
  iss :: u32
  sendBuf :: "byte list"
  sendUna :: u64
  sendNxt :: u64
  sendLbr :: u64
  sendWnd :: u16
  sendWl1 :: u32
  sendWl2 :: u32
  rcvBuf :: "byte list"
  rcvNxt :: u64
  rcvWnd :: u16
  rcvLbr :: u64

text \<open>\<open>r\<close> is the value of \<^verbatim>\<open>rand.Uint32()\<close>.\<close>

definition createTCB :: "u32 \<Rightarrow> TCB" where
  "createTCB r =
     \<lparr>irs = 0, iss = r,
      sendBuf = replicate (unat (tcbSize + 1)) 0,
      sendUna = 0, sendNxt = 1, sendLbr = 1, sendWnd = 0, sendWl1 = 0, sendWl2 = 0,
      rcvBuf = replicate (unat (tcbSize + 1)) 0,
      rcvNxt = 0, rcvWnd = ucast tcbSize, rcvLbr = 0\<rparr>"

definition setSynReceivedState :: "u32 \<Rightarrow> u32 \<Rightarrow> u16 \<Rightarrow> TCB \<Rightarrow> TCB" where
  "setSynReceivedState rirs ackNum window t =
     t\<lparr>irs := rirs, sendWl1 := rirs, sendWl2 := ackNum, rcvNxt := 1, rcvLbr := 1,
       sendWnd := window\<rparr>"

definition advertiseWindowSize :: "TCB \<Rightarrow> u16" where
  "advertiseWindowSize t = rcvWnd t"

section \<open>Sequence-number arithmetic\<close>

definition wrappedDist :: "u32 \<Rightarrow> u32 \<Rightarrow> u32" where
  "wrappedDist num1 num2 =
     (let (num1, num2) = (if num1 < num2 then (num2, num1) else (num1, num2))
      in min (num1 - num2) (ucast tcbSize))"

definition wrappedCompare :: "u32 \<Rightarrow> u32 \<Rightarrow> int" where
  "wrappedCompare num1 num2 =
     (let dist = wrappedDist num1 num2
      in if dist = 0 then 0 else if num1 + dist = num2 then -1 else 1)"

definition getSendCapacity :: "TCB \<Rightarrow> u16" where
  "getSendCapacity t =
     ucast tcbSize - ucast (wrappedDist (ucast (sendNxt t)) (ucast (sendUna t)))"

definition wrapFromIss :: "TCB \<Rightarrow> u64 \<Rightarrow> u32" where
  "wrapFromIss t pointer = ucast (ucast (iss t) + pointer :: u64)"

definition wrapFromIrs :: "TCB \<Rightarrow> u64 \<Rightarrow> u32" where
  "wrapFromIrs t pointer = ucast (ucast (irs t) + pointer :: u64)"

definition wrapIndex :: "u64 \<Rightarrow> u64" where
  "wrapIndex idx = idx mod (tcbSize + 1)"

section \<open>Ring buffer operations\<close>

text \<open>
  The bytes both readers copy out: the two slices \<^verbatim>\<open>buf[start:]\<close> and
  \<^verbatim>\<open>buf[:min]\<close> when the region wraps around, one slice otherwise.
\<close>

definition ring_slice :: "byte list \<Rightarrow> u64 \<Rightarrow> u64 \<Rightarrow> byte list" where
  "ring_slice buf lbr dist =
     (let minIdx = wrapIndex (lbr + dist);
          startIdx = wrapIndex lbr
      in if wrapIndex lbr > minIdx
         then drop (unat startIdx) buf @ take (unat minIdx) buf
         else take (unat minIdx - unat startIdx) (drop (unat startIdx) buf))"

fun add2Send_loop :: "u64 \<Rightarrow> byte list \<Rightarrow> TCB \<Rightarrow> TCB" where
  "add2Send_loop count [] t = t"
| "add2Send_loop count (b # payload) t =
     add2Send_loop (wrapIndex (count + 1)) payload
       (t\<lparr>sendBuf := (sendBuf t)[unat count := b], sendNxt := sendNxt t + 1\<rparr>)"

definition add2Send :: "byte list \<Rightarrow> TCB \<Rightarrow> TCB" where
  "add2Send payload t = add2Send_loop (wrapIndex (sendNxt t)) payload t"

definition readFromSend :: "u32 \<Rightarrow> TCB \<Rightarrow> TCB \<times> byte list" where
  "readFromSend count t =
     (let dist = min (min (sendNxt t - sendLbr t) Mss) (ucast count);
          buf = ring_slice (sendBuf t) (sendLbr t) dist
      in (t\<lparr>sendLbr := sendLbr t + of_nat (length buf)\<rparr>, buf))"

fun add2Read_loop :: "u64 \<Rightarrow> byte list \<Rightarrow> TCB \<Rightarrow> TCB" where
  "add2Read_loop count [] t = t"
| "add2Read_loop count (b # payload) t =
     add2Read_loop (wrapIndex (count + 1)) payload
       (t\<lparr>rcvBuf := (rcvBuf t)[unat count := b], rcvNxt := rcvNxt t + 1,
          rcvWnd := rcvWnd t - 1\<rparr>)"

definition add2Read :: "byte list \<Rightarrow> TCB \<Rightarrow> TCB" where
  "add2Read payload t = add2Read_loop (wrapIndex (rcvNxt t)) payload t"

definition readFromRecv :: "u32 \<Rightarrow> TCB \<Rightarrow> TCB \<times> byte list" where
  "readFromRecv count t =
     (let dist = min (rcvNxt t - rcvLbr t) (ucast count);
          buf = ring_slice (rcvBuf t) (rcvLbr t) dist
      in (t\<lparr>rcvLbr := rcvLbr t + of_nat (length buf),
            rcvWnd := rcvWnd t + of_nat (length buf)\<rparr>, buf))"

section \<open>The ring as a queue of bytes\<close>

text \<open>The \<open>n\<close> bytes from position \<open>p\<close> on, positions taken modulo the buffer size.\<close>

definition ring_read :: "byte list \<Rightarrow> nat \<Rightarrow> nat \<Rightarrow> byte list" where
  "ring_read buf p n = map (\<lambda>i. buf ! ((p + i) mod 65536)) [0..<n]"

fun ring_write :: "byte list \<Rightarrow> nat \<Rightarrow> byte list \<Rightarrow> byte list" where
  "ring_write buf p [] = buf"
| "ring_write buf p (b # bs) = ring_write (buf[p mod 65536 := b]) (Suc p) bs"

lemma length_ring_read [simp]: "length (ring_read buf p n) = n"
  by (simp add: ring_read_def)

lemma length_ring_write [simp]: "length (ring_write buf p bs) = length buf"
  by (induction bs arbitrary: buf p) simp_all

lemma ring_read_take: "m \<le> n \<Longrightarrow> take m (ring_read buf p n) = ring_read buf p m"
  by (simp add: ring_read_def take_map)

lemma ring_read_drop: "m \<le> n \<Longrightarrow> drop m (ring_read buf p n) = ring_read buf (p + m) (n - m)"
proof (rule nth_equalityI)
  fix i
  assume "m \<le> n" "i < length (drop m (ring_read buf p n))"
  then have "m + i < n" "i < n - m" by simp_all
  then show "drop m (ring_read buf p n) ! i = ring_read buf (p + m) (n - m) ! i"
    by (simp add: ring_read_def add.assoc)
qed simp

lemma ring_read_mod: "p mod 65536 = q mod 65536 \<Longrightarrow> ring_read buf p n = ring_read buf q n"
  unfolding ring_read_def by (rule map_cong [OF refl]) (metis mod_add_left_eq)

lemma ring_read_Suc: "ring_read buf p (Suc n) = ring_read buf p n @ [buf ! ((p + n) mod 65536)]"
  by (simp add: ring_read_def)

lemma mod_shift_neq:
  fixes p i n m :: nat
  assumes "i < n" "n < m"
  shows "(p + i) mod m \<noteq> (p + n) mod m"
proof
  assume "(p + i) mod m = (p + n) mod m"
  then have "m dvd (p + n) - (p + i)"
    using assms(1) by (metis add_le_cancel_left less_imp_le_nat mod_eq_dvd_iff_nat)
  then have "m dvd n - i" by simp
  with assms show False
    by (metis diff_is_0_eq dvd_imp_le leD less_imp_diff_less neq0_conv)
qed

lemma ring_read_update:
  "n < 65536 \<Longrightarrow> ring_read (buf[(p + n) mod 65536 := b]) p n = ring_read buf p n"
  unfolding ring_read_def
  by (rule map_cong [OF refl]) (simp add: mod_shift_neq [symmetric] mod_shift_neq)

lemma ring_read_write:
  "length buf = 65536 \<Longrightarrow> n + length bs \<le> 65536 \<Longrightarrow>
   ring_read (ring_write buf (p + n) bs) p (n + length bs) = ring_read buf p n @ bs"
proof (induction bs arbitrary: buf n)
  case Nil
  then show ?case by simp
next
  case (Cons b bs)
  let ?buf = "buf[(p + n) mod 65536 := b]"
  have "ring_read (ring_write ?buf (p + Suc n) bs) p (Suc n + length bs) = ring_read ?buf p (Suc n) @ bs"
    by (rule Cons.IH) (use Cons.prems in simp_all)
  moreover have "ring_read ?buf p (Suc n) = ring_read buf p n @ [b]"
    using Cons.prems by (simp add: ring_read_Suc ring_read_update)
  ultimately show ?case by simp
qed

lemma ring_write_mod: "p mod 65536 = q mod 65536 \<Longrightarrow> ring_write buf p bs = ring_write buf q bs"
proof (induction bs arbitrary: buf p q)
  case Nil
  then show ?case by simp
next
  case (Cons b bs)
  from Cons.prems have "Suc p mod 65536 = Suc q mod 65536" by (metis mod_Suc_eq)
  from Cons.IH [OF this] show ?case
    by (simp only: ring_write.simps Cons.prems)
qed

lemma unat_wrapIndex: "unat (wrapIndex p) = unat p mod 65536"
  by (simp add: wrapIndex_def tcbSize_def unat_mod)

lemma unat_wrapIndex_add: "unat (wrapIndex (p + q)) = (unat p + unat q) mod 65536"
proof -
  have "unat (p + q) mod 65536 = (unat p + unat q) mod 2 ^ 64 mod 65536"
    by (simp add: unat_word_ariths)
  also have "\<dots> = (unat p + unat q) mod 65536"
    by (rule mod_mod_cancel) simp
  finally show ?thesis by (simp add: unat_wrapIndex)
qed

lemma ring_slice_eq:
  assumes len: "length buf = 65536" and dist: "unat dist < 65536"
  shows "ring_slice buf lbr dist = ring_read buf (unat lbr) (unat dist)"
proof -
  define s where "s = unat lbr mod 65536"
  define d where "d = unat dist"
  have s: "s < 65536" by (simp add: s_def)
  have min: "unat (wrapIndex (lbr + dist)) = (s + d) mod 65536"
    by (simp add: unat_wrapIndex_add s_def d_def mod_simps)
  have rr: "ring_read buf (unat lbr) d = ring_read buf s d"
    by (rule ring_read_mod) (simp add: s_def)
  show ?thesis
  proof (cases "s + d < 65536")
    case True
    then have "ring_slice buf lbr dist = take d (drop s buf)"
      by (simp add: ring_slice_def Let_def word_less_nat_alt min) (simp add: unat_wrapIndex s_def)
    also have "\<dots> = ring_read buf s d"
      by (rule nth_equalityI) (use True len in \<open>simp_all add: ring_read_def\<close>)
    finally show ?thesis using rr by (simp add: d_def)
  next
    case False
    then have m: "(s + d) mod 65536 = s + d - 65536" and lt: "s + d - 65536 < s"
      using s dist by (simp_all add: d_def mod_if)
    then have "ring_slice buf lbr dist = drop s buf @ take (s + d - 65536) buf"
      by (simp add: ring_slice_def Let_def word_less_nat_alt min) (simp add: unat_wrapIndex s_def)
    also have "\<dots> = ring_read buf s d"
    proof (rule nth_equalityI)
      show "length (drop s buf @ take (s + d - 65536) buf) = length (ring_read buf s d)"
        using False len lt s by simp
    next
      fix i
      assume "i < length (drop s buf @ take (s + d - 65536) buf)"
      then have i: "i < d" using False len lt s by simp
      show "(drop s buf @ take (s + d - 65536) buf) ! i = ring_read buf s d ! i"
      proof (cases "i < 65536 - s")
        case True
        then show ?thesis using i s len by (simp add: nth_append ring_read_def)
      next
        case False
        then have "65536 \<le> s + i" and "s + i - 65536 < 65536"
          using i s dist by (simp_all add: d_def)
        then have "(s + i) mod 65536 = s + i - 65536"
          by (simp add: mod_if)
        with False show ?thesis using i s len by (simp add: nth_append ring_read_def add.commute)
      qed
    qed
    finally show ?thesis using rr by (simp add: d_def)
  qed
qed

lemma add2Send_loop_eq:
  "length (sendBuf t) = 65536 \<Longrightarrow> unat count = p mod 65536 \<Longrightarrow>
   add2Send_loop count bs t =
     t\<lparr>sendBuf := ring_write (sendBuf t) p bs, sendNxt := sendNxt t + of_nat (length bs)\<rparr>"
proof (induction bs arbitrary: count p t)
  case Nil
  then show ?case by simp
next
  case (Cons b bs)
  have "unat (wrapIndex (count + 1)) = Suc p mod 65536"
    using Cons.prems(2) by (simp add: unat_wrapIndex_add mod_Suc_eq)
  with Cons show ?case by simp
qed

lemma add2Send_eq:
  "length (sendBuf t) = 65536 \<Longrightarrow>
   add2Send bs t =
     t\<lparr>sendBuf := ring_write (sendBuf t) (unat (sendNxt t)) bs,
       sendNxt := sendNxt t + of_nat (length bs)\<rparr>"
  by (simp add: add2Send_def add2Send_loop_eq unat_wrapIndex)

lemma add2Read_loop_eq:
  "length (rcvBuf t) = 65536 \<Longrightarrow> unat count = p mod 65536 \<Longrightarrow>
   add2Read_loop count bs t =
     t\<lparr>rcvBuf := ring_write (rcvBuf t) p bs, rcvNxt := rcvNxt t + of_nat (length bs),
       rcvWnd := rcvWnd t - of_nat (length bs)\<rparr>"
proof (induction bs arbitrary: count p t)
  case Nil
  then show ?case by simp
next
  case (Cons b bs)
  have "unat (wrapIndex (count + 1)) = Suc p mod 65536"
    using Cons.prems(2) by (simp add: unat_wrapIndex_add mod_Suc_eq)
  with Cons show ?case by (simp add: algebra_simps)
qed

lemma add2Read_eq:
  "length (rcvBuf t) = 65536 \<Longrightarrow>
   add2Read bs t =
     t\<lparr>rcvBuf := ring_write (rcvBuf t) (unat (rcvNxt t)) bs,
       rcvNxt := rcvNxt t + of_nat (length bs), rcvWnd := rcvWnd t - of_nat (length bs)\<rparr>"
  by (simp add: add2Read_def add2Read_loop_eq unat_wrapIndex)

section \<open>The receive side is a queue of bounded capacity\<close>

definition rcv_contents :: "TCB \<Rightarrow> byte list" where
  "rcv_contents t = ring_read (rcvBuf t) (unat (rcvLbr t)) (unat (rcvNxt t - rcvLbr t))"

definition rcv_inv :: "TCB \<Rightarrow> bool" where
  "rcv_inv t \<longleftrightarrow> length (rcvBuf t) = 65536 \<and>
     unat (rcvNxt t - rcvLbr t) + unat (rcvWnd t) = 65535"

lemma unat_add_of_nat:
  fixes w :: "'a::len word"
  assumes "unat w + n < 2 ^ LENGTH('a)"
  shows "unat (w + of_nat n) = unat w + n"
  using assms by (simp add: unat_word_ariths unat_of_nat take_bit_nat_def)

lemma unat_sub_of_nat:
  fixes w :: "'a::len word"
  assumes "n \<le> unat w"
  shows "unat (w - of_nat n) = unat w - n"
proof -
  have "n < 2 ^ LENGTH('a)" using assms unsigned_less [of w] by (rule le_less_trans)
  then have n: "unat (of_nat n :: 'a word) = n"
    by (simp add: unat_of_nat take_bit_nat_def)
  with assms have "(of_nat n :: 'a word) \<le> w" by (simp add: word_le_nat_alt)
  then show ?thesis by (simp add: unat_sub n)
qed

lemma ring_read_advance:
  "m \<le> n \<Longrightarrow> drop m (ring_read buf (unat p) n) = ring_read buf (unat (p + of_nat m :: u64)) (n - m)"
proof -
  assume le: "m \<le> n"
  have eq: "(unat p + m) mod 65536 = unat (p + of_nat m) mod 65536"
  proof -
    have "unat (of_nat m :: u64) mod 65536 = m mod 65536"
      by (simp add: unat_of_nat take_bit_nat_def mod_mod_cancel)
    then show ?thesis
      using unat_wrapIndex_add [of p "of_nat m"] by (metis mod_add_right_eq unat_wrapIndex)
  qed
  show ?thesis
    unfolding ring_read_drop [OF le] by (rule ring_read_mod [OF eq])
qed

lemma rcv_put:
  assumes inv: "rcv_inv t" and room: "length bs \<le> unat (rcvWnd t)"
  shows "rcv_inv (add2Read bs t)" "rcv_contents (add2Read bs t) = rcv_contents t @ bs"
proof -
  let ?n = "unat (rcvNxt t - rcvLbr t)"
  from inv have len: "length (rcvBuf t) = 65536" and sum: "?n + unat (rcvWnd t) = 65535"
    by (simp_all add: rcv_inv_def)
  have "rcvNxt t + of_nat (length bs) - rcvLbr t = (rcvNxt t - rcvLbr t) + of_nat (length bs)"
    by simp
  then have n': "unat (rcvNxt t + of_nat (length bs) - rcvLbr t) = ?n + length bs"
    using sum room by (simp only:) (rule unat_add_of_nat, simp)
  show "rcv_inv (add2Read bs t)"
    using len sum room by (simp add: rcv_inv_def add2Read_eq n' unat_sub_of_nat)
  have "unat (rcvNxt t) mod 65536 = (unat (rcvLbr t) + ?n) mod 65536"
    using unat_wrapIndex_add [of "rcvLbr t" "rcvNxt t - rcvLbr t"] by (simp add: unat_wrapIndex)
  then have "ring_write (rcvBuf t) (unat (rcvNxt t)) bs = ring_write (rcvBuf t) (unat (rcvLbr t) + ?n) bs"
    by (rule ring_write_mod)
  then show "rcv_contents (add2Read bs t) = rcv_contents t @ bs"
    using len sum room by (simp add: rcv_contents_def add2Read_eq n' ring_read_write)
qed

lemma rcv_get:
  assumes inv: "rcv_inv t"
  shows "snd (readFromRecv n t) = take (unat n) (rcv_contents t)"
    "rcv_contents (fst (readFromRecv n t)) = drop (unat n) (rcv_contents t)"
    "rcv_inv (fst (readFromRecv n t))"
proof -
  let ?k = "unat (rcvNxt t - rcvLbr t)"
  let ?dist = "min (rcvNxt t - rcvLbr t) (ucast n)"
  define d where "d = min ?k (unat n)"
  from inv have len: "length (rcvBuf t) = 65536" and sum: "?k + unat (rcvWnd t) = 65535"
    by (simp_all add: rcv_inv_def)
  have d: "unat ?dist = d"
    by (simp add: d_def min_def word_le_nat_alt)
  have dk: "d \<le> ?k" by (simp add: d_def)
  have out: "ring_slice (rcvBuf t) (rcvLbr t) ?dist = ring_read (rcvBuf t) (unat (rcvLbr t)) d"
    using ring_slice_eq [OF len, of ?dist "rcvLbr t"] dk sum by (simp add: d)
  have snd: "snd (readFromRecv n t) = ring_read (rcvBuf t) (unat (rcvLbr t)) d"
    and fst: "fst (readFromRecv n t) =
      t\<lparr>rcvLbr := rcvLbr t + of_nat d, rcvWnd := rcvWnd t + of_nat d\<rparr>"
    by (simp_all add: readFromRecv_def Let_def out)
  have take: "take (unat n) (rcv_contents t) = take d (rcv_contents t)"
    and drop: "drop (unat n) (rcv_contents t) = drop d (rcv_contents t)"
    by (simp_all add: rcv_contents_def d_def min_def)
  show "snd (readFromRecv n t) = take (unat n) (rcv_contents t)"
    using dk by (simp only: take snd) (simp add: rcv_contents_def ring_read_take)
  have "rcvNxt t - (rcvLbr t + of_nat d) = (rcvNxt t - rcvLbr t) - of_nat d"
    by simp
  then have k': "unat (rcvNxt t - (rcvLbr t + of_nat d)) = ?k - d"
    using dk by (simp only:) (rule unat_sub_of_nat)
  show "rcv_contents (fst (readFromRecv n t)) = drop (unat n) (rcv_contents t)"
    using dk by (simp only: drop fst) (simp add: rcv_contents_def k' ring_read_advance)
  have "unat (rcvWnd t + of_nat d) = unat (rcvWnd t) + d"
    using sum dk by (intro unat_add_of_nat) simp
  then show "rcv_inv (fst (readFromRecv n t))"
    using len sum dk by (simp add: fst rcv_inv_def k')
qed

interpretation rcv: bounded_fifo rcv_inv rcv_contents "\<lambda>t. unat (rcvWnd t)" add2Read readFromRecv unat 65535
proof
  show "unat (rcvWnd t) + length (rcv_contents t) = 65535" if "rcv_inv t" for t
    using that by (simp add: rcv_inv_def rcv_contents_def)
qed (use rcv_put rcv_get in blast)+

lemma rcv_room_after_get:
  "rcv_inv t \<Longrightarrow> unat (rcvWnd t) \<le> unat (rcvWnd (fst (readFromRecv n t)))"
  using rcv.room_cap [of t] rcv.room_cap [OF rcv.get_inv, of t n] rcv.get_contents [of t n] by simp

section \<open>The send side is a queue\<close>

definition snd_contents :: "TCB \<Rightarrow> byte list" where
  "snd_contents t = ring_read (sendBuf t) (unat (sendLbr t)) (unat (sendNxt t - sendLbr t))"

definition snd_inv :: "TCB \<Rightarrow> bool" where
  "snd_inv t \<longleftrightarrow> length (sendBuf t) = 65536 \<and>
     unat (sendLbr t - sendUna t) + unat (sendNxt t - sendLbr t) \<le> 65535"

lemma wrappedDist_bound: "unat (wrappedDist a b) \<le> 65535"
  by (simp add: wrappedDist_def Let_def min_def tcbSize_def word_le_nat_alt split: prod.split)

text \<open>The distance is never below the true one, even across the 32-bit wrap.\<close>

lemma wrappedDist_ge:
  assumes "d \<le> 65535"
  shows "d \<le> unat (wrappedDist (x + of_nat d) x)"
proof (cases "unat x + d < 2 ^ 32")
  case True
  then have "unat (x + of_nat d) = unat x + d"
    by (intro unat_add_of_nat) simp
  then have "\<not> x + of_nat d < x" "unat (x + of_nat d - x) = d"
    using assms by (simp_all add: word_less_nat_alt unat_of_nat take_bit_nat_def)
  then show ?thesis
    using assms by (simp add: wrappedDist_def min_def tcbSize_def word_le_nat_alt unat_of_nat take_bit_nat_def)
next
  case False
  have "unat (x + of_nat d) = (unat x + d) mod 2 ^ 32"
    using assms by (simp add: unat_word_ariths unat_of_nat take_bit_nat_def)
  also have "\<dots> = unat x + d - 2 ^ 32"
  proof -
    have "2 ^ 32 \<le> unat x + d" "unat x + d - 2 ^ 32 < 2 ^ 32"
      using False assms unat_u32_bound [of x] by simp_all
    then show ?thesis by (simp only: le_mod_geq mod_less)
  qed
  finally have u: "unat (x + of_nat d) = unat x + d - 2 ^ 32" .
  then have lt: "x + of_nat d < x"
    using assms False unat_u32_bound [of x] by (simp add: word_less_nat_alt)
  moreover have "unat (x - (x + of_nat d)) = 2 ^ 32 - d"
  proof -
    from lt have "unat (x - (x + of_nat d)) = unat x - unat (x + of_nat d)"
      by (intro unat_sub) simp
    then show ?thesis using u assms False by simp
  qed
  moreover have "\<not> 4294967296 - d \<le> 65535" using assms by simp
  ultimately show ?thesis
    using assms by (simp add: wrappedDist_def min_def tcbSize_def word_le_nat_alt)
qed

lemma ucast_add_of_nat:
  "(ucast (w + of_nat n :: u64) :: u32) = ucast w + of_nat n"
  by (rule word_unat_eq_iff [THEN iffD2])
     (simp add: unsigned_ucast_eq unat_word_ariths unat_of_nat take_bit_nat_def mod_mod_cancel mod_simps)

lemma send_capacity_bound:
  assumes "unat (sendNxt t - sendUna t) \<le> 65535"
  shows "unat (getSendCapacity t) + unat (sendNxt t - sendUna t) \<le> 65535"
proof -
  let ?d = "unat (sendNxt t - sendUna t)"
  let ?w = "wrappedDist (ucast (sendNxt t)) (ucast (sendUna t))"
  have "sendNxt t = sendUna t + of_nat ?d" by simp
  then have "(ucast (sendNxt t) :: u32) = ucast (sendUna t) + of_nat ?d"
    by (metis ucast_add_of_nat)
  with assms have "?d \<le> unat ?w"
    using wrappedDist_ge [of ?d "ucast (sendUna t)"] by simp
  moreover have "unat (getSendCapacity t) = 65535 - unat ?w"
  proof -
    have "unat (ucast ?w :: u16) = unat ?w"
      using wrappedDist_bound [of "ucast (sendNxt t)" "ucast (sendUna t)"]
      by (simp add: unsigned_ucast_eq take_bit_nat_eq_self_iff)
    then show ?thesis
      using wrappedDist_bound [of "ucast (sendNxt t)" "ucast (sendUna t)"]
      by (simp add: getSendCapacity_def tcbSize_def unat_sub word_le_nat_alt)
  qed
  ultimately show ?thesis
    using wrappedDist_bound [of "ucast (sendNxt t)" "ucast (sendUna t)"] by simp
qed

text \<open>Two consecutive 64-bit distances that fit add up.\<close>

lemma unat_dist_add:
  fixes a b c :: u64
  assumes "unat (b - a) + unat (c - b) \<le> 65535"
  shows "unat (c - a) = unat (b - a) + unat (c - b)"
proof -
  have "c - a = (b - a) + of_nat (unat (c - b))" by simp
  then show ?thesis
    using assms by (simp only:) (rule unat_add_of_nat, simp)
qed

lemma snd_put:
  assumes inv: "snd_inv t" and room: "length bs \<le> unat (getSendCapacity t)"
  shows "snd_inv (add2Send bs t)" "snd_contents (add2Send bs t) = snd_contents t @ bs"
proof -
  let ?u = "unat (sendLbr t - sendUna t)"
  let ?n = "unat (sendNxt t - sendLbr t)"
  from inv have len: "length (sendBuf t) = 65536" and sum: "?u + ?n \<le> 65535"
    by (simp_all add: snd_inv_def)
  have "unat (sendNxt t - sendUna t) = ?u + ?n"
    using sum by (rule unat_dist_add)
  then have fits: "?u + ?n + length bs \<le> 65535"
    using send_capacity_bound [of t] sum room by simp
  have "sendNxt t + of_nat (length bs) - sendLbr t = (sendNxt t - sendLbr t) + of_nat (length bs)"
    by simp
  then have n': "unat (sendNxt t + of_nat (length bs) - sendLbr t) = ?n + length bs"
    using fits by (simp only:) (rule unat_add_of_nat, simp)
  show "snd_inv (add2Send bs t)"
    using len fits by (simp add: snd_inv_def add2Send_eq n')
  have "unat (sendNxt t) mod 65536 = (unat (sendLbr t) + ?n) mod 65536"
    using unat_wrapIndex_add [of "sendLbr t" "sendNxt t - sendLbr t"] by (simp add: unat_wrapIndex)
  then have "ring_write (sendBuf t) (unat (sendNxt t)) bs = ring_write (sendBuf t) (unat (sendLbr t) + ?n) bs"
    by (rule ring_write_mod)
  then show "snd_contents (add2Send bs t) = snd_contents t @ bs"
    using len fits by (simp add: snd_contents_def add2Send_eq n' ring_read_write)
qed

lemma snd_get:
  assumes inv: "snd_inv t"
  shows "snd (readFromSend n t) = take (min 1360 (unat n)) (snd_contents t)"
    "snd_contents (fst (readFromSend n t)) = drop (min 1360 (unat n)) (snd_contents t)"
    "snd_inv (fst (readFromSend n t))"
proof -
  let ?u = "unat (sendLbr t - sendUna t)"
  let ?k = "unat (sendNxt t - sendLbr t)"
  let ?dist = "min (min (sendNxt t - sendLbr t) Mss) (ucast n)"
  define d where "d = min ?k (min 1360 (unat n))"
  from inv have len: "length (sendBuf t) = 65536" and sum: "?u + ?k \<le> 65535"
    by (simp_all add: snd_inv_def)
  have d: "unat ?dist = d"
    by (simp add: d_def min_def word_le_nat_alt Mss_def)
  have dk: "d \<le> ?k" by (simp add: d_def)
  have out: "ring_slice (sendBuf t) (sendLbr t) ?dist = ring_read (sendBuf t) (unat (sendLbr t)) d"
    using ring_slice_eq [OF len, of ?dist "sendLbr t"] dk sum by (simp add: d)
  have snd: "snd (readFromSend n t) = ring_read (sendBuf t) (unat (sendLbr t)) d"
    and fst: "fst (readFromSend n t) = t\<lparr>sendLbr := sendLbr t + of_nat d\<rparr>"
    by (simp_all add: readFromSend_def Let_def out)
  have take: "take (min 1360 (unat n)) (snd_contents t) = take d (snd_contents t)"
    and drop: "drop (min 1360 (unat n)) (snd_contents t) = drop d (snd_contents t)"
    by (simp_all add: snd_contents_def d_def min_def)
  show "snd (readFromSend n t) = take (min 1360 (unat n)) (snd_contents t)"
    using dk by (simp only: take snd) (simp add: snd_contents_def ring_read_take)
  have "sendNxt t - (sendLbr t + of_nat d) = (sendNxt t - sendLbr t) - of_nat d"
    by simp
  then have k': "unat (sendNxt t - (sendLbr t + of_nat d)) = ?k - d"
    using dk by (simp only:) (rule unat_sub_of_nat)
  show "snd_contents (fst (readFromSend n t)) = drop (min 1360 (unat n)) (snd_contents t)"
    using dk by (simp only: drop fst) (simp add: snd_contents_def k' ring_read_advance)
  have "sendLbr t + of_nat d - sendUna t = (sendLbr t - sendUna t) + of_nat d"
    by simp
  then have "unat (sendLbr t + of_nat d - sendUna t) = ?u + d"
    using sum dk by (simp only:) (rule unat_add_of_nat, simp)
  then show "snd_inv (fst (readFromSend n t))"
    using len sum dk by (simp add: fst snd_inv_def k')
qed

interpretation snd_side: byte_fifo snd_inv snd_contents "\<lambda>t. unat (getSendCapacity t)" add2Send readFromSend
  "\<lambda>n. min 1360 (unat n)"
  by unfold_locales (use snd_put snd_get in blast)+

section \<open>The initial block\<close>

lemma createTCB_inv: "rcv_inv (createTCB r)" "snd_inv (createTCB r)"
  by (simp_all add: rcv_inv_def snd_inv_def createTCB_def tcbSize_def)

lemma createTCB_empty: "rcv_contents (createTCB r) = []" "snd_contents (createTCB r) = []"
  by (simp_all add: rcv_contents_def snd_contents_def createTCB_def ring_read_def)

lemma setSynReceivedState_inv:
  "length (rcvBuf t) = 65536 \<Longrightarrow> rcvWnd t = 65535 \<Longrightarrow> rcv_inv (setSynReceivedState a b c t)"
  by (simp add: rcv_inv_def setSynReceivedState_def)

lemma createTCB_bufs: "length (sendBuf (createTCB r)) = 65536" "length (rcvBuf (createTCB r)) = 65536"
  by (simp_all add: createTCB_def tcbSize_def)

lemma createTCB_sizes [simp]:
  "rcvWnd (createTCB r) = 65535" "getSendCapacity (createTCB r) = 65534"
  "iss (createTCB r) = r" "irs (createTCB r) = 0" "sendUna (createTCB r) = 0"
  "sendNxt (createTCB r) = 1" "sendLbr (createTCB r) = 1" "sendWnd (createTCB r) = 0"
  "rcvNxt (createTCB r) = 0" "rcvLbr (createTCB r) = 0"
  by (simp_all add: createTCB_def tcbSize_def getSendCapacity_def wrappedDist_def)

section \<open>Stream integrity\<close>

text \<open>
  C15: what a program reads is what the peer sent.  Whatever sequence of segments is
  added to the receive buffer and of reads is served, as long as each segment fits the
  advertised window, the bytes read, followed by the bytes still in the buffer, are exactly
  the bytes received, in order: nothing is lost, duplicated or reordered, across any number
  of wrap-arounds of the 65,536-byte ring; and the advertised window is always the free
  space.
\<close>

theorem recv_stream_integrity:
  assumes "rcv_inv t" and "rcv_contents t = []"
    and "fifo_run add2Read readFromRecv (\<lambda>t. unat (rcvWnd t)) ops t = Some (t', outs)"
  shows "outs @ rcv_contents t' = written ops \<and> rcv_inv t' \<and>
    unat (advertiseWindowSize t') + length (rcv_contents t') = 65535"
  using rcv.run_stream [OF assms(1,3)] rcv.room_cap [of t'] assms(2)
  by (simp add: advertiseWindowSize_def)

theorem recv_stream_integrity_witness:
  "\<exists>t' outs. fifo_run add2Read readFromRecv (\<lambda>t. unat (rcvWnd t))
      [Put [1, 2, 3], Get 2] (createTCB 0) = Some (t', outs) \<and>
     outs @ rcv_contents t' = [1, 2, 3] \<and> rcv_inv t'"
proof -
  obtain t' outs where
    run: "fifo_run add2Read readFromRecv (\<lambda>t. unat (rcvWnd t)) [Put [1, 2, 3], Get 2] (createTCB 0)
      = Some (t', outs)"
    by (cases "readFromRecv 2 (add2Read [1, 2, 3] (createTCB 0))") simp
  from recv_stream_integrity [OF createTCB_inv(1) createTCB_empty(1) run] run
  show ?thesis by auto
qed

text \<open>
  C25: what is put on the wire is what the program wrote.  Whatever sequence of writes that
  fit the send capacity and of reads by the sender, the bytes cut into segments, followed by
  the bytes still unsent, are exactly the bytes written, in order; and every segment is at
  most the maximum segment size.
\<close>

theorem send_stream_integrity:
  assumes "snd_inv t" and "snd_contents t = []"
    and "fifo_run add2Send readFromSend (\<lambda>t. unat (getSendCapacity t)) ops t = Some (t', outs)"
  shows "outs @ snd_contents t' = written ops \<and> snd_inv t' \<and>
    length (snd (readFromSend n t')) \<le> unat Mss"
  using snd_side.run_stream [OF assms(1,3)] snd_side.get_out [of t' n] assms(2)
  by (simp add: Mss_def)

theorem send_stream_integrity_witness:
  "\<exists>t' outs. fifo_run add2Send readFromSend (\<lambda>t. unat (getSendCapacity t))
      [Put [7, 8], Get 1] (createTCB 0) = Some (t', outs) \<and>
     outs @ snd_contents t' = [7, 8] \<and> snd_inv t'"
proof -
  obtain t' outs where
    run: "fifo_run add2Send readFromSend (\<lambda>t. unat (getSendCapacity t)) [Put [7, 8], Get 1] (createTCB 0)
      = Some (t', outs)"
    by (cases "readFromSend 1 (add2Send [7, 8] (createTCB 0))") simp
  from send_stream_integrity [OF createTCB_inv(2) createTCB_empty(2) run] run
  show ?thesis by auto
qed

section \<open>Sequence numbers\<close>

lemma wrappedDist_sym: "wrappedDist a b = wrappedDist b a"
  by (auto simp: wrappedDist_def)

text \<open>
  C38: below the 32-bit wrap the comparison of sequence numbers is right.  For two numbers
  at most 65,535 apart as integers, \<^verbatim>\<open>wrappedDist\<close> is their distance and
  \<^verbatim>\<open>wrappedCompare\<close> the sign of their difference.
\<close>

theorem wrappedCompare_correct:
  assumes "\<bar>uint a - uint b\<bar> \<le> 65535"
  shows "uint (wrappedDist a b) = \<bar>uint a - uint b\<bar> \<and>
    wrappedCompare a b = sgn (uint a - uint b)"
proof -
  have dist: "uint (wrappedDist a b) = \<bar>uint a - uint b\<bar>"
  proof (cases "a < b")
    case True
    then have "uint (b - a) = uint b - uint a"
      by (intro uint_sub_lem [THEN iffD1]) (simp add: word_le_def word_less_def)
    with True assms show ?thesis
      by (simp add: wrappedDist_def min_def tcbSize_def word_less_def word_le_def)
  next
    case False
    then have "uint (a - b) = uint a - uint b"
      by (intro uint_sub_lem [THEN iffD1]) (simp add: word_le_def word_less_def)
    with False assms show ?thesis
      by (simp add: wrappedDist_def min_def tcbSize_def word_less_def word_le_def)
  qed
  consider "a = b" | "a < b" | "b < a" by fastforce
  then have "wrappedCompare a b = sgn (uint a - uint b)"
  proof cases
    case 1
    then show ?thesis by (simp add: wrappedCompare_def wrappedDist_def)
  next
    case 2
    then have "uint a < uint b" by (simp add: word_less_def)
    moreover have "a + wrappedDist a b = b"
    proof -
      have "uint (b - a) = uint b - uint a"
        using \<open>uint a < uint b\<close> by (intro uint_sub_lem [THEN iffD1]) simp
      with dist \<open>uint a < uint b\<close> have "wrappedDist a b = b - a"
        by (simp add: word_uint_eq_iff)
      then show ?thesis by simp
    qed
    moreover have "wrappedDist a b \<noteq> 0" using dist \<open>uint a < uint b\<close> by auto
    ultimately show ?thesis by (simp add: wrappedCompare_def)
  next
    case 3
    then have lt: "uint b < uint a" by (simp add: word_less_def)
    then have "wrappedDist a b \<noteq> 0" using dist by auto
    moreover have "a + wrappedDist a b \<noteq> b"
    proof
      assume "a + wrappedDist a b = b"
      moreover have "wrappedDist a b = a - b"
      proof -
        have "uint (a - b) = uint a - uint b"
          using lt by (intro uint_sub_lem [THEN iffD1]) simp
        with dist lt show ?thesis by (simp add: word_uint_eq_iff)
      qed
      ultimately have "(a - b) + (a - b) = 0" by (simp add: algebra_simps)
      then have "(uint (a - b) + uint (a - b)) mod 2 ^ 32 = 0"
        using uint_word_ariths(1) [of "a - b" "a - b"] by simp
      moreover have "0 < uint (a - b)" "uint (a - b) \<le> 65535"
        using dist lt assms \<open>wrappedDist a b = a - b\<close> by auto
      ultimately show False by simp
    qed
    ultimately show ?thesis using lt by (simp add: wrappedCompare_def)
  qed
  with dist show ?thesis by simp
qed

theorem wrappedCompare_correct_witness:
  "uint (wrappedDist 1000 (5 :: u32)) = 995 \<and> wrappedCompare 1000 5 = 1"
  using wrappedCompare_correct [of 1000 5] by simp

text \<open>
  Across the wrap, and beyond 65,535, it is not: ten bytes from \<open>2^32 - 5\<close> to 5 are
  measured as 65,535, and a number 100,000 below another is reported as the greater one.
\<close>

lemma wrappedDist_at_wrap: "wrappedDist 5 (-5) = 65535" "wrappedCompare (-5) 5 = 1"
  by (simp_all add: wrappedDist_def wrappedCompare_def tcbSize_def)

lemma wrappedCompare_far: "wrappedCompare 0 100000 = 1"
  by (simp add: wrappedDist_def wrappedCompare_def tcbSize_def)

end
