(* ===== verification/RtoQueue.thy ===== *)
theory RtoQueue
  imports Tcb
begin

text \<open>
  \<^verbatim>\<open>pkg/protocol/retransmitQueue.go\<close>: the queue of unacknowledged segments.
  \<^verbatim>\<open>Push\<close> appends at the end of the slice and \<^verbatim>\<open>Pop\<close> and \<^verbatim>\<open>Peek\<close> take from
  the end too, so it is last-in first-out.  The lemmas say what \<^verbatim>\<open>Cleanup\<close> removes.
  A \<^verbatim>\<open>time.Time\<close> is a number of milliseconds.
\<close>

record rtoEntry =
  eSeqNum :: u32
  eFlags :: u8
  ePayload :: "byte list"
  eStart :: int

type_synonym rtoQueue = "rtoEntry list"

definition Len :: "rtoQueue \<Rightarrow> nat" where
  "Len h = length h"

text \<open>\<open>None\<close> is the panic of an index out of range.\<close>

definition Less :: "rtoQueue \<Rightarrow> nat \<Rightarrow> nat \<Rightarrow> bool option" where
  "Less h i j =
     (if i < length h \<and> j < length h
      then let entry1 = h ! i; entry2 = h ! j
           in if eSeqNum entry1 - eSeqNum entry2 > ucast tcbSize then Some False
              else if eSeqNum entry1 < eSeqNum entry2 then Some True
              else Some True
      else None)"

definition Swap :: "rtoQueue \<Rightarrow> nat \<Rightarrow> nat \<Rightarrow> rtoQueue option" where
  "Swap h i j =
     (if i < length h \<and> j < length h then Some (h[i := h ! j, j := h ! i]) else None)"

definition Push :: "rtoEntry \<Rightarrow> rtoQueue \<Rightarrow> rtoQueue" where
  "Push x h = h @ [x]"

definition Pop :: "rtoQueue \<Rightarrow> rtoQueue \<times> rtoEntry option" where
  "Pop h =
     (if Len h \<le> 0 then (h, None)
      else let n = length h in (take (n - 1) h, Some (h ! (n - 1))))"

definition Peek :: "rtoQueue \<Rightarrow> rtoEntry option" where
  "Peek h = (if Len h > 0 then Some (h ! (Len h - 1)) else None)"

definition Items :: "rtoQueue \<Rightarrow> rtoEntry list" where
  "Items h = h"

lemma Pop_length: "Pop h = (h', Some x) \<Longrightarrow> length h' < length h"
  by (auto simp: Pop_def Len_def Let_def split: if_splits)

text \<open>The loop of \<^verbatim>\<open>Cleanup\<close>; \<open>una\<close> is \<^verbatim>\<open>tcb.wrapFromIss(tcb.sendUna)\<close>.\<close>

function Cleanup_loop :: "u32 \<Rightarrow> rtoQueue \<Rightarrow> rtoEntry list \<Rightarrow> rtoQueue \<times> rtoEntry list" where
  "Cleanup_loop una h popped =
     (case Peek h of
        None \<Rightarrow> (h, popped)
      | Some cur \<Rightarrow>
          if wrappedCompare (eSeqNum cur) una \<ge> 0 then (h, popped)
          else (case Pop h of
                  (h', Some x) \<Rightarrow> Cleanup_loop una h' (popped @ [x])
                | (h', None) \<Rightarrow> (h', popped)))"
  by pat_completeness auto
termination
  by (relation "measure (\<lambda>(una, h, popped). length h)") (auto dest: Pop_length [OF sym])

definition Cleanup :: "TCB \<Rightarrow> rtoQueue \<Rightarrow> rtoQueue \<times> rtoEntry list" where
  "Cleanup t h = Cleanup_loop (wrapFromIss t (sendUna t)) h []"

declare Cleanup_loop.simps [simp del]

section \<open>What the operations do\<close>

lemma Peek_Nil [simp]: "Peek [] = None"
  by (simp add: Peek_def Len_def)

lemma Peek_snoc [simp]: "Peek (h @ [x]) = Some x"
  by (simp add: Peek_def Len_def)

lemma Pop_snoc [simp]: "Pop (h @ [x]) = (h, Some x)"
  by (simp add: Pop_def Len_def Let_def)

text \<open>An entry that the cumulative acknowledgment covers, as the code decides it.\<close>

definition acked :: "u32 \<Rightarrow> rtoEntry \<Rightarrow> bool" where
  "acked una e \<longleftrightarrow> wrappedCompare (eSeqNum e) una < 0"

lemma Cleanup_loop_Nil [simp]: "Cleanup_loop una [] popped = ([], popped)"
  by (subst Cleanup_loop.simps) simp

lemma Cleanup_loop_snoc [simp]:
  "Cleanup_loop una (h @ [x]) popped =
     (if acked una x then Cleanup_loop una h (popped @ [x]) else (h @ [x], popped))"
  by (subst Cleanup_loop.simps) (simp add: acked_def not_less)

lemma Cleanup_loop_eq:
  "Cleanup_loop una h popped =
     (rev (dropWhile (acked una) (rev h)), popped @ takeWhile (acked una) (rev h))"
proof (induction h arbitrary: popped rule: rev_induct)
  case Nil
  show ?case by simp
next
  case (snoc x h)
  then show ?case by simp
qed

lemma Cleanup_eq:
  "Cleanup t h =
     (let una = wrapFromIss t (sendUna t)
      in (rev (dropWhile (acked una) (rev h)), takeWhile (acked una) (rev h)))"
  by (simp add: Cleanup_def Cleanup_loop_eq Let_def)

text \<open>
  \<^verbatim>\<open>Cleanup\<close> only removes acknowledged segments and forgets nothing: what it
  pops, put back in reverse order behind what it keeps, is the old queue; every popped
  entry precedes \<^verbatim>\<open>SND.UNA\<close>; and the newest entry it keeps does not.
\<close>

theorem cleanup_sound:
  "case Cleanup t h of (h', popped) \<Rightarrow>
     h' @ rev popped = h \<and>
     list_all (\<lambda>e. wrappedCompare (eSeqNum e) (wrapFromIss t (sendUna t)) < 0) popped \<and>
     (case Peek h' of None \<Rightarrow> h' = []
      | Some e \<Rightarrow> wrappedCompare (eSeqNum e) (wrapFromIss t (sendUna t)) \<ge> 0)"
proof -
  let ?P = "acked (wrapFromIss t (sendUna t))"
  let ?kept = "rev (dropWhile ?P (rev h))"
  have whole: "?kept @ rev (takeWhile ?P (rev h)) = h"
    by (metis rev_append rev_rev_ident takeWhile_dropWhile_id)
  have popped: "list_all (\<lambda>e. wrappedCompare (eSeqNum e) (wrapFromIss t (sendUna t)) < 0)
      (takeWhile ?P (rev h))"
    by (auto simp: list_all_iff acked_def dest!: set_takeWhileD)
  have kept: "case Peek ?kept of None \<Rightarrow> ?kept = []
      | Some e \<Rightarrow> wrappedCompare (eSeqNum e) (wrapFromIss t (sendUna t)) \<ge> 0"
  proof (cases "dropWhile ?P (rev h)")
    case (Cons e es)
    then have "\<not> ?P e" by (metis hd_dropWhile list.discI list.sel(1))
    with Cons show ?thesis by (simp add: acked_def not_less)
  next
    case Nil
    then show ?thesis by (simp only: rev.simps Peek_Nil option.case)
  qed
  from whole popped kept show ?thesis
    by (simp only: Cleanup_eq Let_def prod.case)
qed



end
