(* ===== verification/Env.thy ===== *)
theory Env
  imports Netip
begin

text \<open>
  What the program calls and does not define: the IPv4 header codec of
  \<^verbatim>\<open>brown-csci1680/iptcp-headers\<close>, the Internet checksum and the TCP header codec
  of \<^verbatim>\<open>google/netstack\<close>, and the socket write of the operating system.  They are the
  fields of a record that every definition using them takes as an argument; nothing is
  assumed about them except by a named hypothesis of a theorem.  The two structures
  that cross this boundary are records with the fields the program reads and writes.
\<close>

record IPv4Header =
  ipVersion :: int
  ipLen :: int
  ipTOS :: int
  ipTotalLen :: int
  ipID :: int
  ipFlags :: int
  ipFragOff :: int
  ipTTL :: int
  ipProtocol :: int
  ipChecksum :: int
  ipSrc :: Addr
  ipDst :: Addr
  ipOptions :: "byte list"

record TCPFields =
  SrcPort :: u16
  DstPort :: u16
  SeqNum :: u32
  AckNum :: u32
  DataOffset :: u8
  Flags :: u8
  WindowSize :: u16
  TcpChecksum :: u16
  UrgentPointer :: u16

record env =
  hdrMarshal :: "IPv4Header \<Rightarrow> GoSlice option"
  hdrParse :: "byte list \<Rightarrow> IPv4Header option"
  checksum :: "byte list \<Rightarrow> u16 \<Rightarrow> u16"
  tcpAccess :: "byte list \<Rightarrow> TCPFields option"
  tcpEncode :: "TCPFields \<Rightarrow> byte list"
  udpWrite :: "string \<Rightarrow> AddrPort \<Rightarrow> byte list \<Rightarrow> int option"

text \<open>
  The constants the program takes from these packages: an IPv4 or TCP header without
  options has 20 bytes, the protocol number of TCP is 6, and the TCP control bits are
  those of RFC 9293, section 3.1 (\<^verbatim>\<open>src/rfc9293.txt\<close>).
\<close>

definition ipHeaderLen :: int where "ipHeaderLen = 20"
definition ipVersion4 :: int where "ipVersion4 = 4"
definition TcpHeaderLen :: nat where "TcpHeaderLen = 20"
definition TcpPseudoHeaderLen :: nat where "TcpPseudoHeaderLen = 12"
definition IpProtoTcp :: u8 where "IpProtoTcp = 6"

definition FIN :: u8 where "FIN = 1"
definition SYN :: u8 where "SYN = 2"
definition RST :: u8 where "RST = 4"
definition PSH :: u8 where "PSH = 8"
definition ACK :: u8 where "ACK = 16"
definition URG :: u8 where "URG = 32"

lemmas tcp_flag_defs = FIN_def SYN_def RST_def PSH_def ACK_def URG_def

text \<open>The test \<^verbatim>\<open>flags&F == F\<close>.\<close>

definition has_flag :: "u8 \<Rightarrow> u8 \<Rightarrow> bool" where
  "has_flag flags f \<longleftrightarrow> flags AND f = f"

end
