(* ===== verification/GoText.thy ===== *)
theory GoText
  imports Netip
begin

text \<open>
  The text functions of Go's library that the program calls: \<^verbatim>\<open>strings.Split\<close>,
  \<^verbatim>\<open>strconv\<close>, the parsers of \<^verbatim>\<open>net/netip\<close>, \<^verbatim>\<open>fmt.Fscanf\<close> with the verb
  \<^verbatim>\<open>%s\<close>, and the lines of a \<^verbatim>\<open>bufio.Scanner\<close>.  Text is a list of bytes; white space
  is that of ASCII.  A parser returns \<open>None\<close> where Go returns an error, whose message the
  program only prints.
\<close>

section \<open>Characters and decimal numbers\<close>

definition isSpace :: "char \<Rightarrow> bool" where
  "isSpace c \<longleftrightarrow> of_char c \<in> {9, 10, 11, 12, 13, 32 :: nat}"

definition isDigit :: "char \<Rightarrow> bool" where
  "isDigit c \<longleftrightarrow> 48 \<le> (of_char c :: nat) \<and> (of_char c :: nat) \<le> 57"

definition digit_val :: "char \<Rightarrow> nat" where
  "digit_val c = of_char c - 48"

definition digit_char :: "nat \<Rightarrow> char" where
  "digit_char d = char_of (48 + d)"

definition dec_val :: "string \<Rightarrow> nat" where
  "dec_val s = foldl (\<lambda>v c. v * 10 + digit_val c) 0 s"

definition dec_nat :: "string \<Rightarrow> nat option" where
  "dec_nat s = (if s \<noteq> [] \<and> list_all isDigit s then Some (dec_val s) else None)"

text \<open>An \<^verbatim>\<open>int\<close> has 64 bits.\<close>

definition Atoi :: "string \<Rightarrow> int option" where
  "Atoi s =
     (let neg = (s \<noteq> [] \<and> hd s = CHR ''-'');
          s = (if s \<noteq> [] \<and> (hd s = CHR ''-'' \<or> hd s = CHR ''+'') then tl s else s)
      in case dec_nat s of
           None \<Rightarrow> None
         | Some n \<Rightarrow>
             let i = (if neg then - int n else int n)
             in if - (2 ^ 63) \<le> i \<and> i < 2 ^ 63 then Some i else None)"

definition ParseUint16 :: "string \<Rightarrow> u16 option" where
  "ParseUint16 s =
     (case dec_nat s of
        None \<Rightarrow> None
      | Some n \<Rightarrow> if n < 65536 then Some (of_nat n) else None)"

fun show_nat :: "nat \<Rightarrow> string" where
  "show_nat n = (if n < 10 then [digit_char n] else show_nat (n div 10) @ [digit_char (n mod 10)])"

declare show_nat.simps [simp del]

lemma digit_char [simp]: "d < 10 \<Longrightarrow> isDigit (digit_char d)" "d < 10 \<Longrightarrow> digit_val (digit_char d) = d"
  by (simp_all add: isDigit_def digit_val_def digit_char_def)

lemma show_nat_digits: "list_all isDigit (show_nat n)"
  by (induction n rule: show_nat.induct) (subst show_nat.simps, simp)

lemma show_nat_not_Nil [simp]: "show_nat n \<noteq> []"
  by (subst show_nat.simps) simp

lemma dec_val_show [simp]: "dec_val (show_nat n) = n"
proof (induction n rule: show_nat.induct)
  case (1 n)
  then show ?case
    by (subst show_nat.simps) (simp add: dec_val_def)
qed

lemma dec_nat_show [simp]: "dec_nat (show_nat n) = Some n"
  by (simp add: dec_nat_def show_nat_digits)

lemma show_nat_hd: "n \<noteq> 0 \<Longrightarrow> hd (show_nat n) \<noteq> CHR ''0''"
proof (induction n rule: show_nat.induct)
  case (1 n)
  show ?case
  proof (cases "n < 10")
    case True
    have "digit_val (CHR ''0'') = 0" by (simp add: digit_val_def)
    with "1.prems" digit_char(2) [OF True] have "digit_char n \<noteq> CHR ''0''" by metis
    with True show ?thesis by (subst show_nat.simps) simp
  next
    case False
    with 1 show ?thesis by (subst show_nat.simps) simp
  qed
qed

lemma isDigit_ne: "isDigit c \<Longrightarrow> c \<notin> {CHR ''-'', CHR ''+'', CHR ''.'', CHR ''/'', CHR '':'', CHR '' '', CHR ''%''}"
  by (auto simp: isDigit_def)

lemma digits_no:
  "list_all isDigit s \<Longrightarrow> \<not> isDigit c \<Longrightarrow> c \<notin> set s"
  by (auto simp: list_all_iff)

lemma Atoi_show: "n < 2 ^ 63 \<Longrightarrow> Atoi (show_nat n) = Some (int n)"
proof -
  assume n: "n < 2 ^ 63"
  have "isDigit (hd (show_nat n))"
    using show_nat_digits [of n] by (cases "show_nat n") simp_all
  then have "hd (show_nat n) \<noteq> CHR ''-''" "hd (show_nat n) \<noteq> CHR ''+''"
    using isDigit_ne by blast+
  moreover from n have "int n < 2 ^ 63" by simp
  ultimately show ?thesis by (simp add: Atoi_def Let_def)
qed

lemma ParseUint16_show: "ParseUint16 (show_nat (unat p)) = Some p"
  using unat_u16_bound [of p] by (simp add: ParseUint16_def)

section \<open>Splitting\<close>

text \<open>\<^verbatim>\<open>strings.Split\<close> with a separator of one character.\<close>

fun split_on :: "char \<Rightarrow> string \<Rightarrow> string list" where
  "split_on c [] = [[]]"
| "split_on c (x # xs) =
     (if x = c then [] # split_on c xs
      else (case split_on c xs of [] \<Rightarrow> [[x]] | t # ts \<Rightarrow> (x # t) # ts))"

text \<open>Around the last occurrence of a character, as \<^verbatim>\<open>LastIndexByteString\<close> finds it.\<close>

fun split_last :: "char \<Rightarrow> string \<Rightarrow> (string \<times> string) option" where
  "split_last c [] = None"
| "split_last c (x # xs) =
     (case split_last c xs of
        Some (a, b) \<Rightarrow> Some (x # a, b)
      | None \<Rightarrow> if x = c then Some ([], xs) else None)"

lemma split_on_not_Nil [simp]: "split_on c s \<noteq> []"
  by (induction s) (auto split: list.splits)

lemma split_on_token: "c \<notin> set t \<Longrightarrow> split_on c t = [t]"
  by (induction t) auto

lemma split_on_append: "c \<notin> set t \<Longrightarrow> split_on c (t @ c # s) = t # split_on c s"
  by (induction t) auto

lemma split_on_concat: "concat (map (\<lambda>t. t @ [c]) (split_on c s)) = s @ [c]"
  by (induction s) (auto split: list.splits)

lemma split_on_no_sep: "t \<in> set (split_on c s) \<Longrightarrow> c \<notin> set t"
proof (induction s arbitrary: t)
  case Nil
  then show ?case by simp
next
  case (Cons x s)
  then show ?case
    by (cases "split_on c s") (auto split: if_splits)
qed

lemma split_last_None: "c \<notin> set s \<Longrightarrow> split_last c s = None"
  by (induction s) auto

lemma split_last_append: "c \<notin> set b \<Longrightarrow> split_last c (a @ c # b) = Some (a, b)"
  by (induction a) (auto simp: split_last_None)

section \<open>Addresses, prefixes and address/port pairs\<close>

text \<open>\<^verbatim>\<open>parseIPv4\<close>: the octet so far with its number of digits, and the octets before it.\<close>

fun v4_loop :: "string \<Rightarrow> nat \<Rightarrow> nat \<Rightarrow> nat list \<Rightarrow> nat list option" where
  "v4_loop [] val digLen octets = (if length octets < 3 then None else Some (octets @ [val]))"
| "v4_loop (c # cs) val digLen octets =
     (if isDigit c
      then if digLen = 1 \<and> val = 0 then None
           else let val = val * 10 + digit_val c
                in if val > 255 then None else v4_loop cs val (Suc digLen) octets
      else if c = CHR ''.''
      then if digLen = 0 \<or> cs = [] then None
           else if length octets = 3 then None
           else v4_loop cs 0 0 (octets @ [val])
      else None)"

definition parseIPv4 :: "string \<Rightarrow> nat list option" where
  "parseIPv4 s = v4_loop s 0 0 []"

definition word_of_fields :: "nat list \<Rightarrow> 'a::len word" where
  "word_of_fields fs = foldl (\<lambda>w f. w * 256 + of_nat f) 0 fs"

fun hex_val :: "char \<Rightarrow> nat option" where
  "hex_val c =
     (let n = of_char c
      in if 48 \<le> n \<and> n \<le> 57 then Some (n - 48)
         else if 97 \<le> n \<and> n \<le> 102 then Some (n - 97 + 10)
         else if 65 \<le> n \<and> n \<le> 70 then Some (n - 65 + 10)
         else None)"

definition is_hex :: "char \<Rightarrow> bool" where
  "is_hex c \<longleftrightarrow> hex_val c \<noteq> None"

definition hex_group :: "string \<Rightarrow> nat list" where
  "hex_group ds =
     (let v = foldl (\<lambda>v c. v * 16 + (case hex_val c of Some d \<Rightarrow> d | None \<Rightarrow> 0)) 0 ds
      in [v div 256, v mod 256])"

text \<open>
  The loop of \<^verbatim>\<open>parseIPv6\<close>: the groups it may still read, the text, the bytes so far and
  the position of the ellipsis.
\<close>

fun v6_loop :: "nat \<Rightarrow> string \<Rightarrow> nat list \<Rightarrow> nat option \<Rightarrow> (string \<times> nat list \<times> nat option) option" where
  "v6_loop 0 s ip ellipsis = Some (s, ip, ellipsis)"
| "v6_loop (Suc k) s ip ellipsis =
     (let ds = takeWhile is_hex s;
          rest = dropWhile is_hex s
      in if ds = [] \<or> length ds > 4 then None
         else if rest \<noteq> [] \<and> hd rest = CHR ''.''
         then if (ellipsis = None \<and> length ip \<noteq> 12) \<or> length ip + 4 > 16 then None
              else map_option (\<lambda>fs. ([], ip @ fs, ellipsis)) (parseIPv4 s)
         else
           let ip = ip @ hex_group ds
           in if rest = [] then Some ([], ip, ellipsis)
              else if hd rest \<noteq> CHR '':'' \<or> tl rest = [] then None
              else if hd (tl rest) = CHR '':''
              then if ellipsis \<noteq> None then None
                   else if tl (tl rest) = [] then Some ([], ip, Some (length ip))
                   else v6_loop k (tl (tl rest)) ip (Some (length ip))
              else v6_loop k (tl rest) ip ellipsis)"

definition v6_finish :: "string \<times> nat list \<times> nat option \<Rightarrow> nat list option" where
  "v6_finish r =
     (case r of (s, ip, ellipsis) \<Rightarrow>
        if s \<noteq> [] then None
        else if length ip < 16
        then (case ellipsis of
                None \<Rightarrow> None
              | Some e \<Rightarrow> Some (take e ip @ replicate (16 - length ip) 0 @ drop e ip))
        else if ellipsis \<noteq> None then None else Some ip)"

definition parseIPv6 :: "string \<Rightarrow> Addr option" where
  "parseIPv6 s =
     (let body = takeWhile (\<lambda>c. c \<noteq> CHR ''%'') s;
          zoned = (body \<noteq> s);
          zone = drop (Suc (length body)) s
      in if zoned \<and> zone = [] then None
         else if take 2 body = ''::''
         then if drop 2 body = [] then Some (V6 0 zone)
              else map_option (\<lambda>fs. V6 (word_of_fields fs) zone)
                     (Option.bind (v6_loop 8 (drop 2 body) [] (Some 0)) v6_finish)
         else map_option (\<lambda>fs. V6 (word_of_fields fs) zone)
                (Option.bind (v6_loop 8 body [] None) v6_finish))"

text \<open>The first dot, colon or percent sign decides.\<close>

definition ParseAddr :: "string \<Rightarrow> Addr option" where
  "ParseAddr s =
     (case List.find (\<lambda>c. c \<in> {CHR ''.'', CHR '':'', CHR ''%''}) s of
        None \<Rightarrow> None
      | Some c \<Rightarrow>
          if c = CHR ''.'' then map_option (\<lambda>fs. V4 (word_of_fields fs)) (parseIPv4 s)
          else if c = CHR '':'' then parseIPv6 s
          else None)"

definition ParsePrefix :: "string \<Rightarrow> Prefix option" where
  "ParsePrefix s =
     (case split_last CHR ''/'' s of
        None \<Rightarrow> None
      | Some (a, bitsStr) \<Rightarrow>
          (case ParseAddr a of
             None \<Rightarrow> None
           | Some ip \<Rightarrow>
               if hasZone ip then None
               else if length bitsStr > 1 \<and> \<not> (isDigit (hd bitsStr) \<and> hd bitsStr \<noteq> CHR ''0'') then None
               else (case Atoi bitsStr of
                       None \<Rightarrow> None
                     | Some bits \<Rightarrow>
                         if bits < 0 \<or> bits > BitLen ip then None else Some (PrefixFrom ip bits))))"

definition ParseAddrPort :: "string \<Rightarrow> AddrPort option" where
  "ParseAddrPort s =
     (case split_last CHR '':'' s of
        None \<Rightarrow> None
      | Some (ip, port) \<Rightarrow>
          if ip = [] \<or> port = [] then None
          else
            let v6 = (hd ip = CHR ''['')
            in if v6 \<and> (length ip < 2 \<or> last ip \<noteq> CHR '']'') then None
               else (case (ParseUint16 port, ParseAddr (if v6 then butlast (tl ip) else ip)) of
                       (Some p, Some a) \<Rightarrow>
                         if v6 = (BitLen a = 128) then Some (AddrPortFrom a p) else None
                     | _ \<Rightarrow> None))"

lemma ParsePrefix_valid: "ParsePrefix s = Some p \<Longrightarrow> Prefix_IsValid p \<and> \<not> hasZone (pfxAddr p)"
proof -
  assume "ParsePrefix s = Some p"
  then obtain ip b where p: "p = PrefixFrom ip b" and ip: "\<not> hasZone ip" "0 \<le> b" "b \<le> BitLen ip"
    and v: "ip \<noteq> NoAddr"
    by (auto simp: ParsePrefix_def ParseAddr_def parseIPv6_def Let_def split: option.splits if_splits)
  then show ?thesis
    by (cases ip) (auto simp: PrefixFrom_def Prefix_IsValid_def)
qed

section \<open>Scanning\<close>

text \<open>
  \<^verbatim>\<open>Fscanf\<close> with operands of type \<^verbatim>\<open>*string\<close>: a space in the format wants white space
  or the end of the input; \<^verbatim>\<open>%s\<close> skips white space and takes a word, which must not be
  empty; any other character must match.  Input behind the last verb is not looked at.
\<close>

fun Fscanf :: "string \<Rightarrow> string \<Rightarrow> string list option" where
  "Fscanf [] inp = Some []"
| "Fscanf (f # fs) inp =
     (if f = CHR '' ''
      then if inp \<noteq> [] \<and> \<not> isSpace (hd inp) then None else Fscanf fs (dropWhile isSpace inp)
      else if f = CHR ''%''
      then let inp = dropWhile isSpace inp
           in if inp = [] then None
              else map_option (\<lambda>ws. takeWhile (\<lambda>c. \<not> isSpace c) inp # ws)
                     (Fscanf (tl fs) (dropWhile (\<lambda>c. \<not> isSpace c) inp))
      else if inp \<noteq> [] \<and> hd inp = f then Fscanf fs (tl inp) else None)"

text \<open>
  The lines a \<^verbatim>\<open>Scanner\<close> delivers: without the line feed and one carriage return before
  it; a last line that is empty does not count; a line that does not fit the buffer of
  65,536 bytes ends the scan.
\<close>

definition drop_cr :: "string \<Rightarrow> string" where
  "drop_cr l = (if l \<noteq> [] \<and> last l = CHR 0x0D then butlast l else l)"

definition scan_lines :: "string \<Rightarrow> string list" where
  "scan_lines file =
     (let ls = split_on CHR 0x0A file;
          ls = (if last ls = [] then butlast ls else ls)
      in map drop_cr (takeWhile (\<lambda>l. length l < 65536) ls))"

section \<open>Printing an IPv4 address, and reading it back\<close>

text \<open>\<^verbatim>\<open>String\<close> of an IPv4 address, of a prefix and of an address/port pair with one.\<close>

definition show_v4 :: "u32 \<Rightarrow> string" where
  "show_v4 w =
     (let n = unat w
      in show_nat (n div 16777216) @ ''.'' @ show_nat (n div 65536 mod 256) @ ''.'' @
         show_nat (n div 256 mod 256) @ ''.'' @ show_nat (n mod 256))"

definition show_prefix4 :: "u32 \<Rightarrow> nat \<Rightarrow> string" where
  "show_prefix4 w bits = show_v4 w @ ''/'' @ show_nat bits"

definition show_addrport4 :: "u32 \<Rightarrow> u16 \<Rightarrow> string" where
  "show_addrport4 w p = show_v4 w @ '':'' @ show_nat (unat p)"

lemma v4_loop_octet:
  "n < 256 \<Longrightarrow> v4_loop (show_nat n @ rest) 0 0 os = v4_loop rest n (length (show_nat n)) os"
proof (induction n arbitrary: rest rule: show_nat.induct)
  case (1 n)
  show ?case
  proof (cases "n < 10")
    case True
    then show ?thesis by (subst (1 2) show_nat.simps) simp
  next
    case False
    with "1.prems" have "n div 10 \<noteq> 0" "n div 10 * 10 + n mod 10 = n" by simp_all
    with 1 False show ?thesis by (subst (1 2) show_nat.simps) simp
  qed
qed

lemma v4_loop_dot:
  "n < 256 \<Longrightarrow> rest \<noteq> [] \<Longrightarrow> length os < 3 \<Longrightarrow>
   v4_loop (show_nat n @ CHR ''.'' # rest) 0 0 os = v4_loop rest 0 0 (os @ [n])"
  by (subst v4_loop_octet) (simp_all add: isDigit_def)

lemma parseIPv4_show:
  "parseIPv4 (show_v4 w) =
     Some [unat w div 16777216, unat w div 65536 mod 256, unat w div 256 mod 256, unat w mod 256]"
proof -
  let ?a = "unat w div 16777216" and ?b = "unat w div 65536 mod 256" and ?c = "unat w div 256 mod 256"
    and ?d = "unat w mod 256"
  have a: "?a < 256" using unat_u32_bound [of w] by simp
  have d: "v4_loop (show_nat ?d) 0 0 [?a, ?b, ?c] = Some [?a, ?b, ?c, ?d]"
    using v4_loop_octet [of ?d "[]" "[?a, ?b, ?c]"] by simp
  show ?thesis
    unfolding parseIPv4_def show_v4_def Let_def append_Cons append_Nil
    by (subst v4_loop_dot, use a in simp, simp, simp)+ (simp add: d)
qed

lemma word_of_octets:
  "word_of_fields [unat w div 16777216, unat w div 65536 mod 256, unat w div 256 mod 256, unat w mod 256] = (w :: u32)"
proof -
  let ?n = "unat w"
  have e: "?n div 256 div 256 = ?n div 65536" "?n div 65536 div 256 = ?n div 16777216"
    by (simp_all add: div_mult2_eq [symmetric])
  have "((?n div 16777216 * 256 + ?n div 65536 mod 256) * 256 + ?n div 256 mod 256) * 256 + ?n mod 256 = ?n"
    using e div_mult_mod_eq [of ?n 256] div_mult_mod_eq [of "?n div 256" 256]
      div_mult_mod_eq [of "?n div 65536" 256] by presburger
  then have "of_nat (((?n div 16777216 * 256 + ?n div 65536 mod 256) * 256 + ?n div 256 mod 256) * 256 + ?n mod 256) = w"
    by simp
  then show ?thesis
    by (simp only: word_of_fields_def foldl_Cons foldl_Nil mult_zero_left add_0 of_nat_add of_nat_mult of_nat_numeral)
qed

lemma find_append: "\<forall>x \<in> set xs. \<not> P x \<Longrightarrow> List.find P (xs @ y # ys) = (if P y then Some y else List.find P ys)"
  by (induction xs) auto

lemma ParseAddr_show [simp]: "ParseAddr (show_v4 w) = Some (V4 w)"
proof -
  have "List.find (\<lambda>c. c \<in> {CHR ''.'', CHR '':'', CHR ''%''}) (show_v4 w) = Some (CHR ''.'')"
    unfolding show_v4_def Let_def append_Cons append_Nil
    using show_nat_digits [of "unat w div 16777216"] isDigit_ne
    by (subst find_append) (auto simp: list_all_iff)
  then show ?thesis
    by (simp add: ParseAddr_def parseIPv4_show word_of_octets)
qed

lemma show_v4_not_Nil [simp]: "show_v4 w \<noteq> []"
  by (simp add: show_v4_def Let_def)

lemma show_v4_chars: "c \<in> set (show_v4 w) \<Longrightarrow> isDigit c \<or> c = CHR ''.''"
  using show_nat_digits by (auto simp: show_v4_def Let_def list_all_iff)

lemma ParsePrefix_show [simp]:
  assumes "bits \<le> 32"
  shows "ParsePrefix (show_prefix4 w bits) = Some \<lparr>pfxAddr = V4 w, pfxBits = int bits\<rparr>"
proof -
  have "CHR ''/'' \<notin> set (show_nat bits)"
    using digits_no [OF show_nat_digits] by (simp add: isDigit_def)
  moreover have "isDigit (hd (show_nat bits))"
    using show_nat_digits [of bits] by (cases "show_nat bits") simp_all
  moreover have "length (show_nat bits) > 1 \<Longrightarrow> hd (show_nat bits) \<noteq> CHR ''0''"
    using show_nat_hd [of bits] by (cases "bits = 0") (simp_all add: show_nat.simps)
  moreover have "Atoi (show_nat bits) = Some (int bits)"
    using assms by (intro Atoi_show) simp
  ultimately show ?thesis
    using assms by (simp add: ParsePrefix_def show_prefix4_def split_last_append PrefixFrom_def)
qed

lemma ParseAddrPort_show [simp]: "ParseAddrPort (show_addrport4 w p) = Some (AddrPortFrom (V4 w) p)"
proof -
  have "CHR '':'' \<notin> set (show_nat (unat p))"
    using digits_no [OF show_nat_digits] by (simp add: isDigit_def)
  moreover have "hd (show_v4 w) \<noteq> CHR ''[''"
    using show_v4_chars [of "hd (show_v4 w)" w] by (auto simp: isDigit_def)
  ultimately show ?thesis
    by (simp add: ParseAddrPort_def show_addrport4_def split_last_append ParseUint16_show)
qed

text \<open>Words for the scanner: not empty, no white space.\<close>

definition is_word :: "string \<Rightarrow> bool" where
  "is_word s \<longleftrightarrow> s \<noteq> [] \<and> list_all (\<lambda>c. \<not> isSpace c) s"

lemma is_word_append: "is_word s \<Longrightarrow> is_word t \<Longrightarrow> is_word (s @ t)"
  by (simp add: is_word_def)

lemma is_word_nat [simp]: "is_word (show_nat n)"
proof -
  have "isDigit c \<Longrightarrow> \<not> isSpace c" for c by (auto simp: isDigit_def isSpace_def)
  then show ?thesis using show_nat_digits [of n] by (auto simp: is_word_def list_all_iff)
qed

lemma is_word_v4 [simp]: "is_word (show_v4 w)"
  unfolding show_v4_def Let_def by (intro is_word_append is_word_nat) (simp_all add: is_word_def isSpace_def)

lemma is_word_prefix4 [simp]: "is_word (show_prefix4 w bits)"
  unfolding show_prefix4_def by (intro is_word_append is_word_nat is_word_v4) (simp add: is_word_def isSpace_def)

lemma is_word_addrport4 [simp]: "is_word (show_addrport4 w p)"
  unfolding show_addrport4_def by (intro is_word_append is_word_nat is_word_v4) (simp add: is_word_def isSpace_def)

lemma word_span:
  assumes "is_word s" "rest = [] \<or> isSpace (hd rest)"
  shows "dropWhile isSpace (s @ rest) = s @ rest"
    "takeWhile (\<lambda>c. \<not> isSpace c) (s @ rest) = s"
    "dropWhile (\<lambda>c. \<not> isSpace c) (s @ rest) = rest"
  using assms by (cases rest;
    auto simp: is_word_def list_all_iff dropWhile_append takeWhile_append hd_append dropWhile_eq_self_iff)+

lemma Fscanf_word:
  "is_word s \<Longrightarrow> rest = [] \<or> isSpace (hd rest) \<Longrightarrow>
   Fscanf (CHR ''%'' # CHR ''s'' # fs) (s @ rest) = map_option ((#) s) (Fscanf fs rest)"
  by (simp add: word_span Let_def) (simp add: is_word_def)

lemma Fscanf_space: "Fscanf (CHR '' '' # fs) (CHR '' '' # inp) = Fscanf fs (dropWhile isSpace inp)"
  by (simp add: isSpace_def)

lemma Fscanf_literal: "f \<noteq> CHR '' '' \<Longrightarrow> f \<noteq> CHR ''%'' \<Longrightarrow> Fscanf (f # fs) (f # inp) = Fscanf fs inp"
  by simp

lemma Fscanf_word_last: "is_word s \<Longrightarrow> Fscanf ''%s'' s = Some [s]"
  using Fscanf_word [of s "[]" "[]"] by simp

text \<open>A scan that succeeds has stored a word for every verb.\<close>

fun verbs :: "string \<Rightarrow> nat" where
  "verbs [] = 0"
| "verbs (f # fs) = (if f = CHR ''%'' then Suc (verbs (tl fs)) else verbs fs)"

lemma Fscanf_length: "Fscanf fmt inp = Some ws \<Longrightarrow> length ws = verbs fmt"
  by (induction fmt inp arbitrary: ws rule: Fscanf.induct) (auto simp: Let_def split: if_splits)

lemma Fscanf_words: "Fscanf fmt inp = Some ws \<Longrightarrow> list_all is_word ws"
proof (induction fmt inp arbitrary: ws rule: Fscanf.induct)
  case (2 f fs inp)
  have w: "is_word (takeWhile (\<lambda>c. \<not> isSpace c) inp)" if "inp \<noteq> []" "\<not> isSpace (hd inp)" for inp
    using that by (cases inp) (auto simp: is_word_def list_all_iff dest: set_takeWhileD)
  have h: "dropWhile isSpace inp \<noteq> [] \<Longrightarrow> \<not> isSpace (hd (dropWhile isSpace inp))"
    by (rule hd_dropWhile)
  show ?case using 2 w [OF _ h] by (auto simp: Let_def split: if_splits)
qed simp

declare Fscanf.simps [simp del]

end
