(* ===== verification/TcpHeader.thy ===== *)
theory TcpHeader
  imports Env GoText
begin

text \<open>
  \<^verbatim>\<open>pkg/tcp-headers/tcpheader.go\<close>: reading a TCP header, the checksum over the
  pseudo-header, and the printing of flags.  The codec and the checksum primitive are the
  third-party functions of the environment.
\<close>

record TcpPacket =
  TcpHdr :: TCPFields
  Payload :: "byte list"

text \<open>The accessors of \<^verbatim>\<open>header.TCP\<close> panic on a short slice; the urgent pointer is not read.\<close>

definition ParseTCPHeader :: "env \<Rightarrow> byte list \<Rightarrow> TCPFields option" where
  "ParseTCPHeader E b = map_option (\<lambda>f. f\<lparr>UrgentPointer := 0\<rparr>) (tcpAccess E b)"

text \<open>\<^verbatim>\<open>Addr.AsSlice\<close>: nil for the zero address, 4 or 16 bytes otherwise.\<close>

fun AsSlice :: "Addr \<Rightarrow> byte list" where
  "AsSlice NoAddr = []"
| "AsSlice (V4 a) = AppendUint32 [] a"
| "AsSlice (V6 a _) =
     AppendUint32 [] (ucast (drop_bit 96 a)) @ AppendUint32 [] (ucast (drop_bit 64 a)) @
     AppendUint32 [] (ucast (drop_bit 32 a)) @ AppendUint32 [] (ucast a)"

text \<open>\<^verbatim>\<open>copy(dst[lo:lo+4], src)\<close> into a zeroed array copies at most four bytes.\<close>

definition copy4 :: "byte list \<Rightarrow> byte list" where
  "copy4 bs = take 4 bs @ replicate (4 - length bs) 0"

definition pseudoHeader :: "Addr \<Rightarrow> Addr \<Rightarrow> byte list \<Rightarrow> byte list" where
  "pseudoHeader sourceIP destIP payload =
     copy4 (AsSlice sourceIP) @ copy4 (AsSlice destIP) @ [0, IpProtoTcp] @
     AppendUint16 [] (of_nat (TcpHeaderLen + length payload))"

definition ComputeTCPChecksum :: "env \<Rightarrow> TCPFields \<Rightarrow> Addr \<Rightarrow> Addr \<Rightarrow> byte list \<Rightarrow> u16" where
  "ComputeTCPChecksum E tcpHdr sourceIP destIP payload =
     (let headerBytes = tcpEncode E tcpHdr;
          pseudoHeaderChecksum = checksum E (pseudoHeader sourceIP destIP payload) 0;
          headerChecksum = checksum E headerBytes pseudoHeaderChecksum;
          fullChecksum = checksum E payload headerChecksum
      in fullChecksum XOR 0xffff)"

lemma length_copy4 [simp]: "length (copy4 bs) = 4"
  by (simp add: copy4_def)

lemma length_pseudoHeader: "length (pseudoHeader s d p) = TcpPseudoHeaderLen"
  by (simp add: pseudoHeader_def TcpPseudoHeaderLen_def)

section \<open>Printing flags\<close>

text \<open>The map literal of the source; a \<^verbatim>\<open>range\<close> over it may use any order.\<close>

definition flagNames :: "(u8 \<times> string) list" where
  "flagNames = [(ACK, ''ACK''), (FIN, ''FIN''), (PSH, ''PSH''), (RST, ''RST''), (SYN, ''SYN''), (URG, ''URG'')]"

fun Join :: "string list \<Rightarrow> string \<Rightarrow> string" where
  "Join [] sep = []"
| "Join [s] sep = s"
| "Join (s # ss) sep = s @ sep @ Join ss sep"

text \<open>\<open>strMap\<close> is the order in which the range of this call walks \<^const>\<open>flagNames\<close>.\<close>

definition TCPFlagsAsString :: "(u8 \<times> string) list \<Rightarrow> u8 \<Rightarrow> string" where
  "TCPFlagsAsString strMap flags =
     Join (map snd (filter (\<lambda>(b, str). b AND flags = b) strMap)) ''+''"

text \<open>\<^verbatim>\<open>%x\<close> of an unsigned number.\<close>

definition hex_char :: "nat \<Rightarrow> char" where
  "hex_char d = (if d < 10 then digit_char d else char_of (87 + d))"

fun show_hex :: "nat \<Rightarrow> string" where
  "show_hex n = (if n < 16 then [hex_char n] else show_hex (n div 16) @ [hex_char (n mod 16)])"

declare show_hex.simps [simp del]

definition TCPFieldsToString :: "(u8 \<times> string) list \<Rightarrow> TCPFields \<Rightarrow> string" where
  "TCPFieldsToString strMap hdr =
     ''{SrcPort:'' @ show_nat (unat (SrcPort hdr)) @ '' DstPort:'' @ show_nat (unat (DstPort hdr)) @
     '', SeqNum:'' @ show_nat (unat (SeqNum hdr)) @ '' AckNum:'' @ show_nat (unat (AckNum hdr)) @
     '' DataOffset:'' @ show_nat (unat (DataOffset hdr)) @ '' Flags:'' @ TCPFlagsAsString strMap (Flags hdr) @
     '' WindowSize:'' @ show_nat (unat (WindowSize hdr)) @ '' Checksum:'' @ show_hex (unat (TcpChecksum hdr)) @
     '' UrgentPointer:'' @ show_nat (unat (UrgentPointer hdr)) @ ''}''"

end
