(* ===== verification/LnxConfig.thy ===== *)
theory LnxConfig
  imports Netip
begin

text \<open>
  \<^verbatim>\<open>pkg/lnxconfig/lnxconfig.go\<close>: the structures a configuration file is read into.
\<close>

datatype RoutingMode = RoutingTypeNone | RoutingTypeStatic | RoutingTypeRIP

record InterfaceConfig =
  icName :: string
  AssignedIP :: Addr
  AssignedPrefix :: Prefix
  icUDPAddr :: AddrPort

record NeighborConfig =
  DestAddr :: Addr
  ncUDPAddr :: AddrPort
  ncInterfaceName :: string

record IPConfig =
  cfgInterfaces :: "InterfaceConfig list"
  cfgNeighbors :: "NeighborConfig list"
  OriginatingPrefixes :: "Prefix list"
  cfgRoutingMode :: RoutingMode
  cfgRipNeighbors :: "Addr list"
  StaticRoutes :: "(Prefix \<times> Addr) list"

section \<open>The static configuration of the package\<close>

definition pfx4 :: "u32 \<Rightarrow> int \<Rightarrow> Prefix" where
  "pfx4 a b = \<lparr>pfxAddr = V4 a, pfxBits = b\<rparr>"

text \<open>
  \<^verbatim>\<open>var LnxConfig\<close>, the sample configuration: addresses as 32-bit numbers
  (10.1.0.1 is \<open>0x0A010001\<close>, 127.0.0.1 is \<open>0x7F000001\<close>); the map it leaves out is nil.
\<close>

definition LnxConfig :: IPConfig where
  "LnxConfig =
     \<lparr>cfgInterfaces =
        [\<lparr>icName = ''if0'', AssignedIP = V4 0x0A010001, AssignedPrefix = pfx4 0x0A010001 24,
          icUDPAddr = AddrPortFrom (V4 0x7F000001) 5000\<rparr>,
         \<lparr>icName = ''if1'', AssignedIP = V4 0x0A0A0101, AssignedPrefix = pfx4 0x0A0A0101 24,
          icUDPAddr = AddrPortFrom (V4 0x7F000001) 5001\<rparr>],
      cfgNeighbors =
        [\<lparr>DestAddr = V4 0x0A01000A, ncUDPAddr = AddrPortFrom (V4 0x7F000001) 6001,
          ncInterfaceName = ''if0''\<rparr>,
         \<lparr>DestAddr = V4 0x0A0A0102, ncUDPAddr = AddrPortFrom (V4 0x7F000001) 5100,
          ncInterfaceName = ''if1''\<rparr>],
      OriginatingPrefixes = [pfx4 0x0A010001 24],
      cfgRoutingMode = RoutingTypeStatic,
      cfgRipNeighbors = [V4 0x0A0A0102],
      StaticRoutes = []\<rparr>"

end
