(* ===== verification/Device.thy ===== *)
theory Device
  imports Complex_Main RipHeader RtoQueue TcpHeader LnxConfig "HOL-Library.Monad_Syntax"
begin

text \<open>
  The device of \<^verbatim>\<open>pkg/protocol/protocol.go\<close> and its IP layer: the routing table with
  its longest-prefix lookup, the choice of the next hop, the construction, sending and
  forwarding of packets.  A call returns \<open>None\<close> when it does not return: it panics or ends
  the process.  An error value is the left side of a sum.  What a call does to the outside
  is the list of effects it returns: packets written to UDP sockets and goroutines started;
  \<open>CallSendTcp\<close> records, before its own effects, that \<^verbatim>\<open>SendTcp\<close> was called.
\<close>

section \<open>Sockets\<close>

datatype Status =
  Listen | Established | SynSent | SynRecv | FinWait1 | FinWait2 | TimeWait | Closed |
  CloseWait | LastAck | Closing

type_synonym Transport = u16

definition tcp :: Transport where "tcp = 6"

record SocketKey =
  remote :: AddrPort
  local :: AddrPort
  trasportType :: Transport

text \<open>
  Where the goroutine \<^verbatim>\<open>tcbReadController\<close> is: ready for a request; about to test the
  window for a payload, or waiting on \<^verbatim>\<open>windowRecvSignal\<close> with it; about to test for
  data for a read of a number of bytes, or waiting for it; or handing bytes to the reader.
\<close>

datatype rcv_ctl =
  RReady | RPut "byte list" | RWaitSpace "byte list" | RGet u64 | RWaitData u64 | RServe "byte list"

text \<open>
  Where \<^verbatim>\<open>tcbSendController\<close> is: the same for capacity for a payload; for a read of a
  number of bytes, before its loop test or waiting in the loop (with or without the
  one-second timer), with the byte it probes the peer's window with and the flag
  \<^verbatim>\<open>windowProbe\<close>; or handing bytes to the writer.
\<close>

datatype snd_ctl =
  SReady | SPut "byte list" | SWaitCap "byte list" | SGet "byte list" bool u64 |
  SWaitWnd bool "byte list" bool u64 | SServe "byte list"

text \<open>
  The retransmission goroutine: not started, at the top of its loop, waiting on a timer,
  or returned.
\<close>

datatype rto_pc = RtoNotStarted | RtoTop | RtoWaiting nat | RtoReturned

text \<open>
  A connection.  Timers are numbered in the order they are created (\<open>timerSeq\<close> is the next
  number); \<open>rtoDrained\<close> are those whose single tick the retransmission goroutine has
  received; \<open>timeWaitG\<close> holds the timers the \<^verbatim>\<open>timeWaitTimeout\<close> goroutines wait on.
  \<open>opener\<close> says that a call of \<^verbatim>\<open>VConnect\<close> or \<^verbatim>\<open>VAccept\<close> waits on
  \<^verbatim>\<open>signalChannel\<close>.  \<open>srtt\<close> idealises the \<^verbatim>\<open>float64\<close> to a real number.
\<close>

record VTcpConn =
  remoteAddr :: AddrPort
  localAddr :: AddrPort
  status :: Status
  tcb :: TCB
  timeWaitTimer :: "nat option"
  rtoTimer :: "nat option"
  srtt :: real
  queue :: rtoQueue
  timerSeq :: nat
  rtoG :: rto_pc
  rtoDrained :: "nat list"
  timeWaitG :: "nat list"
  opener :: bool
  rcvCtl :: rcv_ctl
  sndCtl :: snd_ctl

record KeyPacket =
  tcpPacket :: TcpPacket
  key :: SocketKey

text \<open>
  A listener; \<open>lnAccepting\<close> says that \<^verbatim>\<open>VAccept\<close> waits on \<^verbatim>\<open>listenChannel\<close>, and
  \<open>lnInbox\<close> is what it has received from there and not yet handled.
\<close>

record VTcpListener =
  lnRemoteAddr :: AddrPort
  lnLocalAddr :: AddrPort
  lnStatus :: Status
  lnAccepting :: bool
  lnInbox :: "KeyPacket option"

section \<open>Packets, routes and the device\<close>

record Packet =
  Header :: IPv4Header
  Data :: GoSlice

record Hop =
  hopAddr :: Addr
  hopCost :: u32

text \<open>The zero value, which a lookup of a missing key yields.\<close>

definition NoHop :: Hop where
  "NoHop = \<lparr>hopAddr = NoAddr, hopCost = 0\<rparr>"

type_synonym RoutingTable = "(Prefix \<times> Hop) list"

record RouteInterface =
  ifName :: string
  ifIp :: Addr
  ifPrefix :: Prefix
  ifUdpPort :: AddrPort
  ifIsUp :: bool

record Neighbour =
  neiInterfaceName :: string
  neiIp :: Addr
  neiUdpPort :: AddrPort

text \<open>The three functions the program registers as receive handlers.\<close>

datatype HandlerFunc = HTest | HRip | HTcp

text \<open>
  A map to pointers is a map to reference numbers into a store (\<open>connStore\<close>,
  \<open>lnStore\<close>): a connection removed from the table can still be held by a goroutine.
  A RIP channel is the number of tokens buffered in it (at most 5).
\<close>

record Device =
  Table :: RoutingTable
  Neighbours :: "Neighbour list"
  Interfaces :: "(string \<times> RouteInterface) list"
  IsRouter :: bool
  devRoutingMode :: RoutingMode
  RipNeighbors :: "Addr list"
  ripChannels :: "(Addr \<times> nat) list"
  Handlers :: "(u8 \<times> HandlerFunc) list"
  Listeners :: "(string \<times> nat) list"
  ListenTable :: "(SocketKey \<times> nat) list"
  ConnTable :: "(SocketKey \<times> nat) list"
  connStore :: "(nat \<times> VTcpConn) list"
  lnStore :: "(nat \<times> VTcpListener) list"

definition testProtocol :: u8 where "testProtocol = 0"
definition ripProtocol :: u8 where "ripProtocol = 200"
definition MaxMessageSize :: nat where "MaxMessageSize = 1400"

datatype SendError =
  ErrNoNeighbour | ErrNoInterface | ErrInterfaceDown | ErrMarshalHeader | ErrUdpWrite |
  ErrRip RipError

datatype effect =
  UdpWrite string AddrPort "byte list"
| GoHandler Packet
| GoTimeout Addr
| GoTimeoutHandler Addr
| GoListen string
| GoRip
| TestOutput Packet
| CallSendTcp Addr TcpPacket

section \<open>Longest-prefix lookup\<close>

text \<open>The loop of \<^verbatim>\<open>getDstPrefix\<close>; the accumulator is \<open>(prefix, prefixSize, found)\<close>.\<close>

fun getDstPrefix_loop :: "Addr \<Rightarrow> RoutingTable \<Rightarrow> Prefix \<times> int \<times> bool \<Rightarrow> Prefix \<times> int \<times> bool" where
  "getDstPrefix_loop dst [] acc = acc"
| "getDstPrefix_loop dst ((pre, hop) # table) (prefix, prefixSize, found) =
     getDstPrefix_loop dst table
       (if Contains pre dst \<and> prefixSize \<le> pfxBits pre
        then (Masked pre, pfxBits pre, True) else (prefix, prefixSize, found))"

definition getDstPrefix :: "Device \<Rightarrow> Addr \<Rightarrow> Prefix \<times> bool" where
  "getDstPrefix d dst =
     (case getDstPrefix_loop dst (Table d) (NoPrefix, 0, False) of
        (prefix, _, found) \<Rightarrow> (prefix, found))"

section \<open>Next hop\<close>

text \<open>The loop over the neighbours with its \<^verbatim>\<open>break\<close>.\<close>

fun find_neighbour :: "Addr \<Rightarrow> Neighbour list \<Rightarrow> (AddrPort \<times> string) option" where
  "find_neighbour next [] = None"
| "find_neighbour next (nei # ns) =
     (if neiIp nei = next then Some (neiUdpPort nei, neiInterfaceName nei)
      else find_neighbour next ns)"

definition next_hop :: "Device \<Rightarrow> Prefix \<Rightarrow> Addr \<Rightarrow> Addr" where
  "next_hop d prefix dst =
     (let hop = (case mget (Table d) prefix of None \<Rightarrow> NoHop | Some h \<Rightarrow> h)
      in if pfxBits prefix = 0 \<or> hopCost hop > 0 then hopAddr hop else dst)"

definition findIp :: "Device \<Rightarrow> Addr \<Rightarrow> SendError + (AddrPort \<times> string)" where
  "findIp d dst =
     (let (prefix, ok) = getDstPrefix d dst
      in if \<not> ok then Inl ErrNoNeighbour
         else let next = next_hop d prefix dst
              in case find_neighbour next (Neighbours d) of
                   None \<Rightarrow> Inl ErrNoInterface
                 | Some (udpAddr, iface) \<Rightarrow>
                     if iface = [] then Inl ErrNoInterface else Inr (udpAddr, iface))"

section \<open>Checksums\<close>

definition ComputeChecksum :: "env \<Rightarrow> byte list \<Rightarrow> u16 \<Rightarrow> u16" where
  "ComputeChecksum E b initial = checksum E b initial XOR 0xffff"

definition ValidateChecksum :: "env \<Rightarrow> byte list \<Rightarrow> u16 \<Rightarrow> bool" where
  "ValidateChecksum E b fromHeader \<longleftrightarrow> fromHeader = checksum E b fromHeader"

section \<open>Sending\<close>

text \<open>A header that cannot be marshalled ends the process (\<^verbatim>\<open>log.Fatalln\<close>).\<close>

definition createPacket :: "env \<Rightarrow> Device \<Rightarrow> Addr \<Rightarrow> u8 \<Rightarrow> GoSlice \<Rightarrow> Packet option" where
  "createPacket E d dst protocolNum data =
     do {
       if0 \<leftarrow> mget (Interfaces d) ''if0'';
       let h = \<lparr>ipVersion = ipVersion4, ipLen = ipHeaderLen, ipTOS = 0,
                ipTotalLen = ipHeaderLen + int (slice_len data), ipID = 0, ipFlags = 0,
                ipFragOff = 0, ipTTL = 17, ipProtocol = uint protocolNum, ipChecksum = 0,
                ipSrc = ifIp if0, ipDst = dst, ipOptions = []\<rparr>;
       headerBytes \<leftarrow> hdrMarshal E h;
       Some \<lparr>Header = h\<lparr>ipChecksum := uint (ComputeChecksum E (elems headerBytes) 0)\<rparr>,
             Data = data\<rparr>
     }"

text \<open>
  The outer \<open>None\<close> is the nil dereference of an interface that is not configured.  A
  missing listener is a nil socket, on which the write returns an error.
\<close>

definition sendPacket :: "env \<Rightarrow> Device \<Rightarrow> Packet \<Rightarrow> ((SendError + int) \<times> effect list) option" where
  "sendPacket E d p =
     (case findIp d (ipDst (Header p)) of
        Inl e \<Rightarrow> Some (Inl e, [])
      | Inr (udpAddr, iface) \<Rightarrow>
          do {
            intf \<leftarrow> mget (Interfaces d) iface;
            if \<not> ifIsUp intf then Some (Inl ErrInterfaceDown, [])
            else
              let h = (Header p)\<lparr>ipTTL := ipTTL (Header p) - 1, ipChecksum := 0\<rparr>
              in case hdrMarshal E h of
                   None \<Rightarrow> Some (Inl ErrMarshalHeader, [])
                 | Some headerBytes \<Rightarrow>
                     let h = h\<lparr>ipChecksum := uint (ComputeChecksum E (elems headerBytes) 0)\<rparr>
                     in case hdrMarshal E h of
                          None \<Rightarrow> Some (Inl ErrMarshalHeader, [])
                        | Some hb \<Rightarrow>
                            let slice = elems hb @ elems (Data p)
                            in case mget (Listeners d) iface of
                                 None \<Rightarrow> Some (Inl ErrUdpWrite, [])
                               | Some conn \<Rightarrow>
                                   (case udpWrite E iface udpAddr slice of
                                      None \<Rightarrow> Some (Inl ErrUdpWrite, [])
                                    | Some n \<Rightarrow> Some (Inr n, [UdpWrite iface udpAddr slice]))
          })"

fun isMyIp_loop :: "Addr \<Rightarrow> (string \<times> RouteInterface) list \<Rightarrow> bool" where
  "isMyIp_loop dst [] = False"
| "isMyIp_loop dst ((name, intf) # rest) = (if ifIp intf = dst then True else isMyIp_loop dst rest)"

definition isMyIp :: "Device \<Rightarrow> Addr \<Rightarrow> bool" where
  "isMyIp d dst = isMyIp_loop dst (Interfaces d)"

definition SendIP :: "env \<Rightarrow> Device \<Rightarrow> Addr \<Rightarrow> u8 \<Rightarrow> GoSlice \<Rightarrow> ((SendError + int) \<times> effect list) option" where
  "SendIP E d dst protocolNum data =
     do {
       packet \<leftarrow> createPacket E d dst protocolNum data;
       if isMyIp_loop (ipDst (Header packet)) (Interfaces d)
       then Some (Inr 0, [GoHandler packet])
       else case findIp d (ipDst (Header packet)) of
              Inl e \<Rightarrow> Some (Inl e, [])
            | Inr (_, iface) \<Rightarrow>
                do {
                  intf \<leftarrow> mget (Interfaces d) iface;
                  sendPacket E d (packet\<lparr>Header := (Header packet)\<lparr>ipSrc := ifIp intf\<rparr>\<rparr>)
                }
     }"

section \<open>The device of the sample configuration\<close>

text \<open>
  The host that \<^const>\<open>LnxConfig\<close> describes, as it is after start-up, with one listening
  socket per interface; and an environment whose codecs are concrete functions.  The
  witnesses run on them.
\<close>

definition exDevice :: Device where
  "exDevice =
     \<lparr>Table = [(pfx4 0x0A010000 24, \<lparr>hopAddr = V4 0x0A010001, hopCost = 0\<rparr>),
               (pfx4 0x0A0A0100 24, \<lparr>hopAddr = V4 0x0A0A0101, hopCost = 0\<rparr>)],
      Neighbours =
        [\<lparr>neiInterfaceName = ''if0'', neiIp = V4 0x0A01000A, neiUdpPort = AddrPortFrom (V4 0x7F000001) 6001\<rparr>,
         \<lparr>neiInterfaceName = ''if1'', neiIp = V4 0x0A0A0102, neiUdpPort = AddrPortFrom (V4 0x7F000001) 5100\<rparr>],
      Interfaces =
        [(''if0'', \<lparr>ifName = ''if0'', ifIp = V4 0x0A010001, ifPrefix = pfx4 0x0A010000 24,
                  ifUdpPort = AddrPortFrom (V4 0x7F000001) 5000, ifIsUp = True\<rparr>),
         (''if1'', \<lparr>ifName = ''if1'', ifIp = V4 0x0A0A0101, ifPrefix = pfx4 0x0A0A0100 24,
                  ifUdpPort = AddrPortFrom (V4 0x7F000001) 5001, ifIsUp = True\<rparr>)],
      IsRouter = True, devRoutingMode = RoutingTypeStatic, RipNeighbors = [V4 0x0A0A0102],
      ripChannels = [(V4 0x0A0A0102, 0)], Handlers = [(testProtocol, HTest), (ripProtocol, HRip)],
      Listeners = [(''if0'', 3), (''if1'', 4)], ListenTable = [], ConnTable = [],
      connStore = [], lnStore = []\<rparr>"

definition exEnv :: env where
  "exEnv =
     \<lparr>hdrMarshal = (\<lambda>h. Some (slice_of (replicate 8 0 @ [word_of_int (ipTTL h), 0] @
                       AppendUint16 [] (word_of_int (ipChecksum h)) @ replicate 8 0))),
      hdrParse = (\<lambda>bs. None),
      checksum = (\<lambda>bs c. c), tcpAccess = (\<lambda>bs. None), tcpEncode = (\<lambda>f. replicate 20 0),
      udpWrite = (\<lambda>ifc addr bs. Some (int (length bs)))\<rparr>"

lemmas ex_simps =
  exDevice_def exEnv_def pfx4_def Contains_def Prefix_IsValid_def Masked_def mask_eq_exp_minus_1

section \<open>The lookup finds the longest match, in any order\<close>

lemma getDstPrefix_loop_spec:
  "getDstPrefix_loop dst table (prefix, lo, found) = (pr, sz, fd) \<Longrightarrow>
     lo \<le> sz \<and> (\<forall>(p, h) \<in> set table. Contains p dst \<longrightarrow> pfxBits p \<le> sz) \<and>
     ((fd = found \<and> pr = prefix \<and> sz = lo \<and>
         (\<forall>(p, h) \<in> set table. Contains p dst \<longrightarrow> pfxBits p < lo)) \<or>
      (fd \<and> pr = prefix_at dst sz \<and> (\<exists>(p, h) \<in> set table. Contains p dst \<and> pfxBits p = sz)))"
proof (induction table arbitrary: prefix lo found)
  case Nil
  then show ?case by simp
next
  case (Cons e table)
  obtain p h where e: "e = (p, h)" by (cases e)
  show ?case
  proof (cases "Contains p dst \<and> lo \<le> pfxBits p")
    case True
    with Cons.prems e Contains_Masked [of p dst]
    have "getDstPrefix_loop dst table (prefix_at dst (pfxBits p), pfxBits p, True) = (pr, sz, fd)"
      by simp
    from Cons.IH [OF this] True e show ?thesis by auto
  next
    case False
    with Cons.prems e have "getDstPrefix_loop dst table (prefix, lo, found) = (pr, sz, fd)"
      by auto
    from Cons.IH [OF this] False e show ?thesis by auto
  qed
qed

text \<open>The entries of a table that match an address, and the best of them.\<close>

definition matches :: "RoutingTable \<Rightarrow> Addr \<Rightarrow> Prefix set" where
  "matches table dst = {p \<in> fst ` set table. Contains p dst}"

lemma getDstPrefix_cases:
  "getDstPrefix d dst =
     (if matches (Table d) dst = {} then (NoPrefix, False)
      else (prefix_at dst (Max (pfxBits ` matches (Table d) dst)), True))"
proof -
  obtain pr sz fd where loop: "getDstPrefix_loop dst (Table d) (NoPrefix, 0, False) = (pr, sz, fd)"
    by (cases "getDstPrefix_loop dst (Table d) (NoPrefix, 0, False)") auto
  note spec = getDstPrefix_loop_spec [OF loop]
  have fin: "finite (pfxBits ` matches (Table d) dst)" by (simp add: matches_def)
  show ?thesis
  proof (cases "matches (Table d) dst = {}")
    case True
    then have "\<forall>(p, h) \<in> set (Table d). \<not> Contains p dst" by (force simp: matches_def)
    with spec have "fd = False" "pr = NoPrefix" by auto
    with True show ?thesis by (simp add: getDstPrefix_def loop)
  next
    case False
    then obtain p h where ph: "(p, h) \<in> set (Table d)" "Contains p dst" by (force simp: matches_def)
    with spec Contains_bits have "fd" "pr = prefix_at dst sz"
      "\<exists>(p, h) \<in> set (Table d). Contains p dst \<and> pfxBits p = sz"
      by fastforce+
    moreover from this have "sz \<in> pfxBits ` matches (Table d) dst" by (force simp: matches_def)
    then have "Max (pfxBits ` matches (Table d) dst) = sz"
      using spec fin by (intro Max_eqI) (auto simp: matches_def)
    ultimately show ?thesis using False by (simp add: getDstPrefix_def loop)
  qed
qed

text \<open>
  C14: \<^verbatim>\<open>getDstPrefix\<close> is longest-prefix matching.  It reports a match exactly when some
  prefix of the table contains the destination, and then returns the masked form of an
  entry that contains it and is at least as long as every other entry that does.
\<close>

theorem getDstPrefix_longest:
  "case getDstPrefix d dst of (prefix, found) \<Rightarrow>
     (found \<longleftrightarrow> (\<exists>p \<in> fst ` set (Table d). Contains p dst)) \<and>
     (found \<longrightarrow> (\<exists>p \<in> fst ` set (Table d). Contains p dst \<and> prefix = Masked p \<and>
        (\<forall>q \<in> fst ` set (Table d). Contains q dst \<longrightarrow> pfxBits q \<le> pfxBits p)))"
proof (cases "matches (Table d) dst = {}")
  case True
  then show ?thesis by (auto simp: getDstPrefix_cases) (auto simp: matches_def)
next
  case False
  let ?B = "pfxBits ` matches (Table d) dst"
  have fin: "finite ?B" by (simp add: matches_def)
  with False have "Max ?B \<in> ?B" by (intro Max_in) simp_all
  then obtain p where p: "p \<in> matches (Table d) dst" "pfxBits p = Max ?B" by auto
  then have "prefix_at dst (Max ?B) = Masked p"
    using Contains_Masked [of p dst] by (simp add: matches_def)
  moreover have "\<forall>q \<in> fst ` set (Table d). Contains q dst \<longrightarrow> pfxBits q \<le> pfxBits p"
    using fin p by (simp add: matches_def)
  moreover have "p \<in> fst ` set (Table d)" "Contains p dst"
    using p by (simp_all add: matches_def)
  ultimately show ?thesis
    using False by (simp only: getDstPrefix_cases if_False prod.case) blast
qed

theorem getDstPrefix_longest_witness:
  "getDstPrefix (exDevice\<lparr>Table := (pfx4 0x0A010200 23, NoHop) # Table exDevice\<rparr>) (V4 0x0A010003)
     = (pfx4 0x0A010000 24, True) \<and>
   (\<exists>p \<in> {pfx4 0x0A010200 23, pfx4 0x0A010000 24, pfx4 0x0A0A0100 24}.
      Contains p (V4 0x0A010003) \<and> pfx4 0x0A010000 24 = Masked p)"
proof -
  let ?d = "exDevice\<lparr>Table := (pfx4 0x0A010200 23, NoHop) # Table exDevice\<rparr>"
  have "getDstPrefix ?d (V4 0x0A010003) = (pfx4 0x0A010000 24, True)"
    by (simp add: getDstPrefix_def ex_simps)
  with getDstPrefix_longest [of ?d "V4 0x0A010003"] show ?thesis
    by (simp add: exDevice_def) blast
qed

text \<open>
  C35: the order in which Go ranges over the routing table does not matter: two tables
  with the same entries give the same prefix for every destination.
\<close>

theorem getDstPrefix_order_independent:
  assumes "wf_map (Table d)" "wf_map (Table d')" "mget (Table d) = mget (Table d')"
  shows "getDstPrefix d dst = getDstPrefix d' dst"
  using same_map_set [OF assms] by (simp add: getDstPrefix_cases matches_def)

theorem getDstPrefix_order_independent_witness:
  "getDstPrefix exDevice (V4 0x0A010003) =
   getDstPrefix (exDevice\<lparr>Table := rev (Table exDevice)\<rparr>) (V4 0x0A010003)"
  by (rule getDstPrefix_order_independent)
     (simp_all add: exDevice_def wf_map_def pfx4_def fun_upd_twist)

section \<open>The next hop\<close>

text \<open>Every key of the table is a masked prefix, as \<^verbatim>\<open>Masked()\<close> makes the interfaces' ones.\<close>

definition masked_table :: "RoutingTable \<Rightarrow> bool" where
  "masked_table table \<longleftrightarrow> (\<forall>p \<in> fst ` set table. Masked p = p)"

definition longest_match :: "RoutingTable \<Rightarrow> Addr \<Rightarrow> Prefix \<Rightarrow> bool" where
  "longest_match table dst p \<longleftrightarrow> p \<in> fst ` set table \<and> Contains p dst \<and>
     (\<forall>q \<in> fst ` set table. Contains q dst \<longrightarrow> pfxBits q \<le> pfxBits p)"

lemma getDstPrefix_longest_match:
  assumes "longest_match (Table d) dst p"
  shows "getDstPrefix d dst = (Masked p, True)"
proof -
  have "p \<in> matches (Table d) dst" and "Max (pfxBits ` matches (Table d) dst) = pfxBits p"
    using assms by (auto simp: longest_match_def matches_def intro!: Max_eqI)
  then show ?thesis
    using Contains_Masked [of p dst] by (auto simp: getDstPrefix_cases matches_def)
qed

lemma longest_match_exists:
  assumes "p \<in> fst ` set table" "Contains p dst"
  shows "\<exists>q. longest_match table dst q"
proof -
  let ?B = "pfxBits ` matches table dst"
  have fin: "finite ?B" by (simp add: matches_def)
  from assms have "?B \<noteq> {}" by (auto simp: matches_def)
  with fin have "Max ?B \<in> ?B" by (rule Max_in)
  then obtain q where q: "q \<in> matches table dst" "Max ?B = pfxBits q" by blast
  moreover have "\<forall>r \<in> matches table dst. pfxBits r \<le> pfxBits q"
    using fin q(2) by (metis Max_ge imageI)
  ultimately show ?thesis by (auto simp: longest_match_def matches_def)
qed



text \<open>
  Two consequences of how the hop is looked up.  A route of cost 0 that is not the default
  route, which every static route is, never uses its gateway.  And an entry whose key is not
  masked is found by the lookup but not by \<^verbatim>\<open>d.Table[prefix]\<close>: its gateway is ignored.
\<close>

lemma static_route_gateway_ignored:
  "pfxBits prefix \<noteq> 0 \<Longrightarrow> mget (Table d) prefix = Some hop \<Longrightarrow> hopCost hop = 0 \<Longrightarrow>
   next_hop d prefix dst = dst"
  by (simp add: next_hop_def)

lemma unmasked_route_gateway_ignored:
  "getDstPrefix (exDevice\<lparr>Table := [(pfx4 0x0A020305 16, \<lparr>hopAddr = V4 0x0A0A0102, hopCost = 2\<rparr>)]\<rparr>)
     (V4 0x0A020001) = (pfx4 0x0A020000 16, True)"
  "next_hop (exDevice\<lparr>Table := [(pfx4 0x0A020305 16, \<lparr>hopAddr = V4 0x0A0A0102, hopCost = 2\<rparr>)]\<rparr>)
     (pfx4 0x0A020000 16) (V4 0x0A020001) = V4 0x0A020001"
  by (simp_all add: getDstPrefix_def next_hop_def NoHop_def ex_simps)

section \<open>Sending\<close>

text \<open>
  C36: sending is all or nothing.  A send that returns an error writes nothing; a send that
  succeeds writes exactly one datagram, to the neighbour and on the interface
  \<^verbatim>\<open>findIp\<close> chose, only when that interface is up, and what it writes is the packet's
  header with its TTL decremented by one and a new checksum, followed by the payload
  unchanged.
\<close>

theorem sendPacket_effects:
  assumes "sendPacket E d p = Some (r, es)"
  shows "(\<exists>e. r = Inl e \<and> es = []) \<or>
    (\<exists>n udpAddr iface intf hb c.
       r = Inr n \<and> findIp d (ipDst (Header p)) = Inr (udpAddr, iface) \<and>
       mget (Interfaces d) iface = Some intf \<and> ifIsUp intf \<and>
       hdrMarshal E ((Header p)\<lparr>ipTTL := ipTTL (Header p) - 1, ipChecksum := c\<rparr>) = Some hb \<and>
       es = [UdpWrite iface udpAddr (elems hb @ elems (Data p))])"
  using assms
  by (auto simp: sendPacket_def Let_def bind_eq_Some_conv
      split: sum.splits if_splits option.splits) blast+

theorem sendPacket_effects_witness:
  "\<exists>p r es. sendPacket exEnv exDevice p = Some (r, es) \<and> es \<noteq> [] \<and>
     (\<exists>bytes. es = [UdpWrite ''if0'' (AddrPortFrom (V4 0x7F000001) 6001) (bytes @ [42])])"
proof -
  let ?p = "\<lparr>Header = \<lparr>ipVersion = 4, ipLen = 20, ipTOS = 0, ipTotalLen = 21, ipID = 0, ipFlags = 0,
      ipFragOff = 0, ipTTL = 17, ipProtocol = 0, ipChecksum = 0, ipSrc = V4 0x0A010001,
      ipDst = V4 0x0A01000A, ipOptions = []\<rparr>, Data = slice_of [42]\<rparr>"
  have f: "findIp exDevice (V4 0x0A01000A) = Inr (AddrPortFrom (V4 0x7F000001) 6001, ''if0'')"
    by (simp add: findIp_def getDstPrefix_def next_hop_def ex_simps)
  then obtain r es where s: "sendPacket exEnv exDevice ?p = Some (r, es)" and "es \<noteq> []"
    by (auto simp: sendPacket_def exEnv_def exDevice_def Let_def)
  from sendPacket_effects [OF s] \<open>es \<noteq> []\<close> f
  have "\<exists>bytes. es = [UdpWrite ''if0'' (AddrPortFrom (V4 0x7F000001) 6001) (bytes @ [42])]"
    by (auto simp: slice_of_def)
  with s \<open>es \<noteq> []\<close> show ?thesis by blast
qed

lemma isMyIp_loop_iff: "isMyIp_loop dst ifs \<longleftrightarrow> (\<exists>(n, i) \<in> set ifs. ifIp i = dst)"
  by (induction dst ifs rule: isMyIp_loop.induct) auto

lemma find_neighbour_Some:
  "find_neighbour nxt ns = Some (u, i) \<Longrightarrow> \<exists>n \<in> set ns. neiIp n = nxt \<and> neiUdpPort n = u \<and> neiInterfaceName n = i"
  by (induction ns) (auto split: if_splits)

section \<open>No send panics on a well-formed device\<close>

definition env_total :: "env \<Rightarrow> bool" where
  "env_total E \<longleftrightarrow> (\<forall>h. hdrMarshal E h \<noteq> None)"

text \<open>The interface \<^verbatim>\<open>if0\<close> and the interface of every neighbour are configured.\<close>

definition device_ok :: "Device \<Rightarrow> bool" where
  "device_ok d \<longleftrightarrow> mget (Interfaces d) ''if0'' \<noteq> None \<and>
     (\<forall>nei \<in> set (Neighbours d). mget (Interfaces d) (neiInterfaceName nei) \<noteq> None)"

lemma device_ok_update [simp]:
  "device_ok (d\<lparr>Table := t\<rparr>) = device_ok d"
  "device_ok (d\<lparr>RipNeighbors := ns\<rparr>) = device_ok d"
  "device_ok (d\<lparr>ripChannels := cs\<rparr>) = device_ok d"
  by (simp_all add: device_ok_def)

lemma findIp_iface:
  assumes "device_ok d" "findIp d dst = Inr (u, iface)"
  shows "\<exists>intf. mget (Interfaces d) iface = Some intf"
  using assms
  by (fastforce simp: findIp_def device_ok_def Let_def
      split: prod.splits option.splits if_splits dest: find_neighbour_Some)

lemma createPacket_total:
  assumes "env_total E" "device_ok d"
  shows "\<exists>p. createPacket E d dst proto data = Some p \<and> ipDst (Header p) = dst"
proof -
  from assms(2) obtain if0 where "mget (Interfaces d) ''if0'' = Some if0"
    by (auto simp: device_ok_def)
  moreover have "\<exists>hb. hdrMarshal E h = Some hb" for h
    using assms(1) by (simp add: env_total_def)
  ultimately show ?thesis
    by (simp add: createPacket_def bind_eq_Some_conv Let_def) (metis IPv4Header.select_convs(12) IPv4Header.update_convs(10) Packet.select_convs(1))
qed

lemma sendPacket_total:
  assumes "device_ok d"
  shows "\<exists>r es. sendPacket E d p = Some (r, es)"
proof (cases "findIp d (ipDst (Header p))")
  case (Inl e)
  then show ?thesis by (simp add: sendPacket_def)
next
  case (Inr ui)
  then obtain u iface where ui: "findIp d (ipDst (Header p)) = Inr (u, iface)" by (cases ui) simp
  then obtain intf where "mget (Interfaces d) iface = Some intf"
    using findIp_iface [OF assms] by blast
  with ui show ?thesis
    by (auto simp: sendPacket_def Let_def split: option.split)
qed

lemma SendIP_total:
  assumes "env_total E" "device_ok d"
  shows "\<exists>r es. SendIP E d dst proto data = Some (r, es)"
proof -
  obtain p where p: "createPacket E d dst proto data = Some p" "ipDst (Header p) = dst"
    using createPacket_total [OF assms] by blast
  show ?thesis
  proof (cases "findIp d dst")
    case (Inl e)
    with p show ?thesis by (simp add: SendIP_def)
  next
    case (Inr ui)
    then obtain u iface where ui: "findIp d dst = Inr (u, iface)" by (cases ui) simp
    then obtain intf where "mget (Interfaces d) iface = Some intf"
      using findIp_iface [OF assms(2)] by blast
    with p ui sendPacket_total [OF assms(2)] show ?thesis by (simp add: SendIP_def)
  qed
qed

lemma exDevice_sends: "env_total exEnv" "device_ok exDevice"
  by (simp_all add: env_total_def device_ok_def ex_simps)

end
