(* ===== verification/Control.thy ===== *)
theory Control
  imports Device
begin

text \<open>
  The two controller goroutines of \<^verbatim>\<open>pkg/protocol/tcb.go\<close> and the calls that meet
  them on unbuffered channels.  A call returns \<open>None\<close> while the controller is not ready
  to receive: the caller waits.  A \<open>_step\<close> function is one move of a controller, from one
  channel operation to the next.
\<close>

section \<open>The read controller\<close>

definition AddRead :: "byte list \<Rightarrow> VTcpConn \<Rightarrow> VTcpConn option" where
  "AddRead payload c = (if rcvCtl c = RReady then Some (c\<lparr>rcvCtl := RPut payload\<rparr>) else None)"

text \<open>
  The waits on \<^verbatim>\<open>windowRecvSignal\<close> have no move: every send on that channel is made by
  this goroutine itself.
\<close>

definition rcv_step :: "VTcpConn \<Rightarrow> VTcpConn" where
  "rcv_step c =
     (case rcvCtl c of
        RPut payload \<Rightarrow>
          if rcvWnd (tcb c) < of_nat (length payload) then c\<lparr>rcvCtl := RWaitSpace payload\<rparr>
          else c\<lparr>tcb := add2Read payload (tcb c), rcvCtl := RReady\<rparr>
      | RGet bytesToRead \<Rightarrow>
          if rcvWnd (tcb c) = ucast tcbSize then c\<lparr>rcvCtl := RWaitData bytesToRead\<rparr>
          else let (t, buf) = readFromRecv (ucast bytesToRead) (tcb c)
               in c\<lparr>tcb := t, rcvCtl := RServe buf\<rparr>
      | _ \<Rightarrow> c)"

text \<open>\<^verbatim>\<open>ReadRecv\<close>: the request, the controller's move, and the reply.\<close>

definition ReadRecv_request :: "u32 \<Rightarrow> VTcpConn \<Rightarrow> VTcpConn option" where
  "ReadRecv_request count c =
     (if rcvCtl c = RReady then Some (c\<lparr>rcvCtl := RGet (ucast count)\<rparr>) else None)"

definition ReadRecv_reply :: "VTcpConn \<Rightarrow> (byte list \<times> VTcpConn) option" where
  "ReadRecv_reply c =
     (case rcvCtl c of RServe data \<Rightarrow> Some (data, c\<lparr>rcvCtl := RReady\<rparr>) | _ \<Rightarrow> None)"

definition ReadRecv :: "u32 \<Rightarrow> VTcpConn \<Rightarrow> (byte list \<times> VTcpConn) option" where
  "ReadRecv count c =
     do {
       c \<leftarrow> ReadRecv_request count c;
       ReadRecv_reply (rcv_step c)
     }"

section \<open>The send controller\<close>

definition AddSend :: "byte list \<Rightarrow> VTcpConn \<Rightarrow> VTcpConn option" where
  "AddSend payload c = (if sndCtl c = SReady then Some (c\<lparr>sndCtl := SPut payload\<rparr>) else None)"

text \<open>The request of \<^verbatim>\<open>ReadSend\<close>, up to the controller's loop.\<close>

definition ReadSend_request :: "u64 \<Rightarrow> VTcpConn \<Rightarrow> VTcpConn option" where
  "ReadSend_request numBytes c =
     (if sndCtl c = SReady
      then if sendWnd (tcb c) = 0
           then let (t, firstByte) = readFromSend 1 (tcb c)
                in Some (c\<lparr>tcb := t, sndCtl := SGet firstByte True numBytes\<rparr>)
           else Some (c\<lparr>sndCtl := SGet [] False numBytes\<rparr>)
      else None)"

text \<open>
  One move; the second result is the byte it offers on \<^verbatim>\<open>windowProbeChan\<close>, when it
  offers one.
\<close>

definition snd_step :: "VTcpConn \<Rightarrow> VTcpConn \<times> byte list option" where
  "snd_step c =
     (case sndCtl c of
        SPut payload \<Rightarrow>
          if getSendCapacity (tcb c) < of_nat (length payload)
          then (c\<lparr>sndCtl := SWaitCap payload\<rparr>, None)
          else (c\<lparr>tcb := add2Send payload (tcb c), sndCtl := SReady\<rparr>, None)
      | SGet firstByte windowProbe numBytesToSend \<Rightarrow>
          if getSendCapacity (tcb c) = ucast tcbSize \<or> sendWnd (tcb c) = 0
          then let idle = (getSendCapacity (tcb c) = ucast tcbSize)
               in (c\<lparr>sndCtl := SWaitWnd (\<not> idle) firstByte windowProbe numBytesToSend\<rparr>,
                   if idle then None else Some firstByte)
          else let numBytesToSend = (if windowProbe then numBytesToSend - 1 else numBytesToSend);
                   (t, buf) = readFromSend (ucast numBytesToSend) (tcb c)
               in (c\<lparr>tcb := t, sndCtl := SServe buf\<rparr>, None)
      | _ \<Rightarrow> (c, None))"

text \<open>A value on \<^verbatim>\<open>windowSendSignal\<close> sends a waiting controller back to its test.\<close>

definition windowSendSignal :: "VTcpConn \<Rightarrow> VTcpConn" where
  "windowSendSignal c =
     (case sndCtl c of
        SWaitCap payload \<Rightarrow> c\<lparr>sndCtl := SPut payload\<rparr>
      | SWaitWnd timed firstByte windowProbe n \<Rightarrow> c\<lparr>sndCtl := SGet firstByte windowProbe n\<rparr>
      | _ \<Rightarrow> c)"

text \<open>The one-second timer of the probe loop.\<close>

definition probeTimer :: "VTcpConn \<Rightarrow> VTcpConn" where
  "probeTimer c =
     (case sndCtl c of
        SWaitWnd True firstByte windowProbe n \<Rightarrow> c\<lparr>sndCtl := SGet firstByte windowProbe n\<rparr>
      | _ \<Rightarrow> c)"

definition ReadSend_reply :: "VTcpConn \<Rightarrow> (byte list \<times> VTcpConn) option" where
  "ReadSend_reply c =
     (case sndCtl c of SServe data \<Rightarrow> Some (data, c\<lparr>sndCtl := SReady\<rparr>) | _ \<Rightarrow> None)"

definition ReadSend :: "u64 \<Rightarrow> VTcpConn \<Rightarrow> (byte list \<times> VTcpConn) option" where
  "ReadSend numBytes c =
     do {
       c \<leftarrow> ReadSend_request numBytes c;
       ReadSend_reply (fst (snd_step c))
     }"

end
