(* ===== verification/Conn.thy ===== *)
theory Conn
  imports Control
begin

text \<open>
  TCP connections: \<^verbatim>\<open>pkg/protocol/normalsocket.go\<close> without the blocking calls, and the
  segment handlers of \<^verbatim>\<open>socketHandlers.go\<close>.  A handler runs with the locks held on a
  state of the device, the connection, the effects so far and three things it observes
  from outside: the clock, whether its acknowledgment overtakes the read controller
  (\<open>early\<close>), and whether a send controller that is about to wait already listens when
  the handler signals it (\<open>heard\<close>).
  It returns \<open>None\<close> when it does not return: it panics, or it waits on a channel that
  nobody receives from.
\<close>

section \<open>State of a handler\<close>

record cst =
  dev :: Device
  conn :: VTcpConn
  out :: "effect list"
  now :: int
  early :: bool
  heard :: bool

definition zeroTCB :: TCB where
  "zeroTCB =
     \<lparr>irs = 0, iss = 0, sendBuf = [], sendUna = 0, sendNxt = 0, sendLbr = 0, sendWnd = 0,
      sendWl1 = 0, sendWl2 = 0, rcvBuf = [], rcvNxt = 0, rcvWnd = 0, rcvLbr = 0\<rparr>"

text \<open>\<open>None\<close> is the nil interface \<^verbatim>\<open>if0\<close>.\<close>

definition CreateSocket :: "Device \<Rightarrow> AddrPort \<Rightarrow> u16 \<Rightarrow> VTcpConn option" where
  "CreateSocket d remoteAddrPort localPort =
     do {
       if0 \<leftarrow> mget (Interfaces d) ''if0'';
       Some \<lparr>remoteAddr = remoteAddrPort, localAddr = AddrPortFrom (ifIp if0) localPort,
             status = Closed, tcb = zeroTCB, timeWaitTimer = None, rtoTimer = None, srtt = 0,
             queue = [], timerSeq = 0, rtoG = RtoNotStarted, rtoDrained = [], timeWaitG = [],
             opener = False, rcvCtl = RReady, sndCtl = SReady\<rparr>
     }"

text \<open>\<open>r\<close> is the initial sequence number drawn; the controllers start idle.\<close>

definition initializeTcb :: "u32 \<Rightarrow> VTcpConn \<Rightarrow> VTcpConn" where
  "initializeTcb r c = c\<lparr>tcb := createTCB r, rcvCtl := RReady, sndCtl := SReady\<rparr>"

definition SocketKeyFromConn :: "VTcpConn \<Rightarrow> SocketKey" where
  "SocketKeyFromConn c = \<lparr>remote = remoteAddr c, local = localAddr c, trasportType = tcp\<rparr>"

definition closeDelete :: "cst \<Rightarrow> cst" where
  "closeDelete s =
     (let c = (conn s)\<lparr>status := Closed, rtoTimer := None, timeWaitTimer := None, queue := []\<rparr>
      in s\<lparr>conn := c,
           dev := (dev s)\<lparr>ConnTable := mdel (SocketKeyFromConn c) (ConnTable (dev s))\<rparr>\<rparr>)"

section \<open>Timers\<close>

definition newTimer :: "VTcpConn \<Rightarrow> nat \<times> VTcpConn" where
  "newTimer c = (timerSeq c, c\<lparr>timerSeq := Suc (timerSeq c)\<rparr>)"

text \<open>The new goroutine reads \<^verbatim>\<open>conn.timeWaitTimer\<close>; the timer it finds is the new one.\<close>

definition startTimeOutTimer :: "VTcpConn \<Rightarrow> VTcpConn" where
  "startTimeOutTimer c =
     (let (t, c) = newTimer c in c\<lparr>timeWaitTimer := Some t, timeWaitG := timeWaitG c @ [t]\<rparr>)"

definition resetTimeWaitTimer :: "VTcpConn \<Rightarrow> VTcpConn" where
  "resetTimeWaitTimer c = (let (t, c) = newTimer c in c\<lparr>timeWaitTimer := Some t\<rparr>)"

definition startRtoTimer :: "VTcpConn \<Rightarrow> VTcpConn" where
  "startRtoTimer c =
     (if rtoTimer c = None
      then let (t, c) = newTimer c in c\<lparr>rtoTimer := Some t, rtoG := RtoTop\<rparr>
      else c)"

definition resetRtoTimer :: "VTcpConn \<Rightarrow> VTcpConn" where
  "resetRtoTimer c = (let (t, c) = newTimer c in c\<lparr>rtoTimer := Some t\<rparr>)"

definition ALPHA :: real where "ALPHA = 9 / 10"

fun updateSrtt :: "int \<Rightarrow> rtoEntry list \<Rightarrow> VTcpConn \<Rightarrow> VTcpConn" where
  "updateSrtt currTime [] c = c"
| "updateSrtt currTime (entry # entries) c =
     (let Rtt = currTime - eStart entry
      in updateSrtt currTime entries
           (c\<lparr>srtt := ALPHA * srtt c + (1 - ALPHA) * real_of_int Rtt\<rparr>))"

section \<open>Sending segments\<close>

definition CreateTcpPacket :: "env \<Rightarrow> VTcpConn \<Rightarrow> u32 \<Rightarrow> u32 \<Rightarrow> u8 \<Rightarrow> byte list \<Rightarrow> TcpPacket" where
  "CreateTcpPacket E c seqNum ackNum flags payload =
     (let hdr = \<lparr>SrcPort = apPort (localAddr c), DstPort = apPort (remoteAddr c), SeqNum = seqNum,
                 AckNum = ackNum, DataOffset = of_nat TcpHeaderLen, Flags = flags,
                 WindowSize = advertiseWindowSize (tcb c), TcpChecksum = 0, UrgentPointer = 0\<rparr>;
          sum = ComputeTCPChecksum E hdr (apAddr (localAddr c)) (apAddr (remoteAddr c)) payload
      in \<lparr>TcpHdr = hdr\<lparr>TcpChecksum := sum\<rparr>, Payload = payload\<rparr>)"

text \<open>The two results of the call: the count, which an error makes negative, and the error.\<close>

definition SendTcp :: "env \<Rightarrow> Device \<Rightarrow> Addr \<Rightarrow> TcpPacket \<Rightarrow>
    ((int \<times> SendError option) \<times> effect list) option" where
  "SendTcp E d dst p =
     do {
       let ipPacketPayload = tcpEncode E (TcpHdr p) @ Payload p;
       (r, es) \<leftarrow> SendIP E d dst IpProtoTcp (slice_of ipPacketPayload);
       let (n, err) = (case r of Inl e \<Rightarrow> (0, Some e) | Inr n \<Rightarrow> (n, None));
       Some ((n - (int TcpHeaderLen + ipHeaderLen), err), CallSendTcp dst p # es)
     }"

definition sendTcpOn :: "env \<Rightarrow> TcpPacket \<Rightarrow> cst \<Rightarrow> ((int \<times> SendError option) \<times> cst) option" where
  "sendTcpOn E p s =
     do {
       (r, es) \<leftarrow> SendTcp E (dev s) (apAddr (remoteAddr (conn s))) p;
       Some (r, s\<lparr>out := out s @ es\<rparr>)
     }"

definition send :: "env \<Rightarrow> u32 \<Rightarrow> u32 \<Rightarrow> u8 \<Rightarrow> byte list \<Rightarrow> cst \<Rightarrow>
    ((int \<times> SendError option) \<times> cst) option" where
  "send E seqNum ackNum flags payload s =
     (let packet = CreateTcpPacket E (conn s) seqNum ackNum flags payload;
          s = (if has_flag flags SYN \<or> has_flag flags FIN \<or> length payload > 0
               then let entry = \<lparr>eSeqNum = seqNum, eFlags = flags, ePayload = payload, eStart = now s\<rparr>;
                        c = (conn s)\<lparr>queue := Push entry (queue (conn s))\<rparr>
                    in s\<lparr>conn := startRtoTimer c\<rparr>
               else s)
      in sendTcpOn E packet s)"

definition sendFlags :: "env \<Rightarrow> u32 \<Rightarrow> u32 \<Rightarrow> u8 \<Rightarrow> cst \<Rightarrow> ((int \<times> SendError option) \<times> cst) option" where
  "sendFlags E seqNum ackNum flags s = send E seqNum ackNum flags [] s"

definition sendAck :: "env \<Rightarrow> u32 \<Rightarrow> u32 \<Rightarrow> cst \<Rightarrow> ((int \<times> SendError option) \<times> cst) option" where
  "sendAck E seqNum ackNum s = sendFlags E seqNum ackNum ACK s"

definition sendSyn :: "env \<Rightarrow> cst \<Rightarrow> ((int \<times> SendError option) \<times> cst) option" where
  "sendSyn E s = sendFlags E (iss (tcb (conn s))) (irs (tcb (conn s))) SYN s"

definition sendRst :: "env \<Rightarrow> u32 \<Rightarrow> cst \<Rightarrow> ((int \<times> SendError option) \<times> cst) option" where
  "sendRst E ackNum s = sendTcpOn E (CreateTcpPacket E (conn s) 0 ackNum RST []) s"

section \<open>Acceptability of a segment\<close>

definition isAckCorrectBound :: "TCB \<Rightarrow> u32 \<Rightarrow> bool" where
  "isAckCorrectBound t ackNum = (\<not> (ackNum \<le> iss t \<or> ackNum > wrapFromIss t (sendNxt t)))"

definition isAckAcceptable :: "TCB \<Rightarrow> u32 \<Rightarrow> bool" where
  "isAckAcceptable t ackNum =
     (let wrappedUna = wrapFromIss t (sendUna t);
          wrappedSendNxt = wrapFromIss t (sendNxt t)
      in wrappedUna < ackNum \<and> ackNum \<le> wrappedSendNxt)"

definition isSegmentAcceptable :: "TCB \<Rightarrow> u32 \<Rightarrow> u32 \<Rightarrow> bool" where
  "isSegmentAcceptable t seqNum lenData =
     (let wrappedRCVNxt = wrapFromIrs t (rcvNxt t)
      in if lenData = 0 \<and> rcvWnd t = 0 then seqNum = wrappedRCVNxt
         else
           let startSegmentInWnd =
                 wrappedRCVNxt \<le> seqNum \<and> seqNum < wrappedRCVNxt + ucast (rcvWnd t)
           in if lenData = 0 \<and> rcvWnd t > 0 then startSegmentInWnd
              else if lenData > 0 \<and> rcvWnd t = 0 then False
              else
                let endSegmentNum = seqNum + lenData - 1;
                    endSegmentInWnd =
                      wrappedRCVNxt \<le> endSegmentNum \<and>
                      endSegmentNum < wrappedRCVNxt + ucast (rcvWnd t)
                in startSegmentInWnd \<or> endSegmentInWnd)"

section \<open>Handling a segment\<close>

datatype TcpError = ErrIncorrectAck | ErrConnectionReset | ErrInvalidAck | ErrSend SendError

text \<open>The unbuffered send on \<^verbatim>\<open>signalChannel\<close> completes only when the opener waits.\<close>

definition signalOpener :: "cst \<Rightarrow> cst option" where
  "signalOpener s =
     (if opener (conn s) then Some (s\<lparr>conn := (conn s)\<lparr>opener := False\<rparr>\<rparr>) else None)"

text \<open>The advance of \<^verbatim>\<open>SND.UNA\<close> and the cleaning of the queue, shared by two handlers.\<close>

definition advanceUna :: "u32 \<Rightarrow> cst \<Rightarrow> cst" where
  "advanceUna ackNum s =
     (let t = tcb (conn s);
          dist = wrappedDist (wrapFromIss t (sendUna t)) ackNum;
          t = t\<lparr>sendUna := sendUna t + ucast dist\<rparr>;
          (q, popped) = Cleanup t (queue (conn s));
          c = (conn s)\<lparr>tcb := t, queue := q\<rparr>;
          c = (if length popped > 0 then resetRtoTimer (updateSrtt (now s) popped c) else c)
      in s\<lparr>conn := c\<rparr>)"

text \<open>
  The window fields, and the non-blocking send on \<^verbatim>\<open>windowSendSignal\<close>: it is lost
  unless the send controller is at its receive.
\<close>

definition updateSendWnd :: "TCPFields \<Rightarrow> cst \<Rightarrow> cst" where
  "updateSendWnd hdr s =
     (let c = conn s;
          c = c\<lparr>tcb := (tcb c)\<lparr>sendWnd := WindowSize hdr, sendWl1 := SeqNum hdr, sendWl2 := AckNum hdr\<rparr>\<rparr>
      in s\<lparr>conn := (if heard s then windowSendSignal c else c)\<rparr>)"

text \<open>The part of \<^verbatim>\<open>handleSynSentState\<close> under \<^verbatim>\<open>flags&SYN == SYN\<close>.\<close>

definition synSentOpen :: "env \<Rightarrow> TCPFields \<Rightarrow> bool \<Rightarrow> cst \<Rightarrow> cst option" where
  "synSentOpen E hdr acceptable s =
     (let t = (tcb (conn s))\<lparr>rcvNxt := 1, rcvLbr := 1, irs := SeqNum hdr\<rparr>;
          s = s\<lparr>conn := (conn s)\<lparr>tcb := t\<rparr>\<rparr>;
          s = (if acceptable then advanceUna (AckNum hdr) s else s);
          t = tcb (conn s)
      in if wrapFromIss t (sendUna t) > iss t
         then do {
           let s = s\<lparr>conn := (conn s)\<lparr>status := Established\<rparr>\<rparr>;
           s \<leftarrow> signalOpener s;
           (_, s) \<leftarrow> sendAck E (wrapFromIss t (sendNxt t)) (wrapFromIrs t (rcvNxt t)) s;
           Some (updateSendWnd hdr s)
         }
         else do {
           (_, s) \<leftarrow> sendFlags E (iss t) (wrapFromIrs t (rcvNxt t)) (SYN + ACK) s;
           Some (s\<lparr>conn := (conn s)\<lparr>status := SynRecv\<rparr>\<rparr>)
         })"

definition handleSynSentState :: "env \<Rightarrow> TcpPacket \<Rightarrow> cst \<Rightarrow> (TcpError option \<times> cst) option" where
  "handleSynSentState E p s =
     (let hdr = TcpHdr p;
          flags = Flags hdr;
          t = tcb (conn s);
          wrappedSendNxt = wrapFromIss t (sendNxt t);
          wrappedUna = wrapFromIss t (sendUna t);
          isAck = has_flag flags ACK;
          acceptable = (isAck \<and> wrappedUna \<le> AckNum hdr \<and> AckNum hdr \<le> wrappedSendNxt)
      in if isAck \<and> (AckNum hdr \<le> iss t \<or> AckNum hdr > wrappedSendNxt)
         then do {
           (_, s) \<leftarrow> sendRst E (AckNum hdr) s;
           Some (Some ErrIncorrectAck, s)
         }
         else if isAck \<and> has_flag flags RST
         then (if acceptable then Some (Some ErrConnectionReset, closeDelete s) else Some (None, s))
         else if has_flag flags SYN
         then do { s \<leftarrow> synSentOpen E hdr acceptable s; Some (None, s) }
         else Some (None, s))"

text \<open>The branch of an acceptable acknowledgment, and the switch after it.\<close>

definition acceptAck :: "TCPFields \<Rightarrow> cst \<Rightarrow> cst" where
  "acceptAck hdr s =
     (let s = advanceUna (AckNum hdr) s;
          wl1 = sendWl1 (tcb (conn s));
          wl2 = sendWl2 (tcb (conn s))
      in if wl1 < SeqNum hdr \<or> (wl1 = SeqNum hdr \<and> wl2 \<le> AckNum hdr) then updateSendWnd hdr s
         else s)"

definition ackSwitch :: "bool \<Rightarrow> VTcpConn \<Rightarrow> VTcpConn" where
  "ackSwitch allAcked c =
     (case status c of
        FinWait1 \<Rightarrow> if allAcked then c\<lparr>status := FinWait2\<rparr> else c
      | Closing \<Rightarrow> if allAcked then startTimeOutTimer (c\<lparr>status := TimeWait\<rparr>) else c
      | _ \<Rightarrow> c)"

definition handleAckOtherStates :: "env \<Rightarrow> TcpPacket \<Rightarrow> cst \<Rightarrow> (TcpError option \<times> cst) option" where
  "handleAckOtherStates E p s =
     (let hdr = TcpHdr p;
          t = tcb (conn s);
          wrappedSendNxt = wrapFromIss t (sendNxt t);
          wrappedSendUna = wrapFromIss t (sendUna t);
          wrappedRcvNxt = wrapFromIrs t (rcvNxt t);
          allAcked = (AckNum hdr = wrappedSendNxt)
      in if isAckAcceptable t (AckNum hdr)
         then let s = acceptAck hdr s in Some (None, s\<lparr>conn := ackSwitch allAcked (conn s)\<rparr>)
         else if AckNum hdr \<le> wrappedSendUna
         then Some (None, s\<lparr>conn := ackSwitch allAcked (conn s)\<rparr>)
         else if AckNum hdr > wrappedSendNxt
         then do {
           (_, s) \<leftarrow> sendAck E wrappedSendNxt wrappedRcvNxt s;
           Some (Some ErrInvalidAck, s)
         }
         else Some (None, s\<lparr>conn := ackSwitch allAcked (conn s)\<rparr>))"

definition finSwitch :: "bool \<Rightarrow> VTcpConn \<Rightarrow> VTcpConn" where
  "finSwitch allAcked c =
     (case status c of
        Established \<Rightarrow> c\<lparr>status := CloseWait\<rparr>
      | FinWait1 \<Rightarrow>
          if allAcked then startTimeOutTimer (c\<lparr>status := TimeWait\<rparr>) else c\<lparr>status := Closing\<rparr>
      | FinWait2 \<Rightarrow> startTimeOutTimer (c\<lparr>status := TimeWait\<rparr>)
      | TimeWait \<Rightarrow> resetTimeWaitTimer c
      | _ \<Rightarrow> c)"

text \<open>The FIN moves \<^verbatim>\<open>RCV.NXT\<close> past its own sequence number.\<close>

definition consumeFin :: "u32 \<Rightarrow> TCB \<Rightarrow> TCB" where
  "consumeFin seqNum t =
     t\<lparr>rcvNxt := rcvNxt t + ucast (wrappedDist (wrapFromIrs t (rcvNxt t)) (seqNum + 1))\<rparr>"

definition handleFinOtherStates :: "env \<Rightarrow> TcpPacket \<Rightarrow> cst \<Rightarrow> cst option" where
  "handleFinOtherStates E p s =
     (let hdr = TcpHdr p;
          wrappedSendNxt = wrapFromIss (tcb (conn s)) (sendNxt (tcb (conn s)));
          t = consumeFin (SeqNum hdr) (tcb (conn s))
      in do {
           (_, s) \<leftarrow> sendAck E wrappedSendNxt (wrapFromIrs t (rcvNxt t))
                       (s\<lparr>conn := (conn s)\<lparr>tcb := t\<rparr>\<rparr>);
           Some (s\<lparr>conn := finSwitch (AckNum hdr = wrappedSendNxt) (conn s)\<rparr>)
         })"

text \<open>
  The part of \<^verbatim>\<open>handleOtherStates\<close> under \<^verbatim>\<open>flags&ACK == ACK\<close>: an acknowledgment
  of the SYN opens the connection, and the switch on the state follows, whose flag says
  that the handler returned from inside it.
\<close>

definition openOnAck :: "TCPFields \<Rightarrow> u32 \<Rightarrow> u32 \<Rightarrow> cst \<Rightarrow> cst option" where
  "openOnAck hdr wrappedSendUna wrappedSendNxt s =
     (if status (conn s) = SynRecv \<and> wrappedSendUna \<le> AckNum hdr \<and> AckNum hdr \<le> wrappedSendNxt
      then signalOpener (s\<lparr>conn := (conn s)\<lparr>status := Established\<rparr>\<rparr>)
      else Some s)"

definition ackByStatus :: "env \<Rightarrow> TcpPacket \<Rightarrow> cst \<Rightarrow> (bool \<times> cst) option" where
  "ackByStatus E p s =
     (if status (conn s) = TimeWait
      then Some (False, if has_flag (Flags (TcpHdr p)) FIN
                        then s\<lparr>conn := resetTimeWaitTimer (conn s)\<rparr> else s)
      else if status (conn s) = LastAck then Some (True, closeDelete s)
      else do {
        (err, s) \<leftarrow> handleAckOtherStates E p s;
        Some (err \<noteq> None, s)
      })"

definition processAck :: "env \<Rightarrow> TcpPacket \<Rightarrow> u32 \<Rightarrow> u32 \<Rightarrow> cst \<Rightarrow> (bool \<times> cst) option" where
  "processAck E p wrappedSendUna wrappedSendNxt s =
     do {
       s \<leftarrow> openOnAck (TcpHdr p) wrappedSendUna wrappedSendNxt s;
       ackByStatus E p s
     }"

text \<open>
  The payload: the read controller takes it, and stores it before or after the
  acknowledgment is built.
\<close>

definition receivePayload :: "env \<Rightarrow> TcpPacket \<Rightarrow> u32 \<Rightarrow> cst \<Rightarrow> cst option" where
  "receivePayload E p wrappedSendNxt s =
     (let ackNum = SeqNum (TcpHdr p) + of_nat (length (Payload p))
      in if status (conn s) \<in> {Established, FinWait1, FinWait2} \<and> length (Payload p) > 0
         then do {
           c \<leftarrow> AddRead (Payload p) (conn s);
           let s = s\<lparr>conn := c\<rparr>;
           if early s
           then do {
             (_, s) \<leftarrow> sendAck E wrappedSendNxt ackNum s;
             Some (s\<lparr>conn := rcv_step (conn s)\<rparr>)
           }
           else do {
             (_, s) \<leftarrow> sendAck E wrappedSendNxt ackNum (s\<lparr>conn := rcv_step (conn s)\<rparr>);
             Some s
           }
         }
         else Some s)"

text \<open>An acceptable segment that does not reset the connection.\<close>

definition processRest :: "env \<Rightarrow> TcpPacket \<Rightarrow> u32 \<Rightarrow> cst \<Rightarrow> cst option" where
  "processRest E p wrappedSendNxt s =
     do {
       s \<leftarrow> receivePayload E p wrappedSendNxt s;
       if has_flag (Flags (TcpHdr p)) FIN then handleFinOtherStates E p s else Some s
     }"

definition processSegment :: "env \<Rightarrow> TcpPacket \<Rightarrow> cst \<Rightarrow> cst option" where
  "processSegment E p s =
     (let t = tcb (conn s);
          wrappedSendNxt = wrapFromIss t (sendNxt t);
          wrappedSendUna = wrapFromIss t (sendUna t)
      in if has_flag (Flags (TcpHdr p)) ACK
         then do {
           (returned, s) \<leftarrow> processAck E p wrappedSendUna wrappedSendNxt s;
           if returned then Some s else processRest E p wrappedSendNxt s
         }
         else processRest E p wrappedSendNxt s)"

definition handleOtherStates :: "env \<Rightarrow> TcpPacket \<Rightarrow> cst \<Rightarrow> (TcpError option \<times> cst) option" where
  "handleOtherStates E p s =
     (let hdr = TcpHdr p;
          flags = Flags hdr;
          t = tcb (conn s);
          wrappedRcvNxt = wrapFromIrs t (rcvNxt t);
          wrappedSendNxt = wrapFromIss t (sendNxt t)
      in if isSegmentAcceptable t (SeqNum hdr) (of_nat (length (Payload p)))
         then
           if has_flag flags RST \<and> SeqNum hdr = wrappedRcvNxt
           then do {
             (_, s) \<leftarrow> sendRst E (SeqNum hdr) s;
             Some (Some ErrConnectionReset, closeDelete s)
           }
           else do { s \<leftarrow> processSegment E p s; Some (None, s) }
         else if has_flag flags RST then Some (None, s)
         else do {
           ((_, err), s) \<leftarrow> send E wrappedSendNxt wrappedRcvNxt ACK [] s;
           Some (map_option ErrSend err, s)
         })"

definition handleConnStatus :: "env \<Rightarrow> TcpPacket \<Rightarrow> cst \<Rightarrow> (TcpError option \<times> cst) option" where
  "handleConnStatus E p s =
     (case status (conn s) of
        Closed \<Rightarrow> Some (None, s)
      | Listen \<Rightarrow> Some (None, s)
      | SynSent \<Rightarrow> handleSynSentState E p s
      | _ \<Rightarrow> handleOtherStates E p s)"

section \<open>Closing\<close>

text \<open>\<^verbatim>\<open>VClose\<close> of a connection; the error \<^verbatim>\<open>errClosing\<close> is a refused close.\<close>

datatype CloseError = ErrClosing | ErrCloseSend SendError

definition VClose :: "env \<Rightarrow> cst \<Rightarrow> (CloseError option \<times> cst) option" where
  "VClose E s =
     (let t = tcb (conn s);
          wrappedSendNxt = wrapFromIss t (sendNxt t);
          wrappedRcvNxt = wrapFromIrs t (rcvNxt t);
          sendFin = (\<lambda>st. do {
            let s = s\<lparr>conn := (conn s)\<lparr>status := st, tcb := t\<lparr>sendNxt := sendNxt t + 1\<rparr>\<rparr>\<rparr>;
            ((_, err), s) \<leftarrow> sendFlags E wrappedSendNxt wrappedRcvNxt (FIN + ACK) s;
            Some (map_option ErrCloseSend err, s)
          })
      in case status (conn s) of
           SynSent \<Rightarrow> Some (None, closeDelete s)
         | FinWait2 \<Rightarrow> Some (Some ErrClosing, s)
         | TimeWait \<Rightarrow> Some (Some ErrClosing, s)
         | CloseWait \<Rightarrow> sendFin LastAck
         | _ \<Rightarrow> sendFin FinWait1)"

section \<open>The goroutines of a connection\<close>

text \<open>\<^verbatim>\<open>timeWaitTimeout\<close>, when the timer it waits on fires.\<close>

definition timeWaitTimeout :: "nat \<Rightarrow> cst \<Rightarrow> cst option" where
  "timeWaitTimeout n s =
     (if n \<in> set (timeWaitG (conn s))
      then Some (closeDelete (s\<lparr>conn := (conn s)\<lparr>timeWaitG := removeAll n (timeWaitG (conn s))\<rparr>\<rparr>))
      else None)"

text \<open>
  \<^verbatim>\<open>rtoTimeout\<close>: from the top of its loop to the wait (a nil timer panics), and from the
  tick of the timer it waits on, which comes once, back to the top.
\<close>

definition rto_top :: "VTcpConn \<Rightarrow> VTcpConn option" where
  "rto_top c =
     (if status c = Closed then Some (c\<lparr>rtoG := RtoReturned\<rparr>)
      else map_option (\<lambda>n. c\<lparr>rtoG := RtoWaiting n\<rparr>) (rtoTimer c))"

definition rto_fire :: "env \<Rightarrow> nat \<Rightarrow> cst \<Rightarrow> cst option" where
  "rto_fire E n s =
     (if rtoG (conn s) = RtoWaiting n \<and> n \<notin> set (rtoDrained (conn s))
      then
        let s = s\<lparr>conn := (conn s)\<lparr>rtoDrained := n # rtoDrained (conn s), rtoG := RtoTop\<rparr>\<rparr>;
            t = tcb (conn s)
        in case Peek (Items (queue (conn s))) of
             None \<Rightarrow> Some s
           | Some entry \<Rightarrow>
               let packet = CreateTcpPacket E (conn s) (eSeqNum entry) (wrapFromIrs t (rcvNxt t))
                              (eFlags entry) (ePayload entry)
               in do {
                 (_, s) \<leftarrow> sendTcpOn E packet s;
                 Some (s\<lparr>conn := resetRtoTimer (conn s)\<rparr>)
               }
      else None)"

text \<open>\<^verbatim>\<open>windowProbing\<close>: one payload received on \<^verbatim>\<open>windowProbeChan\<close>.\<close>

definition windowProbing :: "env \<Rightarrow> byte list \<Rightarrow> cst \<Rightarrow> cst option" where
  "windowProbing E payload s =
     (let t = tcb (conn s)
      in map_option snd
           (sendTcpOn E (CreateTcpPacket E (conn s) (wrapFromIss t (sendNxt t))
              (wrapFromIrs t (rcvNxt t)) ACK payload) s))"

section \<open>A sample connection\<close>

text \<open>A sample connection of the sample host, and the state a handler runs on.\<close>

definition exConn :: "Status \<Rightarrow> TCB \<Rightarrow> VTcpConn" where
  "exConn st t =
     \<lparr>remoteAddr = AddrPortFrom (V4 0x0A0A0102) 80, localAddr = AddrPortFrom (V4 0x0A010001) 20000,
      status = st, tcb = t, timeWaitTimer = None, rtoTimer = None, srtt = 0, queue = [], timerSeq = 0,
      rtoG = RtoNotStarted, rtoDrained = [], timeWaitG = [], opener = True, rcvCtl = RReady,
      sndCtl = SReady\<rparr>"

definition exState :: "VTcpConn \<Rightarrow> cst" where
  "exState c = \<lparr>dev = exDevice, conn = c, out = [], now = 0, early = False, heard = False\<rparr>"

definition exSegment :: "u32 \<Rightarrow> u32 \<Rightarrow> u8 \<Rightarrow> byte list \<Rightarrow> TcpPacket" where
  "exSegment seqNum ackNum flags payload =
     \<lparr>TcpHdr = \<lparr>SrcPort = 80, DstPort = 20000, SeqNum = seqNum, AckNum = ackNum, DataOffset = 20,
        Flags = flags, WindowSize = 1000, TcpChecksum = 0, UrgentPointer = 0\<rparr>, Payload = payload\<rparr>"

lemma exState_simps [simp]:
  "conn (exState c) = c" "dev (exState c) = exDevice" "out (exState c) = []"
  "status (exConn st t) = st" "tcb (exConn st t) = t" "opener (exConn st t)" "rcvCtl (exConn st t) = RReady"
  "TcpHdr (exSegment q a f b) = \<lparr>SrcPort = 80, DstPort = 20000, SeqNum = q, AckNum = a, DataOffset = 20,
        Flags = f, WindowSize = 1000, TcpChecksum = 0, UrgentPointer = 0\<rparr>"
  "Payload (exSegment q a f b) = b"
  by (simp_all add: exState_def exConn_def exSegment_def)

end
