(* ===== verification/Segments.thy ===== *)
theory Segments
  imports Conn
begin

text \<open>
  What the segment handlers do, in every case: what each sends, which moves of the state
  machine it can make, that it returns, and when a segment or an acknowledgment counts as
  acceptable.
\<close>

section \<open>The segments a run sends\<close>

definition segs :: "effect list \<Rightarrow> TcpPacket list" where
  "segs es = List.map_filter (\<lambda>e. case e of CallSendTcp dst p \<Rightarrow> Some p | _ \<Rightarrow> None) es"

lemma segs_Nil [simp]: "segs [] = []"
  by (simp add: segs_def map_filter_simps)

lemma segs_append [simp]: "segs (xs @ ys) = segs xs @ segs ys"
  by (simp add: segs_def map_filter_def)

lemma segs_call [simp]: "segs (CallSendTcp dst p # es) = p # segs es"
  by (simp add: segs_def map_filter_simps)

lemma segs_udp [simp]: "segs (UdpWrite i a b # es) = segs es" "segs (GoHandler q # es) = segs es"
  by (simp_all add: segs_def map_filter_simps)

lemma sendPacket_segs:
  assumes "sendPacket E d p = Some (r, es)"
  shows "segs es = []"
  using assms
  by (auto simp: sendPacket_def Let_def bind_eq_Some_conv split: sum.splits if_splits option.splits)

lemma SendIP_segs: "SendIP E d dst proto data = Some (r, es) \<Longrightarrow> segs es = []"
  by (auto simp: SendIP_def bind_eq_Some_conv split: if_splits sum.splits dest: sendPacket_segs)

lemma SendTcp_Some:
  assumes "SendTcp E d dst p = Some (r, es)"
  shows "\<exists>es'. es = CallSendTcp dst p # es' \<and> segs es' = []"
proof -
  from assms obtain r' es' where
    s: "SendIP E d dst IpProtoTcp (slice_of (tcpEncode E (TcpHdr p) @ Payload p)) = Some (r', es')"
    by (auto simp: SendTcp_def bind_eq_Some_conv)
  with assms have "es = CallSendTcp dst p # es'"
    by (cases r') (simp_all add: SendTcp_def)
  with SendIP_segs [OF s] show ?thesis by simp
qed

lemma SendTcp_total:
  assumes "env_total E" "device_ok d"
  shows "\<exists>r es. SendTcp E d dst p = Some (r, CallSendTcp dst p # es) \<and> segs es = []"
proof -
  obtain r es where "SendIP E d dst IpProtoTcp (slice_of (tcpEncode E (TcpHdr p) @ Payload p)) = Some (r, es)"
    using SendIP_total [OF assms] by blast
  moreover from this have "segs es = []" by (rule SendIP_segs)
  ultimately show ?thesis by (cases r) (simp_all add: SendTcp_def)
qed

lemma sendTcpOn_Some:
  "sendTcpOn E p s = Some (r, s') \<Longrightarrow> \<exists>es. s' = s\<lparr>out := out s @ es\<rparr> \<and> segs es = [p]"
  by (auto simp: sendTcpOn_def bind_eq_Some_conv dest!: SendTcp_Some)

lemma sendTcpOn_total:
  assumes "env_total E" "device_ok (dev s)"
  shows "\<exists>r es. sendTcpOn E p s = Some (r, s\<lparr>out := out s @ es\<rparr>) \<and> segs es = [p]"
  using SendTcp_total [OF assms, of "apAddr (remoteAddr (conn s))" p]
  by (auto simp: sendTcpOn_def) (metis segs_call)

text \<open>What \<^const>\<open>send\<close> does to the connection.\<close>

definition enqueue :: "int \<Rightarrow> u32 \<Rightarrow> u8 \<Rightarrow> byte list \<Rightarrow> VTcpConn \<Rightarrow> VTcpConn" where
  "enqueue t seqNum flags payload c =
     (if has_flag flags SYN \<or> has_flag flags FIN \<or> length payload > 0
      then startRtoTimer
        (c\<lparr>queue := Push \<lparr>eSeqNum = seqNum, eFlags = flags, ePayload = payload, eStart = t\<rparr> (queue c)\<rparr>)
      else c)"

lemma send_eq:
  "send E q a f payload s =
     sendTcpOn E (CreateTcpPacket E (conn s) q a f payload)
       (s\<lparr>conn := enqueue (now s) q f payload (conn s)\<rparr>)"
  by (simp add: send_def enqueue_def Let_def)

lemma send_Some:
  assumes "send E q a f payload s = Some (r, s')"
  shows "\<exists>es. s' = s\<lparr>conn := enqueue (now s) q f payload (conn s), out := out s @ es\<rparr> \<and>
    segs es = [CreateTcpPacket E (conn s) q a f payload]"
  using sendTcpOn_Some [of E _ _ r s'] assms by (fastforce simp: send_eq)

lemma send_total:
  assumes "env_total E" "device_ok (dev s)"
  shows "\<exists>r es. send E q a f payload s =
      Some (r, s\<lparr>conn := enqueue (now s) q f payload (conn s), out := out s @ es\<rparr>) \<and>
    segs es = [CreateTcpPacket E (conn s) q a f payload]"
  using sendTcpOn_total [OF assms(1), of "s\<lparr>conn := enqueue (now s) q f payload (conn s)\<rparr>"] assms(2)
  by (fastforce simp: send_eq)

text \<open>An acknowledgment is not retransmitted.\<close>

lemma enqueue_ack [simp]: "enqueue t q ACK [] c = c"
  by (simp add: enqueue_def has_flag_def tcp_flag_defs)

lemma sendAck_eq: "sendAck E q a s = send E q a ACK [] s"
  by (simp add: sendAck_def sendFlags_def)

lemma sendRst_eq: "sendRst E a s = sendTcpOn E (CreateTcpPacket E (conn s) 0 a RST []) s"
  by (simp add: sendRst_def)

lemma startRtoTimer_frame [simp]:
  "status (startRtoTimer c) = status c" "tcb (startRtoTimer c) = tcb c"
  "queue (startRtoTimer c) = queue c" "opener (startRtoTimer c) = opener c"
  "rcvCtl (startRtoTimer c) = rcvCtl c" "sndCtl (startRtoTimer c) = sndCtl c"
  "localAddr (startRtoTimer c) = localAddr c" "remoteAddr (startRtoTimer c) = remoteAddr c"
  by (simp_all add: startRtoTimer_def newTimer_def)

lemma enqueue_frame [simp]:
  "status (enqueue t q f b c) = status c" "tcb (enqueue t q f b c) = tcb c"
  "opener (enqueue t q f b c) = opener c" "rcvCtl (enqueue t q f b c) = rcvCtl c"
  "sndCtl (enqueue t q f b c) = sndCtl c"
  "localAddr (enqueue t q f b c) = localAddr c" "remoteAddr (enqueue t q f b c) = remoteAddr c"
  by (simp_all add: enqueue_def)

lemma timer_frame [simp]:
  "status (startTimeOutTimer c) = status c" "tcb (startTimeOutTimer c) = tcb c"
  "opener (startTimeOutTimer c) = opener c" "rcvCtl (startTimeOutTimer c) = rcvCtl c"
  "queue (startTimeOutTimer c) = queue c"
  "localAddr (startTimeOutTimer c) = localAddr c" "remoteAddr (startTimeOutTimer c) = remoteAddr c"
  "status (resetTimeWaitTimer c) = status c" "tcb (resetTimeWaitTimer c) = tcb c"
  "opener (resetTimeWaitTimer c) = opener c" "rcvCtl (resetTimeWaitTimer c) = rcvCtl c"
  "queue (resetTimeWaitTimer c) = queue c"
  "localAddr (resetTimeWaitTimer c) = localAddr c" "remoteAddr (resetTimeWaitTimer c) = remoteAddr c"
  "status (resetRtoTimer c) = status c" "tcb (resetRtoTimer c) = tcb c"
  "opener (resetRtoTimer c) = opener c" "rcvCtl (resetRtoTimer c) = rcvCtl c"
  "queue (resetRtoTimer c) = queue c"
  "localAddr (resetRtoTimer c) = localAddr c" "remoteAddr (resetRtoTimer c) = remoteAddr c"
  by (simp_all add: startTimeOutTimer_def resetTimeWaitTimer_def resetRtoTimer_def newTimer_def)

lemma updateSrtt_frame [simp]:
  "status (updateSrtt t es c) = status c" "tcb (updateSrtt t es c) = tcb c"
  "opener (updateSrtt t es c) = opener c" "rcvCtl (updateSrtt t es c) = rcvCtl c"
  "sndCtl (updateSrtt t es c) = sndCtl c" "queue (updateSrtt t es c) = queue c"
  "localAddr (updateSrtt t es c) = localAddr c" "remoteAddr (updateSrtt t es c) = remoteAddr c"
  by (induction t es c rule: updateSrtt.induct) (simp_all add: Let_def)

lemma rcv_step_frame [simp]:
  "status (rcv_step c) = status c" "opener (rcv_step c) = opener c" "queue (rcv_step c) = queue c"
  "localAddr (rcv_step c) = localAddr c" "remoteAddr (rcv_step c) = remoteAddr c"
  by (simp_all add: rcv_step_def Let_def split: rcv_ctl.split prod.split)

lemma windowSendSignal_frame [simp]:
  "status (windowSendSignal c) = status c" "opener (windowSendSignal c) = opener c"
  "queue (windowSendSignal c) = queue c" "tcb (windowSendSignal c) = tcb c"
  "rcvCtl (windowSendSignal c) = rcvCtl c"
  "localAddr (windowSendSignal c) = localAddr c" "remoteAddr (windowSendSignal c) = remoteAddr c"
  by (simp_all add: windowSendSignal_def split: snd_ctl.split)

lemma advanceUna_frame [simp]:
  "dev (advanceUna a s) = dev s" "out (advanceUna a s) = out s" "now (advanceUna a s) = now s"
  "early (advanceUna a s) = early s" "heard (advanceUna a s) = heard s"
  "status (conn (advanceUna a s)) = status (conn s)" "opener (conn (advanceUna a s)) = opener (conn s)"
  "rcvCtl (conn (advanceUna a s)) = rcvCtl (conn s)"
  "localAddr (conn (advanceUna a s)) = localAddr (conn s)"
  "remoteAddr (conn (advanceUna a s)) = remoteAddr (conn s)"
  by (simp_all add: advanceUna_def Let_def split: prod.split)

lemma advanceUna_tcb:
  "tcb (conn (advanceUna a s)) =
     (let t = tcb (conn s)
      in t\<lparr>sendUna := sendUna t + ucast (wrappedDist (wrapFromIss t (sendUna t)) a)\<rparr>)"
  by (simp add: advanceUna_def Let_def split: prod.split)

lemma updateSendWnd_frame [simp]:
  "dev (updateSendWnd h s) = dev s" "out (updateSendWnd h s) = out s" "now (updateSendWnd h s) = now s"
  "early (updateSendWnd h s) = early s" "heard (updateSendWnd h s) = heard s"
  "status (conn (updateSendWnd h s)) = status (conn s)"
  "opener (conn (updateSendWnd h s)) = opener (conn s)"
  "rcvCtl (conn (updateSendWnd h s)) = rcvCtl (conn s)"
  "queue (conn (updateSendWnd h s)) = queue (conn s)"
  "localAddr (conn (updateSendWnd h s)) = localAddr (conn s)"
  "remoteAddr (conn (updateSendWnd h s)) = remoteAddr (conn s)"
  by (simp_all add: updateSendWnd_def Let_def)

lemma updateSendWnd_tcb:
  "tcb (conn (updateSendWnd h s)) =
     (tcb (conn s))\<lparr>sendWnd := WindowSize h, sendWl1 := SeqNum h, sendWl2 := AckNum h\<rparr>"
  by (simp add: updateSendWnd_def Let_def)

lemma closeDelete_status [simp]:
  "status (conn (closeDelete s)) = Closed" "queue (conn (closeDelete s)) = []"
  "out (closeDelete s) = out s" "rtoTimer (conn (closeDelete s)) = None"
  by (simp_all add: closeDelete_def Let_def)

section \<open>The state machine\<close>

lemma send_state:
  assumes "send E q a f b s = Some (r, s')"
  shows "status (conn s') = status (conn s)" "tcb (conn s') = tcb (conn s)" "dev s' = dev s"
    "opener (conn s') = opener (conn s)" "rcvCtl (conn s') = rcvCtl (conn s)" "now s' = now s"
    "early s' = early s" "heard s' = heard s"
  using send_Some [OF assms] by auto

lemma sendAck_Some:
  assumes "sendAck E q a s = Some (r, s')"
  shows "\<exists>es. s' = s\<lparr>out := out s @ es\<rparr> \<and> segs es = [CreateTcpPacket E (conn s) q a ACK []]"
  using send_Some [OF assms [unfolded sendAck_eq]] by (cases s) simp

lemma sendAck_total:
  assumes "env_total E" "device_ok (dev s)"
  shows "\<exists>r es. sendAck E q a s = Some (r, s\<lparr>out := out s @ es\<rparr>) \<and>
    segs es = [CreateTcpPacket E (conn s) q a ACK []]"
  using send_total [OF assms, of q a ACK "[]"] by (cases s) (simp add: sendAck_eq)

lemma sendRst_state:
  assumes "sendRst E a s = Some (r, s')"
  shows "conn s' = conn s" "dev s' = dev s"
  using sendTcpOn_Some [OF assms [unfolded sendRst_eq]] by auto

lemma signalOpener_state:
  "signalOpener s = Some s' \<Longrightarrow> s' = s\<lparr>conn := (conn s)\<lparr>opener := False\<rparr>\<rparr> \<and> opener (conn s)"
  by (auto simp: signalOpener_def split: if_splits)

text \<open>The edges that acknowledgments, FINs and the handlers as a whole may follow.\<close>

definition ack_edges :: "(Status \<times> Status) set" where
  "ack_edges = {(FinWait1, FinWait2), (Closing, TimeWait)}"

definition fin_edges :: "(Status \<times> Status) set" where
  "fin_edges = {(Established, CloseWait), (FinWait1, TimeWait), (FinWait1, Closing), (FinWait2, TimeWait)}"

definition tcp_edges :: "(Status \<times> Status) set" where
  "tcp_edges =
     {(SynSent, Established), (SynSent, SynRecv), (SynRecv, Established), (SynRecv, CloseWait)}
     \<union> ack_edges \<union> fin_edges \<union>
     {(st, Closed) | st. st \<noteq> Closed \<and> st \<noteq> Listen}"

lemma acceptAck_frame [simp]:
  "dev (acceptAck h s) = dev s" "out (acceptAck h s) = out s" "now (acceptAck h s) = now s"
  "early (acceptAck h s) = early s" "heard (acceptAck h s) = heard s"
  "status (conn (acceptAck h s)) = status (conn s)" "opener (conn (acceptAck h s)) = opener (conn s)"
  "rcvCtl (conn (acceptAck h s)) = rcvCtl (conn s)"
  "localAddr (conn (acceptAck h s)) = localAddr (conn s)"
  "remoteAddr (conn (acceptAck h s)) = remoteAddr (conn s)"
  by (simp_all add: acceptAck_def Let_def)

lemma ackSwitch_frame [simp]:
  "tcb (ackSwitch b c) = tcb c" "opener (ackSwitch b c) = opener c" "rcvCtl (ackSwitch b c) = rcvCtl c"
  "localAddr (ackSwitch b c) = localAddr c" "remoteAddr (ackSwitch b c) = remoteAddr c"
  by (simp_all add: ackSwitch_def split: Status.split)

lemma ackSwitch_status: "(status c, status (ackSwitch b c)) \<in> ack_edges\<^sup>="
  by (simp add: ackSwitch_def ack_edges_def split: Status.split)

lemma finSwitch_frame [simp]:
  "tcb (finSwitch b c) = tcb c" "opener (finSwitch b c) = opener c" "rcvCtl (finSwitch b c) = rcvCtl c"
  "localAddr (finSwitch b c) = localAddr c" "remoteAddr (finSwitch b c) = remoteAddr c"
  by (simp_all add: finSwitch_def split: Status.split)

lemma finSwitch_status: "(status c, status (finSwitch b c)) \<in> fin_edges\<^sup>="
  by (simp add: finSwitch_def fin_edges_def split: Status.split)

text \<open>The two outcomes of an acknowledgment: refused with an ACK, or taken.\<close>

lemma handleAck_cases:
  assumes "handleAckOtherStates E p s = Some (err, s')"
  obtains r where "sendAck E (wrapFromIss (tcb (conn s)) (sendNxt (tcb (conn s))))
       (wrapFromIrs (tcb (conn s)) (rcvNxt (tcb (conn s)))) s = Some (r, s')" "err = Some ErrInvalidAck"
  | s1 b where "s1 = s \<or> s1 = acceptAck (TcpHdr p) s" "s' = s1\<lparr>conn := ackSwitch b (conn s1)\<rparr>" "err = None"
  using assms by (auto simp: handleAckOtherStates_def Let_def bind_eq_Some_conv split: if_splits)

lemma handleAck_state:
  assumes "handleAckOtherStates E p s = Some (err, s')"
  shows "dev s' = dev s" "(status (conn s), status (conn s')) \<in> ack_edges\<^sup>="
    "rcvCtl (conn s') = rcvCtl (conn s)" "opener (conn s') = opener (conn s)"
    "now s' = now s" "early s' = early s" "heard s' = heard s"
    "localAddr (conn s') = localAddr (conn s)" "remoteAddr (conn s') = remoteAddr (conn s)"
proof -
  have "dev s' = dev s \<and> (status (conn s), status (conn s')) \<in> ack_edges\<^sup>= \<and>
    rcvCtl (conn s') = rcvCtl (conn s) \<and> opener (conn s') = opener (conn s) \<and>
    now s' = now s \<and> early s' = early s \<and> heard s' = heard s \<and>
    localAddr (conn s') = localAddr (conn s) \<and> remoteAddr (conn s') = remoteAddr (conn s)"
    using assms
  proof (cases rule: handleAck_cases)
    case (1 r)
    from sendAck_Some [OF 1(1)] show ?thesis by auto
  next
    case (2 s1 b)
    then show ?thesis using ackSwitch_status [of "conn s1" b] by auto
  qed
  then show "dev s' = dev s" "(status (conn s), status (conn s')) \<in> ack_edges\<^sup>="
    "rcvCtl (conn s') = rcvCtl (conn s)" "opener (conn s') = opener (conn s)"
    "now s' = now s" "early s' = early s" "heard s' = heard s"
    "localAddr (conn s') = localAddr (conn s)" "remoteAddr (conn s') = remoteAddr (conn s)"
    by simp_all
qed

lemma handleFin_Some:
  assumes "handleFinOtherStates E p s = Some s'"
  obtains es b where
    "s' = s\<lparr>out := out s @ es,
            conn := finSwitch b ((conn s)\<lparr>tcb := consumeFin (SeqNum (TcpHdr p)) (tcb (conn s))\<rparr>)\<rparr>"
    "b = (AckNum (TcpHdr p) = wrapFromIss (tcb (conn s)) (sendNxt (tcb (conn s))))"
  using assms by (auto simp: handleFinOtherStates_def Let_def bind_eq_Some_conv dest!: sendAck_Some)

lemma handleFin_status:
  assumes "handleFinOtherStates E p s = Some s'"
  shows "(status (conn s), status (conn s')) \<in> fin_edges\<^sup>="
proof -
  obtain es b where "s' = s\<lparr>out := out s @ es,
      conn := finSwitch b ((conn s)\<lparr>tcb := consumeFin (SeqNum (TcpHdr p)) (tcb (conn s))\<rparr>)\<rparr>"
    using assms by (rule handleFin_Some)
  with finSwitch_status [of "(conn s)\<lparr>tcb := consumeFin (SeqNum (TcpHdr p)) (tcb (conn s))\<rparr>" b]
  show ?thesis by simp
qed

lemma openOnAck_cases:
  assumes "openOnAck h una nxt s = Some s'"
  shows "s' = s \<or> status (conn s) = SynRecv \<and> opener (conn s) \<and>
    s' = s\<lparr>conn := (conn s)\<lparr>status := Established, opener := False\<rparr>\<rparr>"
  using assms by (auto simp: openOnAck_def split: if_splits dest: signalOpener_state)

lemma ackByStatus_status:
  assumes "ackByStatus E p s = Some (ret, s')"
  shows "(status (conn s), status (conn s')) \<in> {(LastAck, Closed)} \<union> ack_edges\<^sup>="
  using assms by (auto simp: ackByStatus_def bind_eq_Some_conv split: if_splits dest: handleAck_state(2))

lemma processAck_status:
  assumes "processAck E p una nxt s = Some (ret, s')"
  shows "(status (conn s), status (conn s')) \<in>
    {(SynRecv, Established), (LastAck, Closed)} \<union> ack_edges\<^sup>="
  using assms
  by (auto simp: processAck_def bind_eq_Some_conv ack_edges_def
      dest!: openOnAck_cases ackByStatus_status)

lemma receivePayload_status:
  "receivePayload E p nxt s = Some s' \<Longrightarrow> status (conn s') = status (conn s)"
  by (auto simp: receivePayload_def AddRead_def Let_def bind_eq_Some_conv
      split: if_splits dest!: sendAck_Some)

lemma processRest_status:
  "processRest E p nxt s = Some s' \<Longrightarrow> (status (conn s), status (conn s')) \<in> fin_edges\<^sup>="
  unfolding processRest_def bind_eq_Some_conv
  by (auto split: if_splits dest!: receivePayload_status handleFin_status)

lemma tcp_edges_comp:
  assumes "(a, b) \<in> {(SynRecv, Established), (LastAck, Closed)} \<union> ack_edges\<^sup>=" "(b, c) \<in> fin_edges\<^sup>="
  shows "(a, c) \<in> tcp_edges\<^sup>="
  using assms by (auto simp: tcp_edges_def ack_edges_def fin_edges_def)

lemma processSegment_status:
  assumes "processSegment E p s = Some s'"
  shows "(status (conn s), status (conn s')) \<in> tcp_edges\<^sup>="
proof -
  obtain s1 :: cst where 1: "(status (conn s), status (conn s1)) \<in>
      {(SynRecv, Established), (LastAck, Closed)} \<union> ack_edges\<^sup>="
    and 2: "(status (conn s1), status (conn s')) \<in> fin_edges\<^sup>="
  proof (cases "has_flag (Flags (TcpHdr p)) ACK")
    case True
    with assms obtain ret s1 where
      a: "processAck E p (wrapFromIss (tcb (conn s)) (sendUna (tcb (conn s))))
        (wrapFromIss (tcb (conn s)) (sendNxt (tcb (conn s)))) s = Some (ret, s1)" and
      r: "(if ret then Some s1
         else processRest E p (wrapFromIss (tcb (conn s)) (sendNxt (tcb (conn s)))) s1) = Some s'"
      by (auto simp: processSegment_def Let_def bind_eq_Some_conv)
    from r processRest_status have "(status (conn s1), status (conn s')) \<in> fin_edges\<^sup>="
      by (cases ret) auto
    then show ?thesis by (rule that [OF processAck_status [OF a]])
  next
    case False
    with assms have "processRest E p (wrapFromIss (tcb (conn s)) (sendNxt (tcb (conn s)))) s = Some s'"
      by (simp add: processSegment_def Let_def)
    from processRest_status [OF this] show ?thesis by (rule that [of s, rotated]) simp
  qed
  then show ?thesis by (rule tcp_edges_comp)
qed

lemma handleOther_status:
  assumes "handleOtherStates E p s = Some (err, s')"
    and "status (conn s) \<notin> {Closed, Listen, SynSent}"
  shows "(status (conn s), status (conn s')) \<in> tcp_edges\<^sup>="
  using assms processSegment_status [of E p s s']
  by (auto simp: handleOtherStates_def Let_def bind_eq_Some_conv tcp_edges_def send_state
      split: if_splits)

lemma synSentOpen_status:
  "synSentOpen E h b s = Some s' \<Longrightarrow> status (conn s') \<in> {Established, SynRecv}"
  by (auto simp: synSentOpen_def Let_def bind_eq_Some_conv
      split: if_splits dest!: sendAck_Some signalOpener_state)

lemma handleSynSent_status:
  assumes "handleSynSentState E p s = Some (err, s')" "status (conn s) = SynSent"
  shows "(status (conn s), status (conn s')) \<in>
    {(SynSent, Established), (SynSent, SynRecv), (SynSent, Closed)}\<^sup>="
  using assms
  by (auto simp: handleSynSentState_def Let_def bind_eq_Some_conv sendRst_state
      split: if_splits dest!: synSentOpen_status)

lemma handleConnStatus_status:
  assumes "handleConnStatus E p s = Some (err, s')"
  shows "(status (conn s), status (conn s')) \<in> tcp_edges\<^sup>=" "status (conn s) \<in> {Closed, Listen} \<Longrightarrow> s' = s"
proof -
  show quiet: "s' = s" if "status (conn s) \<in> {Closed, Listen}"
    using that assms by (auto simp: handleConnStatus_def)
  consider (quiet) "status (conn s) \<in> {Closed, Listen}" | (syn) "status (conn s) = SynSent"
    | (other) "status (conn s) \<notin> {Closed, Listen, SynSent}"
    by blast
  then show "(status (conn s), status (conn s')) \<in> tcp_edges\<^sup>="
  proof cases
    case quiet
    then show ?thesis using \<open>status (conn s) \<in> {Closed, Listen} \<Longrightarrow> s' = s\<close> by simp
  next
    case syn
    with assms have "handleSynSentState E p s = Some (err, s')" by (simp add: handleConnStatus_def)
    from handleSynSent_status [OF this syn] syn show ?thesis by (auto simp: tcp_edges_def)
  next
    case other
    with assms have "handleOtherStates E p s = Some (err, s')"
      by (cases "status (conn s)") (simp_all add: handleConnStatus_def)
    from handleOther_status [OF this other] show ?thesis .
  qed
qed

text \<open>
  C12: the connection follows the TCP state machine.  Whatever segment arrives in whatever
  state, the handler leaves the connection in the same state or follows one of the listed
  edges; a closed connection never changes, and no segment opens one that is not being
  opened.
\<close>

theorem conn_follows_state_machine:
  assumes "handleConnStatus E p s = Some (err, s')"
  shows "(status (conn s), status (conn s')) \<in>
      {(SynSent, Established), (SynSent, SynRecv), (SynRecv, Established), (SynRecv, CloseWait),
       (Established, CloseWait), (FinWait1, FinWait2), (FinWait1, Closing), (FinWait1, TimeWait),
       (FinWait2, TimeWait), (Closing, TimeWait)}
      \<union> {(st, Closed) | st. st \<noteq> Listen} \<union> Id \<and>
    (status (conn s) \<in> {Closed, Listen} \<longrightarrow> s' = s)"
  using handleConnStatus_status [OF assms] by (auto simp: tcp_edges_def ack_edges_def fin_edges_def)

lemma exReset: "handleConnStatus E (exSegment 0 1 (RST + ACK) []) (exState (exConn SynSent (createTCB 0))) =
    Some (Some ErrConnectionReset, closeDelete (exState (exConn SynSent (createTCB 0))))"
proof -
  have f: "has_flag (RST + ACK) ACK" "has_flag (RST + ACK) RST"
    by (simp_all add: has_flag_def tcp_flag_defs)
  show ?thesis
    by (simp add: handleConnStatus_def handleSynSentState_def f wrapFromIss_def Let_def)
qed

theorem conn_follows_state_machine_witness:
  "status (conn (closeDelete (exState (exConn SynSent (createTCB 0))))) = Closed \<and>
   (SynSent, status (conn (closeDelete (exState (exConn SynSent (createTCB 0)))))) \<in>
      {(SynSent, Established), (SynSent, SynRecv), (SynRecv, Established), (SynRecv, CloseWait),
       (Established, CloseWait), (FinWait1, FinWait2), (FinWait1, Closing), (FinWait1, TimeWait),
       (FinWait2, TimeWait), (Closing, TimeWait)}
      \<union> {(st, Closed) | st. st \<noteq> Listen} \<union> Id"
  using conn_follows_state_machine [OF exReset [of exEnv]] by simp

section \<open>The handler returns\<close>

lemma sendRst_total:
  assumes "env_total E" "device_ok (dev s)"
  shows "\<exists>r es. sendRst E a s = Some (r, s\<lparr>out := out s @ es\<rparr>) \<and>
    segs es = [CreateTcpPacket E (conn s) 0 a RST []]"
  using sendTcpOn_total [OF assms] by (simp add: sendRst_eq)

lemma sendFlags_total:
  assumes "env_total E" "device_ok (dev s)"
  shows "\<exists>r es. sendFlags E q a f s =
      Some (r, s\<lparr>conn := enqueue (now s) q f [] (conn s), out := out s @ es\<rparr>) \<and>
    segs es = [CreateTcpPacket E (conn s) q a f []]"
  using send_total [OF assms] by (simp add: sendFlags_def)

lemma synSentOpen_total:
  assumes "env_total E" "device_ok (dev s)" "opener (conn s)"
  shows "\<exists>s'. synSentOpen E h b s = Some s'"
proof -
  let ?s = "s\<lparr>conn := (conn s)\<lparr>tcb := (tcb (conn s))\<lparr>rcvNxt := 1, rcvLbr := 1, irs := SeqNum h\<rparr>\<rparr>\<rparr>"
  define s1 where "s1 = (if b then advanceUna (AckNum h) ?s else ?s)"
  have 1: "device_ok (dev s1)" "opener (conn s1)"
    using assms(2,3) by (simp_all add: s1_def)
  let ?t = "tcb (conn s1)"
  have d: "synSentOpen E h b s =
     (if wrapFromIss ?t (sendUna ?t) > iss ?t
      then do {
        s \<leftarrow> signalOpener (s1\<lparr>conn := (conn s1)\<lparr>status := Established\<rparr>\<rparr>);
        (_, s) \<leftarrow> sendAck E (wrapFromIss ?t (sendNxt ?t)) (wrapFromIrs ?t (rcvNxt ?t)) s;
        Some (updateSendWnd h s)
      }
      else do {
        (_, s) \<leftarrow> sendFlags E (iss ?t) (wrapFromIrs ?t (rcvNxt ?t)) (SYN + ACK) s1;
        Some (s\<lparr>conn := (conn s)\<lparr>status := SynRecv\<rparr>\<rparr>)
      })"
    by (simp add: synSentOpen_def s1_def Let_def)
  let ?s2 = "s1\<lparr>conn := (conn s1)\<lparr>status := Established, opener := False\<rparr>\<rparr>"
  have sig: "signalOpener (s1\<lparr>conn := (conn s1)\<lparr>status := Established\<rparr>\<rparr>) = Some ?s2"
    using 1(2) by (simp add: signalOpener_def)
  have ok2: "device_ok (dev ?s2)" using 1(1) by simp
  obtain r es where a: "sendAck E (wrapFromIss ?t (sendNxt ?t)) (wrapFromIrs ?t (rcvNxt ?t)) ?s2 =
      Some (r, ?s2\<lparr>out := out ?s2 @ es\<rparr>)"
    using sendAck_total [OF assms(1) ok2] by blast
  obtain r' es' where f: "sendFlags E (iss ?t) (wrapFromIrs ?t (rcvNxt ?t)) (SYN + ACK) s1 =
      Some (r', s1\<lparr>conn := enqueue (now s1) (iss ?t) (SYN + ACK) [] (conn s1), out := out s1 @ es'\<rparr>)"
    using sendFlags_total [OF assms(1) 1(1)] by blast
  show ?thesis unfolding d sig using a f by simp
qed

lemma handleAck_total:
  assumes "env_total E" "device_ok (dev s)"
  shows "\<exists>err s'. handleAckOtherStates E p s = Some (err, s')"
  using sendAck_total [OF assms, of "wrapFromIss (tcb (conn s)) (sendNxt (tcb (conn s)))"
      "wrapFromIrs (tcb (conn s)) (rcvNxt (tcb (conn s)))"]
  by (auto simp: handleAckOtherStates_def Let_def)

lemma handleFin_total:
  assumes "env_total E" "device_ok (dev s)"
  shows "\<exists>s'. handleFinOtherStates E p s = Some s'"
proof -
  let ?s = "s\<lparr>conn := (conn s)\<lparr>tcb := consumeFin (SeqNum (TcpHdr p)) (tcb (conn s))\<rparr>\<rparr>"
  have "device_ok (dev ?s)" using assms(2) by simp
  from sendAck_total [OF assms(1) this] obtain r es where
    "sendAck E (wrapFromIss (tcb (conn s)) (sendNxt (tcb (conn s))))
       (wrapFromIrs (consumeFin (SeqNum (TcpHdr p)) (tcb (conn s)))
         (rcvNxt (consumeFin (SeqNum (TcpHdr p)) (tcb (conn s))))) ?s = Some (r, ?s\<lparr>out := out ?s @ es\<rparr>)"
    by blast
  then show ?thesis by (simp add: handleFinOtherStates_def Let_def)
qed

lemma receivePayload_total:
  assumes "env_total E" "device_ok (dev s)" "rcvCtl (conn s) = RReady"
  shows "\<exists>s'. receivePayload E p nxt s = Some s' \<and> dev s' = dev s"
proof -
  let ?c = "(conn s)\<lparr>rcvCtl := RPut (Payload p)\<rparr>"
  let ?a = "SeqNum (TcpHdr p) + of_nat (length (Payload p))"
  have ok: "device_ok (dev (s\<lparr>conn := c\<rparr>))" for c using assms(2) by simp
  obtain r1 es1 where a1: "sendAck E nxt ?a (s\<lparr>conn := ?c\<rparr>) =
      Some (r1, s\<lparr>conn := ?c, out := out s @ es1\<rparr>)"
    using sendAck_total [OF assms(1) ok, of nxt ?a ?c] by auto
  obtain r2 es2 where a2: "sendAck E nxt ?a (s\<lparr>conn := rcv_step ?c\<rparr>) =
      Some (r2, s\<lparr>conn := rcv_step ?c, out := out s @ es2\<rparr>)"
    using sendAck_total [OF assms(1) ok, of nxt ?a "rcv_step ?c"] by auto
  show ?thesis
    using a1 a2 assms(3) by (auto simp: receivePayload_def AddRead_def Let_def)
qed

lemma processRest_total:
  assumes "env_total E" "device_ok (dev s)" "rcvCtl (conn s) = RReady"
  shows "\<exists>s'. processRest E p nxt s = Some s'"
proof -
  obtain s1 where 1: "receivePayload E p nxt s = Some s1" "dev s1 = dev s"
    using receivePayload_total [OF assms] by blast
  then have "device_ok (dev s1)" using assms(2) by simp
  from handleFin_total [OF assms(1) this, of p] 1(1) show ?thesis
    by (auto simp: processRest_def)
qed

lemma processAck_total:
  assumes "env_total E" "device_ok (dev s)" "rcvCtl (conn s) = RReady"
    and "status (conn s) = SynRecv \<longrightarrow> opener (conn s)"
  shows "\<exists>ret s'. processAck E p una nxt s = Some (ret, s') \<and> (ret \<or> device_ok (dev s')) \<and>
    rcvCtl (conn s') = RReady"
proof -
  have "\<exists>s1. openOnAck (TcpHdr p) una nxt s = Some s1"
    using assms(4) by (simp add: openOnAck_def signalOpener_def)
  then obtain s1 where o: "openOnAck (TcpHdr p) una nxt s = Some s1" by blast
  from openOnAck_cases [OF o] assms(2,3) have 1: "device_ok (dev s1)" "rcvCtl (conn s1) = RReady" by auto
  obtain err s2 where h: "handleAckOtherStates E p s1 = Some (err, s2)"
    using handleAck_total [OF assms(1) 1(1)] by blast
  with o 1 handleAck_state(1,3) [OF h] show ?thesis
    by (auto simp: processAck_def ackByStatus_def closeDelete_def Let_def)
qed

lemma processSegment_total:
  assumes "env_total E" "device_ok (dev s)" "rcvCtl (conn s) = RReady"
    and "status (conn s) = SynRecv \<longrightarrow> opener (conn s)"
  shows "\<exists>s'. processSegment E p s = Some s'"
proof -
  let ?nxt = "wrapFromIss (tcb (conn s)) (sendNxt (tcb (conn s)))"
  obtain ret s1 where a: "processAck E p (wrapFromIss (tcb (conn s)) (sendUna (tcb (conn s)))) ?nxt s = Some (ret, s1)"
    and 1: "ret \<or> device_ok (dev s1)" "rcvCtl (conn s1) = RReady"
    using processAck_total [OF assms] by blast
  have "\<exists>s'. (if ret then Some s1 else processRest E p ?nxt s1) = Some s'"
    using 1 processRest_total [OF assms(1) _ 1(2)] by auto
  moreover obtain s2 where "processRest E p ?nxt s = Some s2"
    using processRest_total [OF assms(1-3)] by blast
  ultimately show ?thesis using a by (auto simp: processSegment_def Let_def)
qed

lemma handleConnStatus_total:
  assumes "env_total E" and "device_ok (dev s)" and "rcvCtl (conn s) = RReady"
    and "status (conn s) \<in> {SynSent, SynRecv} \<longrightarrow> opener (conn s)"
  shows "\<exists>err s'. handleConnStatus E p s = Some (err, s')"
proof -
  have syn: "\<exists>err s'. handleSynSentState E p s = Some (err, s')" if "opener (conn s)"
    using sendRst_total [OF assms(1,2), of "AckNum (TcpHdr p)"]
      synSentOpen_total [OF assms(1,2) that, of "TcpHdr p"]
    by (auto simp: handleSynSentState_def Let_def)
      (metis bind.bind_lunit)+
  have "\<exists>s'. processSegment E p s = Some s'"
    using assms by (intro processSegment_total) auto
  then have other: "\<exists>err s'. handleOtherStates E p s = Some (err, s')"
    using sendRst_total [OF assms(1,2), of "SeqNum (TcpHdr p)"]
      send_total [OF assms(1,2), of "wrapFromIss (tcb (conn s)) (sendNxt (tcb (conn s)))"
        "wrapFromIrs (tcb (conn s)) (rcvNxt (tcb (conn s)))" ACK "[]"]
    by (auto simp: handleOtherStates_def Let_def)
  from syn other assms(4) show ?thesis
    by (cases "status (conn s)") (simp_all add: handleConnStatus_def)
qed

text \<open>
  C21: handling a segment terminates.  On a configured device, when the read controller
  waits for a request and a connection that is being opened has its opener waiting, the
  handler returns for every segment: it neither panics nor waits for ever on a channel.
\<close>

theorem conn_handler_returns:
  assumes "env_total E" and "device_ok (dev s)" and "rcvCtl (conn s) = RReady"
    and "status (conn s) \<in> {SynSent, SynRecv} \<longrightarrow> opener (conn s)"
  shows "\<exists>err s'. handleConnStatus E p s = Some (err, s')"
  using assms by (rule handleConnStatus_total)

theorem conn_handler_returns_witness:
  "\<exists>err s'. handleConnStatus exEnv (exSegment 5 1 (SYN + ACK) [1, 2]) (exState (exConn SynRecv (createTCB 0)))
     = Some (err, s')"
proof -
  let ?s = "exState (exConn SynRecv (createTCB 0))"
  have d: "device_ok (dev ?s)" and r: "rcvCtl (conn ?s) = RReady"
    and o: "status (conn ?s) \<in> {SynSent, SynRecv} \<longrightarrow> opener (conn ?s)"
    by (simp_all add: exDevice_sends)
  show ?thesis by (rule conn_handler_returns [OF exDevice_sends(1) d r o])
qed

end
