(* ===== verification/Windows.thy ===== *)
theory Windows
  imports Segments
begin

text \<open>
  Sequence numbers against the two windows: when a segment or an acknowledgment is
  acceptable, in terms of unwrapped positions, and what an acceptable acknowledgment does
  to the send side.
\<close>

section \<open>Unwrapped positions\<close>

lemma unat_ucast_sum:
  assumes "unat (a :: u32) + unat (p :: u64) < 2 ^ 32"
  shows "unat (ucast (ucast a + p :: u64) :: u32) = unat a + unat p"
proof -
  have "unat (ucast a + p :: u64) = unat a + unat p"
    using assms by (simp add: unat_word_ariths)
  with assms show ?thesis by (simp add: unat_u64_u32)
qed

lemma unat_wrapFromIss:
  "unat (iss t) + unat p < 2 ^ 32 \<Longrightarrow> unat (wrapFromIss t p) = unat (iss t) + unat p"
  unfolding wrapFromIss_def by (rule unat_ucast_sum)

lemma unat_wrapFromIrs:
  "unat (irs t) + unat p < 2 ^ 32 \<Longrightarrow> unat (wrapFromIrs t p) = unat (irs t) + unat p"
  unfolding wrapFromIrs_def by (rule unat_ucast_sum)

lemma ucast_add_ucast:
  "(ucast (a + (p + ucast (d :: u32)) :: u64) :: u32) = ucast (a + p) + d"
proof -
  have "(ucast (a + (p + ucast d) :: u64) :: u32) = word_of_nat (unat (a + p) + unat d)"
    by (simp add: unsigned_ucast_eq word_unat_eq_iff unat_word_ariths unat_of_nat take_bit_nat_def
        mod_mod_cancel mod_simps add.assoc)
  also have "\<dots> = word_of_nat (unat (a + p)) + d"
    by simp
  also have "word_of_nat (unat (a + p)) = (ucast (a + p) :: u32)"
    by (simp add: unsigned_ucast_eq word_unat_eq_iff unat_of_nat)
  finally show ?thesis .
qed

lemma wrapFromIss_add: "wrapFromIss t (p + ucast (d :: u32)) = wrapFromIss t p + d"
  unfolding wrapFromIss_def by (rule ucast_add_ucast)

lemma wrapFromIrs_add: "wrapFromIrs t (p + ucast (d :: u32)) = wrapFromIrs t p + d"
  unfolding wrapFromIrs_def by (rule ucast_add_ucast)

lemma ucast_u32_u64_u32 [simp]: "(ucast (ucast (a :: u32) :: u64) :: u32) = a"
  using unat_u32_bound [of a] by (simp add: word_unat_eq_iff unat_u64_u32)

lemma wrap_start [simp]:
  "wrapFromIss t 0 = iss t" "wrapFromIrs t 0 = irs t"
  "wrapFromIss t 1 = iss t + 1" "wrapFromIrs t 1 = irs t + 1"
  using wrapFromIss_add [of t 0 1] wrapFromIrs_add [of t 0 1]
  by (simp_all add: wrapFromIss_def wrapFromIrs_def)

lemma wrappedDist_near:
  assumes "x \<le> y" "unat y - unat x \<le> 65535"
  shows "wrappedDist x y = y - x"
proof -
  have "unat (y - x) = unat y - unat x" using assms(1) by (rule unat_sub)
  with assms have "y - x \<le> 65535" by (simp add: word_le_nat_alt)
  with assms(1) show ?thesis
    by (cases "x = y") (auto simp: wrappedDist_def tcbSize_def min_def)
qed

section \<open>The receive window\<close>

text \<open>
  C27: the acceptability test is the window test of RFC 9293, section 3.10.7.4.  As long as
  window and segment do not cross the 32-bit wrap and the segment is no longer than the
  window, a segment without data is accepted exactly at \<^verbatim>\<open>RCV.NXT\<close> when the window is
  closed and inside the window otherwise, and a segment with data exactly when one of its
  bytes lies in the window.
\<close>

theorem segment_acceptable_iff:
  assumes "nxt = unat (wrapFromIrs t (rcvNxt t))" and "wnd = unat (rcvWnd t)"
    and "nxt + wnd < 2 ^ 32" and "unat seqNum + unat len < 2 ^ 32" and "unat len \<le> wnd \<or> wnd = 0"
  shows "isSegmentAcceptable t seqNum len \<longleftrightarrow>
    (if len = 0 then (if wnd = 0 then unat seqNum = nxt else nxt \<le> unat seqNum \<and> unat seqNum < nxt + wnd)
     else {unat seqNum ..< unat seqNum + unat len} \<inter> {nxt ..< nxt + wnd} \<noteq> {})"
proof -
  have sum: "unat (wrapFromIrs t (rcvNxt t) + ucast (rcvWnd t)) = nxt + wnd"
    using assms(1-3) by (simp add: unat_word_ariths)
  have wnd0: "rcvWnd t = 0 \<longleftrightarrow> wnd = 0" by (simp add: assms(2) unat_eq_0)
  have start: "wrapFromIrs t (rcvNxt t) \<le> x \<and> x < wrapFromIrs t (rcvNxt t) + ucast (rcvWnd t)
      \<longleftrightarrow> nxt \<le> unat x \<and> unat x < nxt + wnd" for x
    using sum by (simp add: word_le_nat_alt word_less_nat_alt assms(1))
  have point: "seqNum = wrapFromIrs t (rcvNxt t) \<longleftrightarrow> unat seqNum = nxt"
    by (simp add: assms(1) word_unat_eq_iff)
  show ?thesis
  proof (cases "len = 0")
    case True
    then show ?thesis
      by (cases "wnd = 0")
        (simp_all add: isSegmentAcceptable_def Let_def start wnd0 word_gt_0 point)
  next
    case False
    then have l: "0 < unat len" by (simp add: unat_gt_0)
    have e: "unat (seqNum + len - 1) = unat seqNum + unat len - 1"
    proof -
      have s: "unat (seqNum + len) = unat seqNum + unat len"
        using assms(4) by (simp add: unat_word_ariths)
      with l have "1 \<le> seqNum + len" by (simp add: word_le_nat_alt)
      then show ?thesis by (simp add: unat_sub s)
    qed
    have "isSegmentAcceptable t seqNum len \<longleftrightarrow> wnd \<noteq> 0 \<and>
        ((nxt \<le> unat seqNum \<and> unat seqNum < nxt + wnd) \<or>
         (nxt \<le> unat seqNum + unat len - 1 \<and> unat seqNum + unat len - 1 < nxt + wnd))"
      using False by (simp add: isSegmentAcceptable_def Let_def start wnd0 word_gt_0 e)
    also have "\<dots> \<longleftrightarrow> {unat seqNum ..< unat seqNum + unat len} \<inter> {nxt ..< nxt + wnd} \<noteq> {}"
      using l assms(5) by (auto simp: ivl_disj_un)
    finally show ?thesis using False by simp
  qed
qed

theorem segment_acceptable_iff_witness:
  "isSegmentAcceptable ((createTCB 0)\<lparr>irs := 99, rcvNxt := 1, rcvLbr := 1\<rparr>) 90 20 \<longleftrightarrow>
   {90 ..< 110} \<inter> {100 ..< 65635} \<noteq> ({} :: nat set)"
proof -
  let ?t = "(createTCB 0)\<lparr>irs := 99, rcvNxt := 1, rcvLbr := 1\<rparr>"
  have n: "(100 :: nat) = unat (wrapFromIrs ?t (rcvNxt ?t))" by (simp add: wrapFromIrs_def)
  have w: "(65535 :: nat) = unat (rcvWnd ?t)" by simp
  from segment_acceptable_iff [OF n w, of 90 20] show ?thesis by simp
qed

text \<open>
  At the 32-bit wrap it is not: with \<^verbatim>\<open>RCV.NXT\<close> at the last sequence number, an open
  window and the next expected byte, the segment is refused.
\<close>

lemma window_at_wrap:
  "wrapFromIrs ((createTCB 0)\<lparr>irs := -2, rcvNxt := 1, rcvLbr := 1\<rparr>) 1 = -1"
  "\<not> isSegmentAcceptable ((createTCB 0)\<lparr>irs := -2, rcvNxt := 1, rcvLbr := 1\<rparr>) (-1) 1"
  by (simp_all add: isSegmentAcceptable_def wrapFromIrs_def Let_def)

section \<open>Acknowledgments\<close>

lemma advance_position:
  assumes nw: "unat (iss t) + unat (sendNxt t) < 2 ^ 32"
    and out: "unat (sendNxt t) - unat (sendUna t) \<le> 65535"
    and ok: "isAckAcceptable t a" and una: "unat (sendUna t) \<le> unat (sendNxt t)"
  shows "unat (sendUna t + ucast (wrappedDist (wrapFromIss t (sendUna t)) a)) + unat (iss t) = unat a"
proof -
  have pos: "unat (wrapFromIss t (sendUna t)) = unat (iss t) + unat (sendUna t)"
    "unat (wrapFromIss t (sendNxt t)) = unat (iss t) + unat (sendNxt t)"
    using nw una by (simp_all add: unat_wrapFromIss)
  from ok have lo: "unat (iss t) + unat (sendUna t) < unat a" and hi: "unat a \<le> unat (iss t) + unat (sendNxt t)"
    by (simp_all add: isAckAcceptable_def Let_def word_less_nat_alt word_le_nat_alt pos)
  have d: "wrappedDist (wrapFromIss t (sendUna t)) a = a - wrapFromIss t (sendUna t)"
    using lo hi out by (intro wrappedDist_near) (simp_all add: word_le_nat_alt pos)
  have "unat (a - wrapFromIss t (sendUna t)) = unat a - (unat (iss t) + unat (sendUna t))"
    using lo by (simp add: unat_sub word_le_nat_alt pos)
  with lo hi nw show ?thesis
    by (simp add: d unat_word_ariths)
qed

lemma capacity_position:
  assumes "unat (sendNxt t) < 2 ^ 32" "unat (sendUna t) \<le> unat (sendNxt t)"
    and "unat (sendNxt t) - unat (sendUna t) \<le> 65535"
  shows "unat (getSendCapacity t) = 65535 - (unat (sendNxt t) - unat (sendUna t))"
proof -
  let ?n = "ucast (sendNxt t) :: u32" and ?u = "ucast (sendUna t) :: u32"
  have u: "unat ?n = unat (sendNxt t)" "unat ?u = unat (sendUna t)"
    using assms by (simp_all add: unat_u64_u32)
  have "wrappedDist ?u ?n = ?n - ?u"
    using assms by (intro wrappedDist_near) (simp_all add: word_le_nat_alt u)
  then have d: "unat (wrappedDist ?n ?u) = unat (sendNxt t) - unat (sendUna t)"
    using assms by (simp add: wrappedDist_sym [of ?n] unat_sub word_le_nat_alt u)
  then have d16: "unat (ucast (wrappedDist ?n ?u) :: u16) = unat (sendNxt t) - unat (sendUna t)"
    using assms by (simp add: unsigned_ucast_eq take_bit_nat_eq_self_iff)
  then have "(ucast (wrappedDist ?n ?u) :: u16) \<le> 65535"
    using assms by (simp add: word_le_nat_alt)
  then show ?thesis
    using d16 by (simp add: getSendCapacity_def tcbSize_def unat_sub)
qed

lemma acceptAck_tcb:
  "let t = tcb (conn s); t' = tcb (conn (acceptAck h s))
   in iss t' = iss t \<and> sendNxt t' = sendNxt t \<and> sendLbr t' = sendLbr t \<and> sendBuf t' = sendBuf t \<and>
      irs t' = irs t \<and> rcvNxt t' = rcvNxt t \<and> rcvLbr t' = rcvLbr t \<and> rcvBuf t' = rcvBuf t \<and>
      rcvWnd t' = rcvWnd t \<and>
      sendUna t' = sendUna t + ucast (wrappedDist (wrapFromIss t (sendUna t)) (AckNum h))"
  by (simp add: acceptAck_def updateSendWnd_tcb advanceUna_tcb Let_def)

text \<open>
  C19: the three cases of an acknowledgment.  Below the 32-bit wrap, with at most 65,535
  bytes outstanding: one for new data moves \<^verbatim>\<open>SND.UNA\<close> to exactly the acknowledged
  position, and the send capacity becomes 65,535 minus what is still outstanding; a
  duplicate changes no pointer; one for data never sent is refused, changes nothing and is
  answered with an acknowledgment.
\<close>

theorem ack_three_cases:
  assumes "handleAckOtherStates E p s = Some (err, s')"
    and "t = tcb (conn s)" and "t' = tcb (conn s')" and "a = unat (AckNum (TcpHdr p))"
    and "unat (iss t) + unat (sendNxt t) < 2 ^ 32"
    and "unat (sendUna t) \<le> unat (sendNxt t)" and "unat (sendNxt t) - unat (sendUna t) \<le> 65535"
  shows
    "(unat (iss t) + unat (sendUna t) < a \<and> a \<le> unat (iss t) + unat (sendNxt t) \<longrightarrow>
        err = None \<and> unat (iss t') + unat (sendUna t') = a \<and> sendNxt t' = sendNxt t \<and>
        unat (getSendCapacity t') = 65535 - (unat (sendNxt t') - unat (sendUna t'))) \<and>
     (a \<le> unat (iss t) + unat (sendUna t) \<longrightarrow> err = None \<and> t' = t) \<and>
     (unat (iss t) + unat (sendNxt t) < a \<longrightarrow>
        err = Some ErrInvalidAck \<and> conn s' = conn s \<and>
        (\<exists>es. out s' = out s @ es \<and>
           segs es = [CreateTcpPacket E (conn s) (wrapFromIss t (sendNxt t)) (wrapFromIrs t (rcvNxt t)) ACK []]))"
proof -
  let ?h = "TcpHdr p"
  have pos: "unat (wrapFromIss t (sendUna t)) = unat (iss t) + unat (sendUna t)"
    "unat (wrapFromIss t (sendNxt t)) = unat (iss t) + unat (sendNxt t)"
    using assms(5,6) by (simp_all add: unat_wrapFromIss)
  have acc: "isAckAcceptable t (AckNum ?h) \<longleftrightarrow>
      unat (iss t) + unat (sendUna t) < a \<and> a \<le> unat (iss t) + unat (sendNxt t)"
    by (simp add: isAckAcceptable_def Let_def word_less_nat_alt word_le_nat_alt pos assms(4))
  consider (new) "isAckAcceptable t (AckNum ?h)" | (old) "a \<le> unat (iss t) + unat (sendUna t)"
    | (wild) "unat (iss t) + unat (sendNxt t) < a"
    using acc by linarith
  then show ?thesis
  proof cases
    case new
    let ?s1 = "acceptAck ?h s"
    from assms(1,2) new have e: "err = None"
      and s': "s' = ?s1\<lparr>conn := ackSwitch (AckNum ?h = wrapFromIss t (sendNxt t)) (conn ?s1)\<rparr>"
      by (simp_all add: handleAckOtherStates_def Let_def)
    then have t': "iss t' = iss t" "sendNxt t' = sendNxt t"
      and una: "sendUna t' = sendUna t + ucast (wrappedDist (wrapFromIss t (sendUna t)) (AckNum ?h))"
      using acceptAck_tcb [of s ?h] by (simp_all add: assms(2,3) Let_def)
    have p: "unat (sendUna t') + unat (iss t) = a"
      unfolding una assms(4) by (rule advance_position [OF assms(5,7) new assms(6)])
    have lt: "unat (sendUna t) < unat (sendUna t')" "unat (sendUna t') \<le> unat (sendNxt t)"
      using acc new p by linarith+
    then have "unat (sendNxt t') - unat (sendUna t') \<le> 65535"
      using assms(7) by (simp add: t')
    then have "unat (getSendCapacity t') = 65535 - (unat (sendNxt t') - unat (sendUna t'))"
      using lt(2) assms(5) by (intro capacity_position) (simp_all add: t')
    with acc new p e t' show ?thesis by (simp add: add.commute)
  next
    case old
    then have n: "\<not> isAckAcceptable t (AckNum ?h)" and le: "AckNum ?h \<le> wrapFromIss t (sendUna t)"
      using acc by (simp_all add: word_le_nat_alt pos assms(4))
    with assms(1) have "err = None" "tcb (conn s') = tcb (conn s)"
      unfolding handleAckOtherStates_def Let_def assms(2) by auto
    with old assms(2,3,6) show ?thesis by simp
  next
    case wild
    then have n: "\<not> isAckAcceptable t (AckNum ?h)" "\<not> AckNum ?h \<le> wrapFromIss t (sendUna t)"
      "wrapFromIss t (sendNxt t) < AckNum ?h"
      using acc assms(6) by (simp_all add: word_le_nat_alt word_less_nat_alt pos assms(4))
    with assms(1) obtain r where err: "err = Some ErrInvalidAck"
      and a: "sendAck E (wrapFromIss t (sendNxt t)) (wrapFromIrs t (rcvNxt t)) s = Some (r, s')"
      unfolding handleAckOtherStates_def Let_def assms(2) by (auto simp: bind_eq_Some_conv)
    from sendAck_Some [OF a] err wild assms(6) show ?thesis by auto
  qed
qed

theorem ack_three_cases_witness:
  "\<exists>err s'. handleAckOtherStates exEnv (exSegment 1 8 ACK [])
      (exState (exConn Established ((createTCB 5)\<lparr>sendUna := 1, sendNxt := 4\<rparr>))) = Some (err, s') \<and>
     err = None \<and> sendUna (tcb (conn s')) = 3 \<and> unat (getSendCapacity (tcb (conn s'))) = 65534"
proof -
  let ?t = "(createTCB 5)\<lparr>sendUna := 1, sendNxt := 4\<rparr>"
  let ?s = "exState (exConn Established ?t)" and ?p = "exSegment 1 8 ACK []"
  have ok: "device_ok (dev ?s)" by (simp add: exDevice_sends)
  obtain err s' where h: "handleAckOtherStates exEnv ?p ?s = Some (err, s')"
    using handleAck_total [OF exDevice_sends(1) ok] by blast
  have iss: "iss ?t = 5" by (simp add: createTCB_def)
  from ack_three_cases [OF h refl refl refl] iss
  have "err = None" and u: "unat (iss (tcb (conn s'))) + unat (sendUna (tcb (conn s'))) = 8"
    and n: "sendNxt (tcb (conn s')) = 4"
    and c: "unat (getSendCapacity (tcb (conn s'))) = 65535 - (4 - unat (sendUna (tcb (conn s'))))"
    by simp_all
  moreover have "iss (tcb (conn s')) = 5"
    using handleAck_cases [OF h] iss acceptAck_tcb [of ?s "TcpHdr ?p"]
    by (metis (no_types) ackSwitch_frame(1) calculation(1) cst.select_convs(2) cst.surjective cst.update_convs(2) exState_simps(1,5) option.distinct(1))
  ultimately have "unat (sendUna (tcb (conn s'))) = 3" by simp
  with h \<open>err = None\<close> c show ?thesis by (simp add: word_unat_eq_iff)
qed

end
