(* ===== verification/Streams.thy ===== *)
theory Streams
  imports Windows
begin

text \<open>
  The calls that move data, \<^verbatim>\<open>VWrite\<close> and \<^verbatim>\<open>VRead\<close> of
  \<^verbatim>\<open>pkg/protocol/normalsocket.go\<close>, and the arrival of data.  The lemmas show how a
  write is cut into segments, what an accepted segment adds to the receive buffer, that
  bytes travel in order from one to the other, and where they do not.
\<close>

section \<open>Reading and writing\<close>

text \<open>
  The count, the error, and the bytes copied into the caller's buffer of \<open>n\<close> bytes.
\<close>

definition VRead :: "nat \<Rightarrow> VTcpConn \<Rightarrow> ((nat \<times> CloseError option \<times> byte list) \<times> VTcpConn) option" where
  "VRead n c =
     (if status c \<in> {FinWait1, FinWait2, CloseWait, Established}
      then map_option (\<lambda>(dataRead, c). ((length dataRead, None, dataRead), c)) (ReadRecv (of_nat n) c)
      else Some ((0, Some ErrClosing, []), c))"

text \<open>
  One round of the loop of \<^verbatim>\<open>VWrite\<close>: it returns from the call (left), or goes on with
  the number \<open>n\<close> that the send reported (right).  The controller's move between the two
  channel operations is part of the round; \<open>None\<close> is a panic or a wait for another goroutine.
\<close>

definition VWrite_round :: "env \<Rightarrow> GoSlice \<Rightarrow> int \<Rightarrow> int \<Rightarrow> cst \<Rightarrow>
    (((int \<times> CloseError) + int) \<times> cst) option" where
  "VWrite_round E data i bytesSent s =
     (let cap = getSendCapacity (tcb (conn s));
          lastIdx = min (min (uint Mss) (int (slice_len data) - bytesSent)) (uint cap);
          lastIdx = (if lastIdx = 0 then 1 else lastIdx)
      in if i < 0 \<or> i + lastIdx < 0 then None
         else do {
           segData \<leftarrow> reslice data (nat i) (nat (i + lastIdx));
           if status (conn s) = Established
           then do {
             c \<leftarrow> AddSend (elems segData) (conn s);
             (dataSend, c) \<leftarrow> ReadSend (of_nat (slice_len segData)) (fst (snd_step c));
             let t = tcb c;
             ((n, err), s) \<leftarrow> send E (wrapFromIss t (sendNxt t) - of_nat (length dataSend))
                              (wrapFromIrs t (rcvNxt t)) ACK dataSend (s\<lparr>conn := c\<rparr>);
             case err of
               Some e \<Rightarrow> Some (Inl (bytesSent + n, ErrCloseSend e), s)
             | None \<Rightarrow> Some (Inr n, s)
           }
           else Some (Inl (0, ErrClosing), s)
         })"

text \<open>
  The loop.  Each element of the list stands for one round: it is what the other
  goroutines (the handlers of acknowledgments above all) do to the state before it.  With
  the list used up the call has not returned yet, which is \<open>None\<close> too.
\<close>

fun VWrite_loop :: "env \<Rightarrow> (cst \<Rightarrow> cst) list \<Rightarrow> GoSlice \<Rightarrow> int \<Rightarrow> int \<Rightarrow> cst \<Rightarrow>
    ((int \<times> CloseError option) \<times> cst) option" where
  "VWrite_loop E others data i bytesSent s =
     (if bytesSent < int (slice_len data)
      then (case others of
              [] \<Rightarrow> None
            | other # others \<Rightarrow>
                do {
                  (r, s) \<leftarrow> VWrite_round E data i bytesSent (other s);
                  case r of
                    Inl (n, err) \<Rightarrow> Some ((n, Some err), s)
                  | Inr n \<Rightarrow> VWrite_loop E others data (i + n) (bytesSent + n) s
                })
      else Some ((bytesSent, None), s))"

definition VWrite :: "env \<Rightarrow> (cst \<Rightarrow> cst) list \<Rightarrow> GoSlice \<Rightarrow> cst \<Rightarrow>
    ((int \<times> CloseError option) \<times> cst) option" where
  "VWrite E others data s = VWrite_loop E others data 0 0 s"

declare VWrite_loop.simps [simp del]

section \<open>How a write is cut\<close>

text \<open>Every segment leaves in full.\<close>

definition sends_ok :: "env \<Rightarrow> cst \<Rightarrow> bool" where
  "sends_ok E s \<longleftrightarrow> (\<forall>p. \<exists>es. SendTcp E (dev s) (apAddr (remoteAddr (conn s))) p
     = Some ((int (length (Payload p)), None), es))"

text \<open>Between two rounds: established, controllers idle, everything written was sent.\<close>

definition resting :: "env \<Rightarrow> cst \<Rightarrow> bool" where
  "resting E s \<longleftrightarrow> status (conn s) = Established \<and> sndCtl (conn s) = SReady \<and>
     snd_inv (tcb (conn s)) \<and> snd_contents (tcb (conn s)) = [] \<and> sends_ok E s"

text \<open>
  What the other goroutines do before a round keeps this, and leaves the peer's window open
  and some capacity.
\<close>

definition peer_progress :: "env \<Rightarrow> (cst \<Rightarrow> cst) \<Rightarrow> bool" where
  "peer_progress E other \<longleftrightarrow> (\<forall>s. resting E s \<longrightarrow>
     resting E (other s) \<and> sendWnd (tcb (conn (other s))) \<noteq> 0 \<and> getSendCapacity (tcb (conn (other s))) \<noteq> 0 \<and>
     out (other s) = out s \<and> sendNxt (tcb (conn (other s))) = sendNxt (tcb (conn s)) \<and>
     iss (tcb (conn (other s))) = iss (tcb (conn s)))"

lemma add2Send_sel:
  "length (sendBuf t) = 65536 \<Longrightarrow> sendWnd (add2Send bs t) = sendWnd t"
  "length (sendBuf t) = 65536 \<Longrightarrow> sendNxt (add2Send bs t) = sendNxt t + of_nat (length bs)"
  "length (sendBuf t) = 65536 \<Longrightarrow> sendUna (add2Send bs t) = sendUna t"
  "length (sendBuf t) = 65536 \<Longrightarrow> iss (add2Send bs t) = iss t"
  "length (sendBuf t) = 65536 \<Longrightarrow> rcvNxt (add2Send bs t) = rcvNxt t"
  "length (sendBuf t) = 65536 \<Longrightarrow> irs (add2Send bs t) = irs t"
  by (simp_all add: add2Send_eq)

lemma readFromSend_sel [simp]:
  "sendNxt (fst (readFromSend n t)) = sendNxt t" "iss (fst (readFromSend n t)) = iss t"
  "rcvNxt (fst (readFromSend n t)) = rcvNxt t" "irs (fst (readFromSend n t)) = irs t"
  by (simp_all add: readFromSend_def Let_def)

lemma capacity_used:
  assumes "snd_inv t" "snd_contents t \<noteq> []"
  shows "getSendCapacity t \<noteq> 65535"
proof
  assume c: "getSendCapacity t = 65535"
  from assms have "0 < unat (sendNxt t - sendLbr t)"
    by (auto simp: snd_contents_def ring_read_def intro: gr0I)
  moreover from assms(1) have "unat (sendNxt t - sendUna t) =
      unat (sendLbr t - sendUna t) + unat (sendNxt t - sendLbr t)"
    by (intro unat_dist_add) (simp add: snd_inv_def)
  moreover from this assms(1) have "unat (getSendCapacity t) + unat (sendNxt t - sendUna t) \<le> 65535"
    by (intro send_capacity_bound) (simp add: snd_inv_def)
  ultimately show False using c by simp
qed

text \<open>The bytes of one round go through the ring unchanged.\<close>

lemma write_through_ring:
  assumes c: "sndCtl c = SReady" "snd_inv (tcb c)" "snd_contents (tcb c) = []" "sendWnd (tcb c) \<noteq> 0"
    and bs: "bs \<noteq> []" "length bs \<le> 1360" "length bs \<le> unat (getSendCapacity (tcb c))"
  shows "\<exists>c1 t. AddSend bs c = Some c1 \<and>
    ReadSend (of_nat (length bs)) (fst (snd_step c1)) = Some (bs, c\<lparr>tcb := t\<rparr>) \<and>
    snd_inv t \<and> snd_contents t = [] \<and> sendNxt t = sendNxt (tcb c) + of_nat (length bs) \<and> iss t = iss (tcb c) \<and>
    rcvNxt t = rcvNxt (tcb c) \<and> irs t = irs (tcb c)"
proof -
  let ?t1 = "add2Send bs (tcb c)"
  have len: "length (sendBuf (tcb c)) = 65536" using c(2) by (simp add: snd_inv_def)
  have n16: "\<not> getSendCapacity (tcb c) < of_nat (length bs)"
    using bs by (simp add: word_less_nat_alt unat_of_nat take_bit_nat_eq_self_iff)
  have put: "snd_inv ?t1" "snd_contents ?t1 = bs"
    using snd_side.put_inv [OF c(2) bs(3)] snd_side.put_contents [OF c(2) bs(3)] c(3) by simp_all
  then have cap: "getSendCapacity ?t1 \<noteq> 65535" using capacity_used bs(1) by simp
  let ?n = "ucast (of_nat (length bs) :: u64) :: u32"
  have n: "unat ?n = length bs"
    using bs(2) by (simp add: unat_u64_u32 unat_of_nat take_bit_nat_eq_self_iff)
  obtain t2 buf where g: "readFromSend ?n ?t1 = (t2, buf)" by (cases "readFromSend ?n ?t1")
  then have buf: "buf = bs" and inv2: "snd_inv t2" and c2: "snd_contents t2 = []"
    using snd_side.get_out [OF put(1), of ?n] snd_side.get_inv [OF put(1), of ?n]
      snd_side.get_contents [OF put(1), of ?n] put(2) bs(2) by (simp_all add: n)
  have sel: "sendNxt t2 = sendNxt (tcb c) + of_nat (length bs)" "iss t2 = iss (tcb c)"
    "rcvNxt t2 = rcvNxt (tcb c)" "irs t2 = irs (tcb c)"
    using readFromSend_sel [of ?n ?t1] g add2Send_sel [OF len, of bs] by simp_all
  have "ReadSend (of_nat (length bs)) (c\<lparr>tcb := ?t1\<rparr>) = Some (bs, c\<lparr>tcb := t2\<rparr>)"
    using c(1,4) cap g by (simp add: ReadSend_def ReadSend_request_def ReadSend_reply_def snd_step_def
        add2Send_sel [OF len] tcbSize_def buf)
  moreover have "fst (snd_step (c\<lparr>sndCtl := SPut bs\<rparr>)) = c\<lparr>tcb := ?t1\<rparr>"
    using c(1) n16 by (cases c) (simp add: snd_step_def)
  ultimately show ?thesis
    using c(1) inv2 c2 sel
    by (intro exI [of _ "c\<lparr>sndCtl := SPut bs\<rparr>"] exI [of _ t2]) (simp add: AddSend_def)
qed

text \<open>The acknowledgment a state would send is at most \<open>b\<close>.\<close>

definition ack_bound :: "u32 \<Rightarrow> cst \<Rightarrow> bool" where
  "ack_bound b s \<longleftrightarrow> wrapFromIrs (tcb (conn s)) (rcvNxt (tcb (conn s))) \<le> b"

lemma wrapFromIss_sub: "wrapFromIss t (p + of_nat n) - of_nat n = wrapFromIss t p"
  unfolding wrapFromIss_def add.assoc [symmetric] ucast_add_of_nat by simp

lemma VWrite_round_ok:
  assumes r: "resting E s" and w: "sendWnd (tcb (conn s)) \<noteq> 0" and cap: "getSendCapacity (tcb (conn s)) \<noteq> 0"
    and k: "k < slice_len data"
  shows "\<exists>m s' p. VWrite_round E data (int k) (int k) s = Some (Inr (int m), s') \<and>
    0 < m \<and> m \<le> 1360 \<and> k + m \<le> slice_len data \<and> resting E s' \<and> segs (out s') = segs (out s) @ [p] \<and>
    Payload p = take m (drop k (elems data)) \<and> Flags (TcpHdr p) = ACK \<and>
    SeqNum (TcpHdr p) = wrapFromIss (tcb (conn s)) (sendNxt (tcb (conn s))) \<and>
    AckNum (TcpHdr p) = wrapFromIrs (tcb (conn s)) (rcvNxt (tcb (conn s))) \<and>
    rcvNxt (tcb (conn s')) = rcvNxt (tcb (conn s)) \<and> irs (tcb (conn s')) = irs (tcb (conn s)) \<and>
    sendNxt (tcb (conn s')) = sendNxt (tcb (conn s)) + of_nat m \<and> iss (tcb (conn s')) = iss (tcb (conn s))"
proof -
  let ?c = "conn s" and ?t = "tcb (conn s)"
  let ?cap = "unat (getSendCapacity ?t)"
  define m where "m = min (min 1360 (slice_len data - k)) ?cap"
  have cap0: "0 < ?cap" using cap by (simp add: unat_gt_0)
  then have m: "0 < m" "m \<le> 1360" "k + m \<le> slice_len data" "m \<le> ?cap"
    using k by (simp_all add: m_def)
  have "min (min (uint Mss) (int (slice_len data) - int k)) (uint (getSendCapacity ?t)) = int m"
    using k by (simp add: m_def Mss_def of_nat_min of_nat_diff)
  then have last: "(let lastIdx = min (min (uint Mss) (int (slice_len data) - int k)) (uint (getSendCapacity ?t))
      in if lastIdx = 0 then 1 else lastIdx) = int m"
    using m(1) by (simp add: Let_def)
  let ?bs = "take m (drop k (elems data))"
  have seg: "\<exists>sd. reslice data (nat (int k)) (nat (int k + int m)) = Some sd \<and> elems sd = ?bs \<and> slice_len sd = m"
    using m(3) by (simp add: reslice_def slice_cap_def slice_len_def backing_def nat_add_distrib)
  then obtain sd where sd: "reslice data (nat (int k)) (nat (int k + int m)) = Some sd" "elems sd = ?bs" "slice_len sd = m"
    by blast
  have lbs: "length ?bs = m" using m(3) by (simp add: slice_len_def)
  then have ne: "?bs \<noteq> []" using m(1) by auto
  obtain c1 t where a: "AddSend ?bs ?c = Some c1"
    and rd: "ReadSend (of_nat m) (fst (snd_step c1)) = Some (?bs, ?c\<lparr>tcb := t\<rparr>)"
    and t: "snd_inv t" "snd_contents t = []" "sendNxt t = sendNxt ?t + of_nat m" "iss t = iss ?t"
      "rcvNxt t = rcvNxt ?t" "irs t = irs ?t"
    using write_through_ring [OF _ _ _ w ne, unfolded lbs] r m(2,4) unfolding resting_def by blast
  let ?s1 = "s\<lparr>conn := ?c\<lparr>tcb := t\<rparr>\<rparr>"
  let ?q = "wrapFromIss t (sendNxt t) - of_nat m" and ?a = "wrapFromIrs t (rcvNxt t)"
  let ?p = "CreateTcpPacket E (conn ?s1) ?q ?a ACK ?bs"
  have q: "?q = wrapFromIss ?t (sendNxt ?t)"
    using wrapFromIss_sub [of t "sendNxt ?t" m] by (simp add: t(3)) (simp add: wrapFromIss_def t(4))
  have ackn: "?a = wrapFromIrs ?t (rcvNxt ?t)" by (simp add: wrapFromIrs_def t(5,6))
  obtain es where es: "SendTcp E (dev s) (apAddr (remoteAddr ?c)) ?p = Some ((int (length (Payload ?p)), None), es)"
    using r unfolding resting_def sends_ok_def by blast
  let ?s2 = "?s1\<lparr>conn := enqueue (now s) ?q ACK ?bs (conn ?s1), out := out s @ es\<rparr>"
  have pl: "Payload ?p = ?bs" by (simp add: CreateTcpPacket_def Let_def)
  have snd: "send E ?q ?a ACK ?bs ?s1 = Some ((int m, None), ?s2)"
    using es unfolding pl lbs by (simp add: send_eq sendTcpOn_def)
  have "VWrite_round E data (int k) (int k) s = Some (Inr (int m), ?s2)"
    using last sd a rd snd r lbs
    by (simp add: VWrite_round_def resting_def Let_def)
  moreover have "resting E ?s2"
    using r t by (simp add: resting_def sends_ok_def)
  moreover have "segs es = [?p]" using SendTcp_Some [OF es] by auto
  ultimately show ?thesis
    using m t q ackn pl by (intro exI [of _ m] exI [of _ ?s2] exI [of _ ?p]) (simp add: CreateTcpPacket_def Let_def)
qed

lemma VWrite_loop_ok:
  assumes "resting E s" and "\<forall>other \<in> set others. peer_progress E other"
    and "k \<le> slice_len data" and "slice_len data - k \<le> length others"
    and "ack_bound b s" and "\<forall>other \<in> set others. \<forall>s. ack_bound b s \<longrightarrow> ack_bound b (other s)"
  shows "\<exists>s' ps. VWrite_loop E others data (int k) (int k) s = Some ((int (slice_len data), None), s') \<and>
    resting E s' \<and> segs (out s') = segs (out s) @ ps \<and> concat (map Payload ps) = drop k (elems data) \<and>
    (\<forall>p \<in> set ps. Payload p \<noteq> [] \<and> length (Payload p) \<le> 1360 \<and> Flags (TcpHdr p) = ACK \<and> AckNum (TcpHdr p) \<le> b) \<and>
    (\<forall>n < length ps. SeqNum (TcpHdr (ps ! n)) =
       wrapFromIss (tcb (conn s)) (sendNxt (tcb (conn s)) + of_nat (length (concat (map Payload (take n ps))))))"
  using assms
proof (induction others arbitrary: s k)
  case Nil
  then have "k = slice_len data" by simp
  with Nil show ?case
    by (intro exI [of _ s] exI [of _ "[]"]) (simp add: VWrite_loop.simps slice_len_def)
next
  case (Cons other others)
  show ?case
  proof (cases "k < slice_len data")
    case False
    with Cons.prems show ?thesis
      by (intro exI [of _ s] exI [of _ "[]"]) (simp add: VWrite_loop.simps slice_len_def)
  next
    case True
    let ?s0 = "other s"
    have p0: "resting E ?s0" "sendWnd (tcb (conn ?s0)) \<noteq> 0" "getSendCapacity (tcb (conn ?s0)) \<noteq> 0"
      "out ?s0 = out s" "sendNxt (tcb (conn ?s0)) = sendNxt (tcb (conn s))" "iss (tcb (conn ?s0)) = iss (tcb (conn s))"
      using Cons.prems(1,2) by (auto simp: peer_progress_def)
    from VWrite_round_ok [OF p0(1-3) True] obtain m s1 p where
      v: "VWrite_round E data (int k) (int k) ?s0 = Some (Inr (int m), s1)" and
      m: "0 < m" "m \<le> 1360" "k + m \<le> slice_len data" and s1: "resting E s1" "segs (out s1) = segs (out s) @ [p]" and
      p: "Payload p = take m (drop k (elems data))" "Flags (TcpHdr p) = ACK"
         "SeqNum (TcpHdr p) = wrapFromIss (tcb (conn ?s0)) (sendNxt (tcb (conn ?s0)))"
         "AckNum (TcpHdr p) = wrapFromIrs (tcb (conn ?s0)) (rcvNxt (tcb (conn ?s0)))" and
      r1: "rcvNxt (tcb (conn s1)) = rcvNxt (tcb (conn ?s0))" "irs (tcb (conn s1)) = irs (tcb (conn ?s0))" and
      n1: "sendNxt (tcb (conn s1)) = sendNxt (tcb (conn s)) + of_nat m" "iss (tcb (conn s1)) = iss (tcb (conn s))"
      using p0 by auto
    have lp: "length (Payload p) = m" using m(3) p(1) by (simp add: slice_len_def)
    have rest: "\<forall>other \<in> set others. peer_progress E other" "slice_len data - (k + m) \<le> length others"
      "\<forall>other \<in> set others. \<forall>s. ack_bound b s \<longrightarrow> ack_bound b (other s)"
      using Cons.prems(2,4,6) m(1) by simp_all
    have b0: "ack_bound b ?s0" using Cons.prems(5,6) by simp
    then have b1: "ack_bound b s1" by (simp add: ack_bound_def wrapFromIrs_def r1)
    obtain s' ps where
      l: "VWrite_loop E others data (int (k + m)) (int (k + m)) s1 = Some ((int (slice_len data), None), s')" and
      s': "resting E s'" "segs (out s') = segs (out s1) @ ps" "concat (map Payload ps) = drop (k + m) (elems data)" and
      ps: "\<forall>p \<in> set ps. Payload p \<noteq> [] \<and> length (Payload p) \<le> 1360 \<and> Flags (TcpHdr p) = ACK \<and> AckNum (TcpHdr p) \<le> b" and
      q: "\<forall>n < length ps. SeqNum (TcpHdr (ps ! n)) =
       wrapFromIss (tcb (conn s1)) (sendNxt (tcb (conn s1)) + of_nat (length (concat (map Payload (take n ps)))))"
      using Cons.IH [OF s1(1) rest(1) m(3) rest(2) b1 rest(3)] by blast
    have iss: "wrapFromIss (tcb (conn s1)) x = wrapFromIss (tcb (conn s)) x"
      "wrapFromIss (tcb (conn ?s0)) x = wrapFromIss (tcb (conn s)) x" for x
      using n1(2) p0(6) by (simp_all add: wrapFromIss_def)
    have "VWrite_loop E (other # others) data (int k) (int k) s = Some ((int (slice_len data), None), s')"
      using True v l by (subst VWrite_loop.simps) simp
    moreover have "concat (map Payload (p # ps)) = drop k (elems data)"
      using s'(3) p(1) by (simp add: add.commute [of k]) (metis append_take_drop_id drop_drop)
    moreover have "SeqNum (TcpHdr ((p # ps) ! n)) =
       wrapFromIss (tcb (conn s)) (sendNxt (tcb (conn s)) + of_nat (length (concat (map Payload (take n (p # ps))))))"
      if "n < length (p # ps)" for n
      using that q p(3) iss n1(1) p0(5) lp by (cases n) (simp_all add: add.assoc)
    moreover have "\<forall>r \<in> set (p # ps). Payload r \<noteq> [] \<and> length (Payload r) \<le> 1360 \<and> Flags (TcpHdr r) = ACK \<and>
        AckNum (TcpHdr r) \<le> b"
      using ps p(2,4) lp m(1,2) b0 by (auto simp: ack_bound_def)
    ultimately show ?thesis
      using s'(1,2) s1(2) by (intro exI [of _ s'] exI [of _ "p # ps"]) simp
  qed
qed


lemma exSends: "sends_ok exEnv (exState (exConn st t))"
proof -
  have f: "findIp exDevice (V4 0x0A0A0102) = Inr (AddrPortFrom (V4 0x7F000001) 5100, ''if1'')"
    by (simp add: findIp_def getDstPrefix_def next_hop_def ex_simps)
  have "\<exists>es. SendTcp exEnv exDevice (V4 0x0A0A0102) p = Some ((int (length (Payload p)), None), es)" for p
  proof -
    let ?data = "slice_of (tcpEncode exEnv (TcpHdr p) @ Payload p)"
    obtain q where q: "createPacket exEnv exDevice (V4 0x0A0A0102) IpProtoTcp ?data = Some q"
      and d: "ipDst (Header q) = V4 0x0A0A0102" "Data q = ?data"
      by (auto simp: createPacket_def exDevice_def exEnv_def Let_def)
    have "\<exists>es. SendIP exEnv exDevice (V4 0x0A0A0102) IpProtoTcp ?data = Some (Inr (int (length (Payload p)) + 40), es)"
      by (simp add: SendIP_def q d f sendPacket_def)
         (simp add: exDevice_def exEnv_def Let_def slice_of_def AppendUint16_def d)
    then show ?thesis by (auto simp: SendTcp_def TcpHeaderLen_def ipHeaderLen_def)
  qed
  then show ?thesis by (simp add: sends_ok_def) (simp add: exConn_def AddrPortFrom_def)
qed

definition exPeer :: "cst \<Rightarrow> cst" where
  "exPeer s = s\<lparr>conn := (conn s)\<lparr>tcb := (tcb (conn s))\<lparr>sendUna := sendNxt (tcb (conn s)), sendWnd := 1000\<rparr>\<rparr>\<rparr>"

lemma exPeer_progress: "peer_progress E exPeer"
  by (auto simp: peer_progress_def exPeer_def resting_def sends_ok_def snd_inv_def snd_contents_def
      ring_read_def getSendCapacity_def wrappedDist_def tcbSize_def unat_eq_0)


end
