(* ===== verification/Delivery.thy ===== *)
theory Delivery
  imports Streams
begin

text \<open>
  Data from the network to the reader: what a segment with data does to the connection that
  receives it, the whole way of the bytes from \<^verbatim>\<open>VWrite\<close> on one side to \<^verbatim>\<open>VRead\<close> on
  the other, and the segments and reads for which it goes wrong.
\<close>

section \<open>A segment with data\<close>

text \<open>A connection that takes data: established, the read controller idle.\<close>

definition receiving :: "env \<Rightarrow> cst \<Rightarrow> bool" where
  "receiving E s \<longleftrightarrow> status (conn s) = Established \<and> rcvCtl (conn s) = RReady \<and>
     rcv_inv (tcb (conn s)) \<and> env_total E \<and> device_ok (dev s)"

text \<open>A segment that carries data and an acknowledgment of nothing that was not sent.\<close>

definition data_segment :: "TCB \<Rightarrow> TcpPacket \<Rightarrow> bool" where
  "data_segment t p \<longleftrightarrow> Flags (TcpHdr p) = ACK \<and> Payload p \<noteq> [] \<and>
     AckNum (TcpHdr p) \<le> wrapFromIss t (sendNxt t)"

lemma ack_no_other [simp]: "has_flag ACK ACK" "\<not> has_flag ACK RST" "\<not> has_flag ACK FIN" "\<not> has_flag ACK SYN"
  by (simp_all add: has_flag_def tcp_flag_defs)

lemma rcv_side_same:
  assumes "rcvNxt t' = rcvNxt t" "rcvLbr t' = rcvLbr t" "rcvBuf t' = rcvBuf t" "rcvWnd t' = rcvWnd t"
  shows "rcv_inv t' = rcv_inv t" "rcv_contents t' = rcv_contents t"
  using assms by (simp_all add: rcv_inv_def rcv_contents_def)

lemma established_ack:
  assumes "status (conn s) = Established" "AckNum (TcpHdr p) \<le> wrapFromIss (tcb (conn s)) (sendNxt (tcb (conn s)))"
  shows "\<exists>s1. handleAckOtherStates E p s = Some (None, s1) \<and> (s1 = s \<or> s1 = acceptAck (TcpHdr p) s)"
proof -
  have sw: "ackSwitch b c = c" if "status c = Established" for b c
    using that by (simp add: ackSwitch_def)
  have "(x\<lparr>conn := conn x\<rparr> :: cst) = x" for x by simp
  then show ?thesis
    using assms by (auto simp: handleAckOtherStates_def Let_def sw)
qed

lemma add2Read_sel:
  assumes "rcv_inv t"
  shows "rcvNxt (add2Read bs t) = rcvNxt t + of_nat (length bs)" "irs (add2Read bs t) = irs t"
    "iss (add2Read bs t) = iss t" "sendNxt (add2Read bs t) = sendNxt t"
    "length bs \<le> unat (rcvWnd t) \<Longrightarrow> unat (rcvWnd (add2Read bs t)) = unat (rcvWnd t) - length bs"
  using assms by (simp_all add: add2Read_eq rcv_inv_def unat_sub_of_nat)

lemma receive_data:
  assumes r: "receiving E s" and p: "data_segment (tcb (conn s)) p"
    and acc: "isSegmentAcceptable (tcb (conn s)) (SeqNum (TcpHdr p)) (of_nat (length (Payload p)))"
    and fits: "length (Payload p) \<le> unat (rcvWnd (tcb (conn s)))"
  shows "\<exists>s' ack. handleConnStatus E p s = Some (None, s') \<and> receiving E s' \<and>
    rcv_contents (tcb (conn s')) = rcv_contents (tcb (conn s)) @ Payload p \<and>
    rcvNxt (tcb (conn s')) = rcvNxt (tcb (conn s)) + of_nat (length (Payload p)) \<and>
    unat (rcvWnd (tcb (conn s'))) = unat (rcvWnd (tcb (conn s))) - length (Payload p) \<and>
    irs (tcb (conn s')) = irs (tcb (conn s)) \<and> iss (tcb (conn s')) = iss (tcb (conn s)) \<and>
    sendNxt (tcb (conn s')) = sendNxt (tcb (conn s)) \<and>
    segs (out s') = segs (out s) @ [ack] \<and> Flags (TcpHdr ack) = ACK \<and> Payload ack = [] \<and>
    AckNum (TcpHdr ack) = SeqNum (TcpHdr p) + of_nat (length (Payload p))"
proof -
  let ?t = "tcb (conn s)" and ?n = "length (Payload p)"
  have st: "status (conn s) = Established" "rcvCtl (conn s) = RReady" "rcv_inv ?t" "env_total E" "device_ok (dev s)"
    using r by (simp_all add: receiving_def)
  have fl: "Flags (TcpHdr p) = ACK" "Payload p \<noteq> []" "AckNum (TcpHdr p) \<le> wrapFromIss ?t (sendNxt ?t)"
    using p by (simp_all add: data_segment_def)
  obtain s1 where h: "handleAckOtherStates E p s = Some (None, s1)" and s1: "s1 = s \<or> s1 = acceptAck (TcpHdr p) s"
    using established_ack [OF st(1) fl(3)] by blast
  let ?t1 = "tcb (conn s1)"
  have f1: "dev s1 = dev s" "status (conn s1) = Established" "rcvCtl (conn s1) = RReady" "out s1 = out s"
    using s1 st by auto
  have sel1: "rcvNxt ?t1 = rcvNxt ?t" "rcvLbr ?t1 = rcvLbr ?t" "rcvBuf ?t1 = rcvBuf ?t" "rcvWnd ?t1 = rcvWnd ?t"
    "irs ?t1 = irs ?t" "iss ?t1 = iss ?t" "sendNxt ?t1 = sendNxt ?t"
    using s1 acceptAck_tcb [of s "TcpHdr p"] by (auto simp: Let_def)
  have inv1: "rcv_inv ?t1" "rcv_contents ?t1 = rcv_contents ?t"
    using rcv_side_same [OF sel1(1-4)] st(3) by simp_all
  have fits1: "?n \<le> unat (rcvWnd ?t1)" using fits by (simp add: sel1)
  then have n16: "\<not> rcvWnd ?t1 < of_nat ?n"
    using unat_u16_bound [of "rcvWnd ?t1"] by (simp add: word_less_nat_alt unat_of_nat take_bit_nat_eq_self_iff)
  let ?c = "conn s1" and ?t2 = "add2Read (Payload p) ?t1"
  let ?ackNum = "SeqNum (TcpHdr p) + of_nat ?n" and ?nxt = "wrapFromIss ?t (sendNxt ?t)"
  have put: "AddRead (Payload p) ?c = Some (?c\<lparr>rcvCtl := RPut (Payload p)\<rparr>)"
    using f1 by (simp add: AddRead_def)
  have step: "rcv_step (?c\<lparr>rcvCtl := RPut (Payload p)\<rparr>) = ?c\<lparr>tcb := ?t2\<rparr>"
    using n16 f1(3) by (cases ?c) (simp add: rcv_step_def)
  have dev: "device_ok (dev (s1\<lparr>conn := c\<rparr>))" for c using st(5) f1 by simp
  have rp: "\<exists>es. receivePayload E p ?nxt s1 = Some (s1\<lparr>conn := ?c\<lparr>tcb := ?t2\<rparr>, out := out s1 @ es\<rparr>) \<and>
      (\<exists>ack. segs es = [ack] \<and> Flags (TcpHdr ack) = ACK \<and> Payload ack = [] \<and> AckNum (TcpHdr ack) = ?ackNum)"
  proof (cases "early s1")
    case True
    let ?s2 = "s1\<lparr>conn := ?c\<lparr>rcvCtl := RPut (Payload p)\<rparr>\<rparr>"
    obtain r es where a: "sendAck E ?nxt ?ackNum ?s2 = Some (r, ?s2\<lparr>out := out ?s2 @ es\<rparr>)"
      and e: "segs es = [CreateTcpPacket E (conn ?s2) ?nxt ?ackNum ACK []]"
      using sendAck_total [OF st(4) dev] by blast
    have "receivePayload E p ?nxt s1 = Some (s1\<lparr>conn := ?c\<lparr>tcb := ?t2\<rparr>, out := out s1 @ es\<rparr>)"
      using True fl(2) f1(2) put a step by (simp add: receivePayload_def Let_def)
    with e show ?thesis by (auto simp: CreateTcpPacket_def Let_def)
  next
    case False
    let ?s2 = "s1\<lparr>conn := ?c\<lparr>tcb := ?t2\<rparr>\<rparr>"
    obtain r es where a: "sendAck E ?nxt ?ackNum ?s2 = Some (r, ?s2\<lparr>out := out ?s2 @ es\<rparr>)"
      and e: "segs es = [CreateTcpPacket E (conn ?s2) ?nxt ?ackNum ACK []]"
      using sendAck_total [OF st(4) dev] by blast
    have "receivePayload E p ?nxt s1 = Some (s1\<lparr>conn := ?c\<lparr>tcb := ?t2\<rparr>, out := out s1 @ es\<rparr>)"
      using False fl(2) f1(2) put a step by (simp add: receivePayload_def Let_def)
    with e show ?thesis by (auto simp: CreateTcpPacket_def Let_def)
  qed
  then obtain es ack where rp: "receivePayload E p ?nxt s1 = Some (s1\<lparr>conn := ?c\<lparr>tcb := ?t2\<rparr>, out := out s1 @ es\<rparr>)"
    and ack: "segs es = [ack]" "Flags (TcpHdr ack) = ACK" "Payload ack = []" "AckNum (TcpHdr ack) = ?ackNum" by blast
  let ?s' = "s1\<lparr>conn := ?c\<lparr>tcb := ?t2\<rparr>, out := out s1 @ es\<rparr>"
  have "processSegment E p s = Some ?s'"
    using fl(1) st(1) h rp by (simp add: processSegment_def processAck_def openOnAck_def ackByStatus_def processRest_def Let_def)
  then have "handleConnStatus E p s = Some (None, ?s')"
    using st(1) acc fl(1) by (simp add: handleConnStatus_def handleOtherStates_def Let_def)
  moreover have "rcv_inv ?t2" "rcv_contents ?t2 = rcv_contents ?t @ Payload p"
    using rcv.put_inv [OF inv1(1) fits1] rcv.put_contents [OF inv1(1) fits1] inv1(2) by simp_all
  moreover have "receiving E ?s'" using st f1 calculation(2) by (simp add: receiving_def)
  ultimately show ?thesis
    using add2Read_sel [OF inv1(1)] fits1 ack f1(4) sel1
    by (intro exI [of _ ?s'] exI [of _ ack]) simp
qed

section \<open>A whole stream\<close>

text \<open>The next byte is acceptable as long as the window is open and does not cross the wrap.\<close>

lemma next_acceptable:
  assumes "unat (wrapFromIrs t (rcvNxt t)) + unat (rcvWnd t) < 2 ^ 32" and "0 < n" and "n \<le> unat (rcvWnd t)"
  shows "isSegmentAcceptable t (wrapFromIrs t (rcvNxt t)) (of_nat n)"
proof -
  let ?q = "wrapFromIrs t (rcvNxt t)"
  have "unat (?q + ucast (rcvWnd t)) = unat ?q + unat (rcvWnd t)"
    using assms(1) by (simp add: unat_word_ariths)
  then have "?q < ?q + ucast (rcvWnd t)" using assms(2,3) by (simp add: word_less_nat_alt)
  moreover have "(of_nat n :: u32) \<noteq> 0"
    using assms(2,3) unat_u16_bound [of "rcvWnd t"] by (simp add: word_unat_eq_iff unat_of_nat take_bit_nat_eq_self_iff)
  moreover have "0 < rcvWnd t" using assms(2,3) by (simp add: word_less_nat_alt)
  ultimately show ?thesis by (auto simp: isSegmentAcceptable_def Let_def)
qed

text \<open>The segments of a run arrive one after the other.\<close>

fun deliver :: "env \<Rightarrow> TcpPacket list \<Rightarrow> cst \<Rightarrow> cst option" where
  "deliver E [] s = Some s"
| "deliver E (p # ps) s = do { (_, s) \<leftarrow> handleConnStatus E p s; deliver E ps s }"

text \<open>Segments with data, each with the sequence number of its first byte, from a position on.\<close>

fun in_sequence :: "TCB \<Rightarrow> u64 \<Rightarrow> TcpPacket list \<Rightarrow> bool" where
  "in_sequence t pos [] = True"
| "in_sequence t pos (p # ps) =
     (SeqNum (TcpHdr p) = wrapFromIss t pos \<and> in_sequence t (pos + of_nat (length (Payload p))) ps)"

lemma in_sequence_nth:
  "(\<forall>n < length ps. SeqNum (TcpHdr (ps ! n)) =
      wrapFromIss t (pos + of_nat (length (concat (map Payload (take n ps)))))) \<Longrightarrow> in_sequence t pos ps"
proof (induction ps arbitrary: pos)
  case Nil
  then show ?case by simp
next
  case (Cons p ps)
  have "in_sequence t (pos + of_nat (length (Payload p))) ps"
  proof (rule Cons.IH, intro allI impI)
    fix n assume "n < length ps"
    with Cons.prems [rule_format, of "Suc n"]
    show "SeqNum (TcpHdr (ps ! n)) =
      wrapFromIss t (pos + of_nat (length (Payload p)) + of_nat (length (concat (map Payload (take n ps)))))"
      by (simp add: add.assoc)
  qed
  with Cons.prems [rule_format, of 0] show ?case by simp
qed

lemma deliver_in_sequence:
  assumes "receiving E r" and "in_sequence t (rcvNxt (tcb (conn r))) ps" and "iss t = irs (tcb (conn r))"
    and "\<forall>p \<in> set ps. data_segment (tcb (conn r)) p"
    and "length (concat (map Payload ps)) \<le> unat (rcvWnd (tcb (conn r)))"
    and "unat (irs (tcb (conn r))) + unat (rcvNxt (tcb (conn r))) + unat (rcvWnd (tcb (conn r))) < 2 ^ 32"
  shows "\<exists>r'. deliver E ps r = Some r' \<and> receiving E r' \<and>
    rcv_contents (tcb (conn r')) = rcv_contents (tcb (conn r)) @ concat (map Payload ps) \<and>
    rcvNxt (tcb (conn r')) = rcvNxt (tcb (conn r)) + of_nat (length (concat (map Payload ps)))"
  using assms
proof (induction ps arbitrary: r)
  case Nil
  then show ?case by simp
next
  case (Cons p ps)
  let ?t = "tcb (conn r)"
  have pos: "wrapFromIss t x = wrapFromIrs ?t x" for x
    using Cons.prems(3) by (simp add: wrapFromIss_def wrapFromIrs_def)
  have fits: "length (Payload p) \<le> unat (rcvWnd ?t)" "0 < length (Payload p)"
    using Cons.prems(4,5) by (simp_all add: data_segment_def)
  have q: "SeqNum (TcpHdr p) = wrapFromIrs ?t (rcvNxt ?t)" using Cons.prems(2) by (simp add: pos)
  have "unat (wrapFromIrs ?t (rcvNxt ?t)) + unat (rcvWnd ?t) < 2 ^ 32"
    using Cons.prems(6) by (subst unat_wrapFromIrs) simp_all
  from next_acceptable [OF this fits(2,1)]
  have acc: "isSegmentAcceptable ?t (SeqNum (TcpHdr p)) (of_nat (length (Payload p)))" by (simp add: q)
  have dp: "data_segment ?t p" using Cons.prems(4) by simp
  obtain r1 where h: "handleConnStatus E p r = Some (None, r1)" and r1: "receiving E r1"
    "rcv_contents (tcb (conn r1)) = rcv_contents ?t @ Payload p"
    "rcvNxt (tcb (conn r1)) = rcvNxt ?t + of_nat (length (Payload p))"
    "unat (rcvWnd (tcb (conn r1))) = unat (rcvWnd ?t) - length (Payload p)"
    "irs (tcb (conn r1)) = irs ?t" "iss (tcb (conn r1)) = iss ?t" "sendNxt (tcb (conn r1)) = sendNxt ?t"
    using receive_data [OF Cons.prems(1) dp acc fits(1)] by blast
  have "unat (rcvNxt ?t + of_nat (length (Payload p))) = unat (rcvNxt ?t) + length (Payload p)"
    using Cons.prems(6) fits by (intro unat_add_of_nat) simp
  then have w: "unat (irs (tcb (conn r1))) + unat (rcvNxt (tcb (conn r1))) + unat (rcvWnd (tcb (conn r1))) < 2 ^ 32"
    using Cons.prems(6) fits r1 by simp
  have "in_sequence t (rcvNxt (tcb (conn r1))) ps" "iss t = irs (tcb (conn r1))"
    "\<forall>p \<in> set ps. data_segment (tcb (conn r1)) p"
    "length (concat (map Payload ps)) \<le> unat (rcvWnd (tcb (conn r1)))"
    using Cons.prems(2-5) r1 by (simp_all add: data_segment_def wrapFromIss_def)
  from Cons.IH [OF r1(1) this w] h r1 show ?case by (auto simp: add.assoc)
qed

section \<open>Reading\<close>

lemma rcv_full_window:
  "rcv_inv t \<Longrightarrow> rcvWnd t = ucast tcbSize \<longleftrightarrow> rcv_contents t = []"
proof -
  assume "rcv_inv t"
  from rcv.room_cap [OF this] have "unat (rcvWnd t) = 65535 \<longleftrightarrow> length (rcv_contents t) = 0" by linarith
  then show ?thesis by (simp add: word_unat_eq_iff tcbSize_def)
qed

lemma VRead_available:
  assumes "status c \<in> {FinWait1, FinWait2, CloseWait, Established}" and "rcvCtl c = RReady"
    and "rcv_inv (tcb c)" and "rcv_contents (tcb c) \<noteq> []" and "n < 2 ^ 32"
  shows "\<exists>t. VRead n c = Some ((min n (length (rcv_contents (tcb c))), None, take n (rcv_contents (tcb c))), c\<lparr>tcb := t\<rparr>) \<and>
    rcv_inv t \<and> rcv_contents t = drop n (rcv_contents (tcb c))"
proof -
  let ?n = "ucast (ucast (of_nat n :: u32) :: u64) :: u32"
  have n: "unat (of_nat n :: u32) = n" using assms(5) by (simp add: unat_of_nat take_bit_nat_eq_self_iff)
  have w: "rcvWnd (tcb c) \<noteq> ucast tcbSize" using rcv_full_window [OF assms(3)] assms(4) by simp
  obtain t buf where g: "readFromRecv (of_nat n) (tcb c) = (t, buf)" by (cases "readFromRecv (of_nat n) (tcb c)")
  have r: "buf = take n (rcv_contents (tcb c))" "rcv_inv t" "rcv_contents t = drop n (rcv_contents (tcb c))"
    using rcv.get_out [OF assms(3), of "of_nat n"] rcv.get_inv [OF assms(3), of "of_nat n"]
      rcv.get_contents [OF assms(3), of "of_nat n"] g n by simp_all
  have "ReadRecv (of_nat n) c = Some (buf, c\<lparr>tcb := t\<rparr>)"
    using assms(2) w g by (cases c) (simp add: ReadRecv_def ReadRecv_request_def ReadRecv_reply_def rcv_step_def)
  then show ?thesis using assms(1) r by (auto simp: VRead_def min.commute)
qed

text \<open>
  \<^verbatim>\<open>VRead\<close> returns the first bytes of what has arrived, as many as the buffer takes,
  without an error, and leaves the rest for the next read; a closed or opening connection
  refuses the read and changes nothing.
\<close>

theorem VRead_takes_prefix:
  assumes "rcvCtl c = RReady" and "rcv_inv (tcb c)" and "rcv_contents (tcb c) \<noteq> []" and "n < 2 ^ 32"
  shows "if status c \<in> {FinWait1, FinWait2, CloseWait, Established}
    then \<exists>t. VRead n c = Some ((min n (length (rcv_contents (tcb c))), None, take n (rcv_contents (tcb c))), c\<lparr>tcb := t\<rparr>) \<and>
      rcv_inv t \<and> rcv_contents t = drop n (rcv_contents (tcb c))
    else VRead n c = Some ((0, Some ErrClosing, []), c)"
  using VRead_available [OF _ assms] by (simp add: VRead_def)

lemma exData: "rcv_inv (add2Read [1, 2, 3] (createTCB 5))" "rcv_contents (add2Read [1, 2, 3] (createTCB 5)) = [1, 2, 3]"
  using rcv.put_inv [OF createTCB_inv(1), of "[1, 2, 3]"] rcv.put_contents [OF createTCB_inv(1), of "[1, 2, 3]"]
  by (simp_all add: createTCB_empty)

theorem VRead_takes_prefix_witness:
  "\<exists>c. VRead 2 (exConn Established (add2Read [1, 2, 3] (createTCB 5))) = Some ((2, None, [1, 2]), c) \<and>
     rcv_contents (tcb c) = [3]"
proof -
  have r: "rcvCtl (exConn Established (add2Read [1, 2, 3] (createTCB 5))) = RReady" by simp
  have i: "rcv_inv (tcb (exConn Established (add2Read [1, 2, 3] (createTCB 5))))" using exData by simp
  have c: "rcv_contents (tcb (exConn Established (add2Read [1, 2, 3] (createTCB 5)))) \<noteq> []" using exData by simp
  from VRead_takes_prefix [OF r i c, of 2] exData show ?thesis by auto
qed

text \<open>
  C4: data crosses the network unchanged.  One side writes while its other goroutines make
  progress and acknowledge at most \<open>b\<close>, which the other side has sent; its segments reach
  the other side in order.  Then the whole write is reported as sent, and a read on the
  other side returns exactly the bytes written.  The data fit the receive window, and the
  window does not cross the 32-bit wrap.
\<close>

theorem write_read_across:
  assumes "resting E s" and "\<forall>other \<in> set others. peer_progress E other"
    and "slice_len data \<le> length others" and "elems data \<noteq> []"
    and "ack_bound b s" and "\<forall>other \<in> set others. \<forall>s. ack_bound b s \<longrightarrow> ack_bound b (other s)"
    and "receiving E' r" and "rcv_contents (tcb (conn r)) = []"
    and "b \<le> wrapFromIss (tcb (conn r)) (sendNxt (tcb (conn r)))"
    and "irs (tcb (conn r)) = iss (tcb (conn s))" and "rcvNxt (tcb (conn r)) = sendNxt (tcb (conn s))"
    and "slice_len data \<le> unat (rcvWnd (tcb (conn r)))"
    and "unat (irs (tcb (conn r))) + unat (rcvNxt (tcb (conn r))) + unat (rcvWnd (tcb (conn r))) < 2 ^ 32"
  shows "\<exists>s' ps r' c. VWrite E others data s = Some ((int (slice_len data), None), s') \<and>
    segs (out s') = segs (out s) @ ps \<and> deliver E' ps r = Some r' \<and>
    VRead (slice_len data) (conn r') = Some ((slice_len data, None, elems data), c)"
proof -
  obtain s' ps where w: "VWrite E others data s = Some ((int (slice_len data), None), s')"
    "segs (out s') = segs (out s) @ ps" "concat (map Payload ps) = elems data"
    and ps: "\<forall>p \<in> set ps. Payload p \<noteq> [] \<and> length (Payload p) \<le> 1360 \<and> Flags (TcpHdr p) = ACK \<and> AckNum (TcpHdr p) \<le> b"
    and q: "\<forall>n < length ps. SeqNum (TcpHdr (ps ! n)) =
       wrapFromIss (tcb (conn s)) (sendNxt (tcb (conn s)) + of_nat (length (concat (map Payload (take n ps)))))"
    using VWrite_loop_ok [OF assms(1,2) _ _ assms(5,6), of 0 data] assms(3) by (fastforce simp: VWrite_def)
  have d: "\<forall>p \<in> set ps. data_segment (tcb (conn r)) p"
    using ps assms(9) by (auto simp: data_segment_def)
  have l: "length (concat (map Payload ps)) \<le> unat (rcvWnd (tcb (conn r)))"
    using assms(12) by (simp add: w(3) slice_len_def)
  obtain r' where r': "deliver E' ps r = Some r'" "receiving E' r'" "rcv_contents (tcb (conn r')) = elems data"
    using deliver_in_sequence [OF assms(7) _ assms(10) [symmetric] d l assms(13)]
      in_sequence_nth [OF q] assms(8,11) w(3) by auto
  have "slice_len data < 2 ^ 32"
    using assms(12) unat_u16_bound [of "rcvWnd (tcb (conn r))"] by simp
  moreover have "status (conn r') \<in> {FinWait1, FinWait2, CloseWait, Established}" "rcvCtl (conn r') = RReady"
    "rcv_inv (tcb (conn r'))" using r'(2) by (simp_all add: receiving_def)
  ultimately have "\<exists>c. VRead (slice_len data) (conn r') = Some ((slice_len data, None, elems data), c)"
    using VRead_available [of "conn r'" "slice_len data"] r'(3) assms(4) by (auto simp: slice_len_def)
  with w r'(1) show ?thesis by blast
qed

definition exReceiver :: cst where
  "exReceiver = exState (exConn Established ((createTCB 9)\<lparr>irs := 5, rcvNxt := 1, rcvLbr := 1\<rparr>))"

lemma exReceiver_ok: "receiving exEnv exReceiver" "rcv_contents (tcb (conn exReceiver)) = []"
  using createTCB_inv(1) [of 9] exDevice_sends
  by (simp_all add: receiving_def exReceiver_def rcv_inv_def rcv_contents_def ring_read_def)

theorem write_read_across_witness:
  "\<exists>s' ps r' c. VWrite exEnv (replicate 3 exPeer) (slice_of [1, 2, 3]) (exState (exConn Established (createTCB 5)))
      = Some ((3, None), s') \<and> segs (out s') = ps \<and> deliver exEnv ps exReceiver = Some r' \<and>
    VRead 3 (conn r') = Some ((3, None, [1, 2, 3]), c)"
proof -
  let ?s = "exState (exConn Established (createTCB 5))"
  have 1: "resting exEnv ?s"
    using exSends [of Established "createTCB 5"] createTCB_inv(2) createTCB_empty(2)
    by (simp add: resting_def) (simp add: exConn_def)
  have 2: "\<forall>other \<in> set (replicate 3 exPeer). peer_progress exEnv other"
    using exPeer_progress by simp
  have 3: "slice_len (slice_of [1, 2, 3]) \<le> length (replicate 3 exPeer)" "elems (slice_of [1, 2, 3]) \<noteq> []"
    by (simp_all add: slice_len_def slice_of_def)
  have 4: "ack_bound 0 ?s" "\<forall>other \<in> set (replicate 3 exPeer). \<forall>s. ack_bound 0 s \<longrightarrow> ack_bound 0 (other s)"
    by (simp_all add: ack_bound_def exPeer_def wrapFromIrs_def)
  have 5: "irs (tcb (conn exReceiver)) = iss (tcb (conn ?s))" "rcvNxt (tcb (conn exReceiver)) = sendNxt (tcb (conn ?s))"
    "slice_len (slice_of [1, 2, 3]) \<le> unat (rcvWnd (tcb (conn exReceiver)))"
    "unat (irs (tcb (conn exReceiver))) + unat (rcvNxt (tcb (conn exReceiver))) + unat (rcvWnd (tcb (conn exReceiver))) < 2 ^ 32"
    by (simp_all add: exReceiver_def slice_len_def slice_of_def)
  have len: "slice_len (slice_of [1, 2, 3]) = 3" by (simp add: slice_len_def slice_of_def)
  from write_read_across [OF 1 2 3 4 exReceiver_ok _ 5, unfolded len] show ?thesis
    by (auto simp: slice_of_def)
qed

end
