(* ===== verification/Rip.thy ===== *)
theory Rip
  imports Device
begin

text \<open>
  The routing protocol: \<^verbatim>\<open>pkg/protocol/rip.go\<close> and the neighbour bookkeeping of
  \<^verbatim>\<open>protocol.go\<close> (\<^verbatim>\<open>addNeighboursIfStale\<close>, \<^verbatim>\<open>timeout\<close>, \<^verbatim>\<open>remove\<close>).
  The lemmas show that a received response relaxes each route on its own, what is
  advertised to whom, and what a lost neighbour leaves behind.
\<close>

section \<open>Building and sending a message\<close>

definition rip_entry :: "Addr \<Rightarrow> Prefix \<Rightarrow> Hop \<Rightarrow> Route option" where
  "rip_entry dst prefix hop =
     do {
       prefixBytes \<leftarrow> As4 (pfxAddr prefix);
       address \<leftarrow> Uint32 prefixBytes;
       let cost = (if hopAddr hop = dst then INFINITY else hopCost hop);
       Some \<lparr>Cost = cost, Address = address, Mask = Bits2Mask (word_of_int (pfxBits prefix))\<rparr>
     }"

fun CreateRipPacket_loop :: "Addr \<Rightarrow> RoutingTable \<Rightarrow> RipHeader \<Rightarrow> RipHeader option" where
  "CreateRipPacket_loop dst [] h = Some h"
| "CreateRipPacket_loop dst ((prefix, hop) # table) h =
     do {
       r \<leftarrow> rip_entry dst prefix hop;
       let hosts = Hosts h @ [r];
       CreateRipPacket_loop dst table (h\<lparr>Hosts := hosts, Num_entries := of_nat (length hosts)\<rparr>)
     }"

definition CreateRipPacket :: "u16 \<Rightarrow> Addr \<Rightarrow> RoutingTable \<Rightarrow> (SendError + RipHeader) option" where
  "CreateRipPacket command dst table =
     (let h = newRipHeader\<lparr>Command := command\<rparr>
      in if Response = command then map_option Inr (CreateRipPacket_loop dst table h)
         else if Request \<noteq> command then Some (Inl (ErrRip ErrInvalidCommand))
         else Some (Inr h))"

definition SendRip :: "env \<Rightarrow> Device \<Rightarrow> u16 \<Rightarrow> Addr \<Rightarrow> RoutingTable \<Rightarrow>
    ((SendError + unit) \<times> effect list) option" where
  "SendRip E d command router table =
     (if length table = 0 then Some (Inr (), [])
      else do {
        hr \<leftarrow> CreateRipPacket command router table;
        case hr of
          Inl e \<Rightarrow> Some (Inl e, [])
        | Inr h \<Rightarrow>
            (case Marshal (Some h) of
               Panic \<Rightarrow> None
             | Err e \<Rightarrow> Some (Inl (ErrRip e), [])
             | Ok ripBytes \<Rightarrow>
                 do {
                   (r, es) \<leftarrow> SendIP E d router ripProtocol (slice_of ripBytes);
                   case r of Inl e \<Rightarrow> Some (Inl e, es) | Inr _ \<Rightarrow> Some (Inr (), es)
                 })
      })"

text \<open>The three loops over the RIP neighbours: an error only ends the current round.\<close>

fun send_rip_all :: "env \<Rightarrow> Device \<Rightarrow> u16 \<Rightarrow> Addr list \<Rightarrow> RoutingTable \<Rightarrow> effect list option" where
  "send_rip_all E d command [] table = Some []"
| "send_rip_all E d command (router # routers) table =
     do {
       (r, es) \<leftarrow> SendRip E d command router table;
       es' \<leftarrow> send_rip_all E d command routers table;
       Some (es @ es')
     }"

text \<open>One round of the periodic broadcast \<^verbatim>\<open>Rip\<close>.\<close>

definition Rip_round :: "env \<Rightarrow> Device \<Rightarrow> effect list option" where
  "Rip_round E d = send_rip_all E d Response (RipNeighbors d) (Table d)"

section \<open>Receiving a message\<close>

definition addNeighboursIfStale :: "Device \<Rightarrow> Packet \<Rightarrow> Device \<times> effect list" where
  "addNeighboursIfStale d packet =
     (let src = ipSrc (Header packet)
      in if src \<in> set (RipNeighbors d) then (d, [])
         else (d\<lparr>RipNeighbors := RipNeighbors d @ [src],
                 ripChannels := mput src 0 (ripChannels d)\<rparr>, [GoTimeout src]))"

definition rip_cost :: "u32 \<Rightarrow> u32" where
  "rip_cost cost =
     (if cost > INFINITY then INFINITY else if cost < INFINITY then cost + 1 else cost)"

definition rip_prefix :: "Route \<Rightarrow> Prefix option" where
  "rip_prefix host =
     map_option (\<lambda>addr. PrefixFrom addr (uint (Mask2Bits (Mask host))))
       (AddrFromSlice4 (AppendUint32 [] (Address host)))"

text \<open>One entry of a response: the table and the triggered updates.\<close>

definition rip_update :: "Addr \<Rightarrow> Prefix \<Rightarrow> u32 \<Rightarrow> RoutingTable \<times> RoutingTable \<Rightarrow> RoutingTable \<times> RoutingTable" where
  "rip_update src prefix cost st =
     (let (table, triggered) = st;
          new = \<lparr>hopAddr = src, hopCost = cost\<rparr>
      in case mget table prefix of
           None \<Rightarrow>
             if cost < INFINITY then (mput prefix new table, mput prefix new triggered)
             else (table, triggered)
         | Some currHop \<Rightarrow>
             if cost < INFINITY then
               (if cost < hopCost currHop
                then (mput prefix new table, mput prefix new triggered)
                else if cost > hopCost currHop \<and> hopAddr currHop = src
                then (mput prefix new table, mput prefix new triggered)
                else (table, triggered))
             else
               (if hopCost currHop > 0 \<and> hopAddr currHop = src
                then (mdel prefix table, mput prefix new triggered)
                else (table, triggered)))"

text \<open>The loop over the routes; the flag says that the handler returned from inside it.\<close>

fun rip_hosts :: "Addr \<Rightarrow> Route list \<Rightarrow> RoutingTable \<times> RoutingTable \<Rightarrow> (RoutingTable \<times> RoutingTable) \<times> bool" where
  "rip_hosts src [] st = (st, False)"
| "rip_hosts src (host # hosts) st =
     (case AddrFromSlice4 (AppendUint32 [] (Address host)) of
        None \<Rightarrow> (st, True)
      | Some addr \<Rightarrow>
          if \<not> Addr_IsValid addr then (st, True)
          else
            let prefix = PrefixFrom addr (uint (Mask2Bits (Mask host)))
            in rip_hosts src hosts (rip_update src prefix (rip_cost (Cost host)) st))"

definition RipHandler :: "env \<Rightarrow> Device \<Rightarrow> Packet \<Rightarrow> (Device \<times> effect list) option" where
  "RipHandler E d packet =
     (case ParseHeader (Some (Data packet)) of
        Panic \<Rightarrow> None
      | Err e \<Rightarrow> Some (d, [])
      | Ok ripHeader \<Rightarrow>
          let (d, es) = addNeighboursIfStale d packet;
              src = ipSrc (Header packet)
          in if Command ripHeader = Response then
               (case rip_hosts src (Hosts ripHeader) (Table d, []) of
                  ((table, triggered), returned) \<Rightarrow>
                    let d = d\<lparr>Table := table\<rparr>
                    in if returned then Some (d, es)
                       else map_option (\<lambda>es'. (d, es @ es'))
                              (send_rip_all E d Response (RipNeighbors d) triggered))
             else if Command ripHeader = Request then
               map_option (\<lambda>(r, es'). (d, es @ es')) (SendRip E d Response src (Table d))
             else Some (d, es))"

section \<open>Losing a neighbour\<close>

text \<open>\<open>None\<close> is the index out of range of an empty slice.\<close>

definition remove_at :: "Addr list \<Rightarrow> nat \<Rightarrow> Addr list option" where
  "remove_at s i =
     (if i < length s then Some (take (length s - 1) (s[i := s ! (length s - 1)])) else None)"

fun index_of :: "Addr \<Rightarrow> nat \<Rightarrow> Addr list \<Rightarrow> nat option" where
  "index_of ip i [] = None"
| "index_of ip i (addr # addrs) = (if addr = ip then Some i else index_of ip (Suc i) addrs)"

fun timeout_scan :: "Addr \<Rightarrow> RoutingTable \<Rightarrow> RoutingTable \<times> Prefix list \<Rightarrow> RoutingTable \<times> Prefix list" where
  "timeout_scan ip [] acc = acc"
| "timeout_scan ip ((prefix, hop) # table) (tmp, pre2Delete) =
     timeout_scan ip table
       (if hopAddr hop = ip
        then (mput prefix \<lparr>hopAddr = hopAddr hop, hopCost = INFINITY\<rparr> tmp, pre2Delete @ [prefix])
        else (mput prefix \<lparr>hopAddr = hopAddr hop, hopCost = hopCost hop\<rparr> tmp, pre2Delete))"

text \<open>The expiry branch of \<^verbatim>\<open>timeout\<close>: twelve seconds without a packet from \<open>ip\<close>.\<close>

definition timeout_expire :: "env \<Rightarrow> Device \<Rightarrow> Addr \<Rightarrow> (Device \<times> effect list) option" where
  "timeout_expire E d ip =
     (case index_of ip 0 (RipNeighbors d) of
        None \<Rightarrow> Some (d, [])
      | Some index \<Rightarrow>
          do {
            neis \<leftarrow> remove_at (RipNeighbors d) index;
            _ \<leftarrow> mget (ripChannels d) ip;
            let (tmp, pre2Delete) = timeout_scan ip (Table d) ([], []);
            let d = d\<lparr>RipNeighbors := neis, ripChannels := mdel ip (ripChannels d),
                      Table := fold mdel pre2Delete (Table d)\<rparr>;
            es \<leftarrow> send_rip_all E d Response (RipNeighbors d) tmp;
            Some (d, es)
          })"

text \<open>
  \<^verbatim>\<open>timeoutHandler\<close>: a token for the neighbour's timeout goroutine; \<open>None\<close> when
  the channel is full and the sender waits.
\<close>

definition timeoutHandler :: "Device \<Rightarrow> Addr \<Rightarrow> Device option" where
  "timeoutHandler d ip =
     (case mget (ripChannels d) ip of
        None \<Rightarrow> Some d
      | Some n \<Rightarrow> if n < 5 then Some (d\<lparr>ripChannels := mput ip (Suc n) (ripChannels d)\<rparr>) else None)"

section \<open>A response relaxes each route on its own\<close>

text \<open>
  The abstract update of one routing entry: distance-vector relaxation of the current hop
  (\<open>None\<close> is no route) with an offer of cost \<open>c\<close> from \<open>src\<close>.
\<close>

definition rip_relax :: "Addr \<Rightarrow> u32 \<Rightarrow> Hop option \<Rightarrow> Hop option" where
  "rip_relax src c cur =
     (if c < INFINITY
      then (case cur of
              None \<Rightarrow> Some \<lparr>hopAddr = src, hopCost = c\<rparr>
            | Some hop \<Rightarrow>
                if c < hopCost hop \<or> hopCost hop < c \<and> hopAddr hop = src
                then Some \<lparr>hopAddr = src, hopCost = c\<rparr> else Some hop)
      else (case cur of
              None \<Rightarrow> None
            | Some hop \<Rightarrow> if 0 < hopCost hop \<and> hopAddr hop = src then None else Some hop))"

definition rip_key :: "Route \<Rightarrow> Prefix" where
  "rip_key host = PrefixFrom (V4 (Address host)) (uint (Mask2Bits (Mask host)))"

definition rip_step :: "Addr \<Rightarrow> Route \<Rightarrow> RoutingTable \<Rightarrow> RoutingTable" where
  "rip_step src host table = fst (rip_update src (rip_key host) (rip_cost (Cost host)) (table, []))"

lemma rip_prefix_key: "rip_prefix host = Some (rip_key host)"
  by (simp add: rip_prefix_def rip_key_def)

lemma rip_update_fst: "fst (rip_update src p c (table, tr)) = fst (rip_update src p c (table, []))"
  by (simp add: rip_update_def Let_def split: option.split)

lemma rip_update_get:
  "mget (fst (rip_update src p c (table, tr))) q =
     (if q = p then rip_relax src c (mget table q) else mget table q)"
  by (auto simp: rip_update_def rip_relax_def Let_def gomap_simps split: option.splits)

lemma rip_update_wf:
  "wf_map table \<Longrightarrow> wf_map (fst (rip_update src p c (table, tr)))"
  by (simp add: rip_update_def Let_def split: option.split)

interpretation rip: keyed_update rip_key "\<lambda>host. rip_relax src (rip_cost (Cost host))" "rip_step src"
  for src
  by unfold_locales (simp_all add: rip_step_def rip_update_get rip_update_wf)

lemma rip_hosts_eq:
  "rip_hosts src hosts (table, tr) =
     ((fold (rip_step src) hosts table, snd (fst (rip_hosts src hosts (table, tr)))), False)"
proof (induction hosts arbitrary: table tr)
  case Nil
  then show ?case by simp
next
  case (Cons host hosts)
  obtain table' tr' where u: "rip_update src (rip_key host) (rip_cost (Cost host)) (table, tr) = (table', tr')"
    by (cases "rip_update src (rip_key host) (rip_cost (Cost host)) (table, tr)")
  then have "table' = rip_step src host table"
    by (metis fst_conv rip_step_def rip_update_fst)
  with u Cons.IH [of table' tr'] show ?case
    by (simp add: rip_key_def [symmetric])
qed

lemma addNeighboursIfStale_table [simp]:
  "Table (fst (addNeighboursIfStale d p)) = Table d"
  by (simp add: addNeighboursIfStale_def Let_def)

text \<open>What the handler leaves of the table, in every case.\<close>

lemma RipHandler_table:
  assumes "RipHandler E d packet = Some (d', es)"
  shows "Table d' =
    (case ParseHeader (Some (Data packet)) of
       Ok h \<Rightarrow> if Command h = Response
               then fold (rip_step (ipSrc (Header packet))) (Hosts h) (Table d) else Table d
     | _ \<Rightarrow> Table d)"
proof (cases "ParseHeader (Some (Data packet))")
  case (Ok h)
  obtain d1 es1 where a: "addNeighboursIfStale d packet = (d1, es1)"
    by (cases "addNeighboursIfStale d packet")
  then have t1: "Table d1 = Table d"
    by (metis addNeighboursIfStale_table fst_conv)
  let ?src = "ipSrc (Header packet)"
  obtain tb tr rt where r: "rip_hosts ?src (Hosts h) (Table d, []) = ((tb, tr), rt)"
    by (metis prod.exhaust)
  with rip_hosts_eq [of ?src "Hosts h" "Table d" "[]"]
  have "tb = fold (rip_step ?src) (Hosts h) (Table d)" and "\<not> rt" by simp_all
  with assms Ok a t1 r show ?thesis
    by (auto simp: RipHandler_def Let_def split: if_splits)
qed (use assms in \<open>auto simp: RipHandler_def\<close>)

section \<open>What is sent\<close>

text \<open>The keys of the table are valid IPv4 prefixes, and learned costs are below infinity.\<close>

definition ipv4_prefix :: "Prefix \<Rightarrow> bool" where
  "ipv4_prefix p \<longleftrightarrow> (\<exists>a. pfxAddr p = V4 a) \<and> 0 \<le> pfxBits p \<and> pfxBits p \<le> 32"

definition good_table :: "RoutingTable \<Rightarrow> bool" where
  "good_table table \<longleftrightarrow> wf_map table \<and>
     (\<forall>p hop. mget table p = Some hop \<longrightarrow> ipv4_prefix p \<and> hopCost hop < INFINITY)"

definition adv_cost :: "Addr \<Rightarrow> Hop \<Rightarrow> u32" where
  "adv_cost dst hop = (if hopAddr hop = dst then INFINITY else hopCost hop)"

lemma rip_entry_ipv4:
  "ipv4_prefix p \<Longrightarrow> \<exists>a. pfxAddr p = V4 a \<and>
     rip_entry dst p hop = Some \<lparr>Cost = adv_cost dst hop, Address = a, Mask = Bits2Mask (word_of_int (pfxBits p))\<rparr>"
  by (auto simp: ipv4_prefix_def rip_entry_def be32.dec_enc adv_cost_def)

lemma rip_entry_key:
  assumes "ipv4_prefix p" "rip_entry dst p hop = Some r"
  shows "rip_key r = p \<and> Cost r = adv_cost dst hop"
proof -
  from rip_entry_ipv4 [OF assms(1), of dst hop] assms(2) obtain a where a: "pfxAddr p = V4 a"
    and r: "r = \<lparr>Cost = adv_cost dst hop, Address = a, Mask = Bits2Mask (word_of_int (pfxBits p))\<rparr>"
    by auto
  let ?b = "word_of_int (pfxBits p) :: u32"
  from assms(1) have b: "uint ?b = pfxBits p"
    by (simp add: ipv4_prefix_def uint_word_of_int)
  with assms(1) have "?b \<le> 32"
    by (simp add: word_le_def ipv4_prefix_def)
  then have "uint (Mask2Bits (Bits2Mask ?b)) = pfxBits p"
    by (simp add: mask_roundtrip b)
  with assms(1) a r show ?thesis
    by (simp add: rip_key_def PrefixFrom_def ipv4_prefix_def)
qed

lemma CreateRipPacket_loop_ok:
  "\<forall>(p, hop) \<in> set table. ipv4_prefix p \<Longrightarrow>
   \<exists>rs n. CreateRipPacket_loop dst table h = Some (h\<lparr>Hosts := Hosts h @ rs, Num_entries := n\<rparr>) \<and>
     map (\<lambda>r. (rip_key r, Cost r)) rs = map (\<lambda>(p, hop). (p, adv_cost dst hop)) table \<and>
     (n = of_nat (length (Hosts h) + length rs) \<or> table = [] \<and> n = Num_entries h)"
proof (induction table arbitrary: h)
  case Nil
  then show ?case by (intro exI [of _ "[]"] exI [of _ "Num_entries h"]) simp
next
  case (Cons e table)
  obtain p hop where e: "e = (p, hop)" by (cases e)
  with Cons.prems have p: "ipv4_prefix p" by simp
  then obtain r where r: "rip_entry dst p hop = Some r"
    using rip_entry_ipv4 by blast
  let ?h = "h\<lparr>Hosts := Hosts h @ [r], Num_entries := of_nat (length (Hosts h @ [r]))\<rparr>"
  from Cons.prems have "\<forall>(p, hop) \<in> set table. ipv4_prefix p" by simp
  from Cons.IH [OF this, of ?h] obtain rs n where
    l: "CreateRipPacket_loop dst table ?h = Some (?h\<lparr>Hosts := Hosts ?h @ rs, Num_entries := n\<rparr>)" and
    m: "map (\<lambda>r. (rip_key r, Cost r)) rs = map (\<lambda>(p, hop). (p, adv_cost dst hop)) table" and
    n: "n = of_nat (length (Hosts ?h) + length rs) \<or> table = [] \<and> n = Num_entries ?h"
    by blast
  from m n have "n = of_nat (length (Hosts h) + length (r # rs))"
    using map_eq_imp_length_eq [OF m] by auto
  with l m e r rip_entry_key [OF p r] show ?case
    by (intro exI [of _ "r # rs"] exI [of _ n]) simp
qed

lemma good_table_keys: "good_table table \<Longrightarrow> \<forall>(p, hop) \<in> set table. ipv4_prefix p"
  by (auto simp: good_table_def wf_map_mem)

lemma CreateRipPacket_response:
  assumes "\<forall>(p, hop) \<in> set table. ipv4_prefix p"
  shows "\<exists>h. CreateRipPacket Response dst table = Some (Inr h) \<and> Command h = Response \<and>
    Num_entries h = of_nat (length (Hosts h)) \<and>
    map (\<lambda>r. (rip_key r, Cost r)) (Hosts h) = map (\<lambda>(p, hop). (p, adv_cost dst hop)) table"
proof -
  let ?h = "newRipHeader\<lparr>Command := Response\<rparr>"
  from CreateRipPacket_loop_ok [OF assms, of dst ?h] obtain rs n where
    l: "CreateRipPacket_loop dst table ?h = Some (?h\<lparr>Hosts := Hosts ?h @ rs, Num_entries := n\<rparr>)" and
    m: "map (\<lambda>r. (rip_key r, Cost r)) rs = map (\<lambda>(p, hop). (p, adv_cost dst hop)) table" and
    n: "n = of_nat (length (Hosts ?h) + length rs) \<or> table = [] \<and> n = Num_entries ?h"
    by blast
  from m have "length rs = length table" by (rule map_eq_imp_length_eq)
  with n have "n = of_nat (length rs)" by (auto simp: newRipHeader_def)
  with l m show ?thesis by (simp add: CreateRipPacket_def newRipHeader_def)
qed

lemma CreateRipPacket_total:
  assumes "\<forall>(p, hop) \<in> set table. ipv4_prefix p"
  shows "\<exists>r. CreateRipPacket command dst table = Some r"
  using CreateRipPacket_response [OF assms, of dst]
  by (cases "command = Response") (auto simp: CreateRipPacket_def)

lemma SendRip_total:
  assumes "env_total E" "device_ok d" "\<forall>(p, hop) \<in> set table. ipv4_prefix p"
  shows "\<exists>r es. SendRip E d command router table = Some (r, es)"
proof -
  from CreateRipPacket_total [OF assms(3)] obtain hr where
    hr: "CreateRipPacket command router table = Some hr" by blast
  show ?thesis
  proof (cases hr)
    case (Inl e)
    with hr show ?thesis by (simp add: SendRip_def)
  next
    case (Inr h)
    show ?thesis
    proof (cases "Marshal (Some h)")
      case (Ok bs)
      obtain r es where "SendIP E d router ripProtocol (slice_of bs) = Some (r, es)"
        using SendIP_total [OF assms(1,2)] by blast
      with hr Inr Ok show ?thesis by (simp add: SendRip_def split: sum.split)
    qed (use hr Inr in \<open>auto simp: SendRip_def Marshal_def split: if_splits\<close>)
  qed
qed

lemma send_rip_all_total:
  assumes "env_total E" "device_ok d" "\<forall>(p, hop) \<in> set table. ipv4_prefix p"
  shows "\<exists>es. send_rip_all E d command routers table = Some es"
proof (induction routers)
  case Nil
  then show ?case by simp
next
  case (Cons router routers)
  obtain r es where "SendRip E d command router table = Some (r, es)"
    using SendRip_total [OF assms] by blast
  with Cons show ?case by auto
qed

section \<open>Invariants of the routing table\<close>

lemma rip_cost_pos: "rip_cost c \<noteq> 0"
proof -
  have "c + 1 \<noteq> 0" if "c < INFINITY"
    using that unat_add_of_nat [of c 1]
    by (auto simp: INFINITY_def word_less_nat_alt)
  then show ?thesis by (auto simp: rip_cost_def INFINITY_def)
qed

lemma rip_cost_le: "rip_cost c \<le> INFINITY"
proof -
  have "c + 1 \<le> INFINITY" if "c < INFINITY"
    using that by (rule inc_le)
  then show ?thesis by (auto simp: rip_cost_def)
qed

lemma rip_cost_inc: "c < INFINITY \<Longrightarrow> rip_cost c = c + 1"
  by (auto simp: rip_cost_def)

text \<open>An entry of cost 0 that was not learned from the sender never changes.\<close>

lemma rip_relax_local:
  "hopCost hop = 0 \<Longrightarrow> hopAddr hop \<noteq> src \<Longrightarrow> rip_relax src (rip_cost c) (Some hop) = Some hop"
  by (simp add: rip_relax_def)

lemma rip_relax_cost:
  "rip_relax src c cur = Some hop \<Longrightarrow> (\<And>h. cur = Some h \<Longrightarrow> hopCost h < INFINITY) \<Longrightarrow> hopCost hop < INFINITY"
  by (auto simp: rip_relax_def split: if_splits option.splits)

lemma OnesCount32_le: "OnesCount32 m \<le> 32"
  unfolding OnesCount32_def by (rule order_trans [OF length_filter_le]) simp

lemma rip_key_ipv4: "ipv4_prefix (rip_key host)"
proof -
  have "uint (Mask2Bits (Mask host)) = int (OnesCount32 (Mask host))"
    using OnesCount32_le [of "Mask host"]
    by (simp add: Mask2Bits_def uint_nat unat_of_nat take_bit_nat_eq_self_iff)
  then show ?thesis
    using OnesCount32_le [of "Mask host"] by (simp add: ipv4_prefix_def rip_key_def PrefixFrom_def)
qed

lemma rip_step_good:
  assumes "good_table table"
  shows "good_table (rip_step src host table)"
  unfolding good_table_def
proof (intro conjI allI impI)
  show "wf_map (rip_step src host table)"
    using assms by (simp add: good_table_def rip.step_wf)
  fix p hop
  assume *: "mget (rip_step src host table) p = Some hop"
  show "ipv4_prefix p"
    using * assms rip_key_ipv4 [of host]
    by (cases "p = rip_key host") (auto simp: rip.step_get good_table_def)
  show "hopCost hop < INFINITY"
    using * assms rip_relax_cost [of src "rip_cost (Cost host)" "mget table p" hop]
    by (cases "p = rip_key host") (auto simp: rip.step_get good_table_def)
qed

lemma rip_fold_good: "good_table table \<Longrightarrow> good_table (fold (rip_step src) hosts table)"
  by (induction hosts arbitrary: table) (simp_all add: rip_step_good)

section \<open>Triggered updates\<close>

lemma Hop_eq_iff: "\<lparr>hopAddr = a, hopCost = c\<rparr> = h \<longleftrightarrow> a = hopAddr h \<and> c = hopCost h"
  by (cases h) auto

lemma rip_update_triggered_get:
  "mget (snd (rip_update src p c (table, tr))) q =
     (if q = p \<and> rip_relax src c (mget table p) \<noteq> mget table p
      then Some \<lparr>hopAddr = src, hopCost = c\<rparr> else mget tr q)"
  by (auto simp: rip_update_def rip_relax_def Let_def gomap_simps Hop_eq_iff split: option.splits)

lemma rip_hosts_Cons:
  "rip_hosts src (host # hosts) st = rip_hosts src hosts (rip_update src (rip_key host) (rip_cost (Cost host)) st)"
  by (simp add: rip_key_def)

definition triggered_of :: "Addr \<Rightarrow> Route list \<Rightarrow> RoutingTable \<Rightarrow> RoutingTable \<Rightarrow> RoutingTable" where
  "triggered_of src hosts table tr = snd (fst (rip_hosts src hosts (table, tr)))"

lemma triggered_of_Nil [simp]: "triggered_of src [] table tr = tr"
  by (simp add: triggered_of_def)

lemma triggered_of_Cons [simp]:
  "triggered_of src (host # hosts) table tr =
     triggered_of src hosts (rip_step src host table)
       (snd (rip_update src (rip_key host) (rip_cost (Cost host)) (table, tr)))"
  by (cases "rip_update src (rip_key host) (rip_cost (Cost host)) (table, tr)")
     (metis fst_conv rip_hosts_Cons rip_step_def rip_update_fst snd_conv triggered_of_def)

lemma triggered_of_ipv4:
  "\<forall>p. mget tr p \<noteq> None \<longrightarrow> ipv4_prefix p \<Longrightarrow>
   mget (triggered_of src hosts table tr) p \<noteq> None \<Longrightarrow> ipv4_prefix p"
proof (induction hosts arbitrary: table tr)
  case Nil
  then show ?case by simp
next
  case (Cons host hosts)
  have "\<forall>p. mget (snd (rip_update src (rip_key host) (rip_cost (Cost host)) (table, tr))) p \<noteq> None \<longrightarrow>
      ipv4_prefix p"
    using Cons.prems(1) rip_key_ipv4 [of host] by (auto simp: rip_update_triggered_get split: if_splits)
  from Cons.IH [OF this] Cons.prems(2) show ?case by simp
qed

lemma triggered_of_untouched:
  "p \<notin> rip_key ` set hosts \<Longrightarrow> mget (triggered_of src hosts table tr) p = mget tr p"
  by (induction hosts arbitrary: table tr) (auto simp: rip_update_triggered_get)

lemma triggered_of_distinct:
  "distinct (map rip_key hosts) \<Longrightarrow> mget tr p = None \<Longrightarrow>
   mget (triggered_of src hosts table tr) p =
     (case find (\<lambda>host. rip_key host = p) hosts of
        None \<Rightarrow> None
      | Some host \<Rightarrow>
          if rip_relax src (rip_cost (Cost host)) (mget table p) \<noteq> mget table p
          then Some \<lparr>hopAddr = src, hopCost = rip_cost (Cost host)\<rparr> else None)"
proof (induction hosts arbitrary: table tr)
  case Nil
  then show ?case by simp
next
  case (Cons host hosts)
  show ?case
  proof (cases "rip_key host = p")
    case True
    with Cons.prems(1) have "p \<notin> rip_key ` set hosts" by auto
    with True Cons.prems(2) show ?thesis
      by (simp add: triggered_of_untouched rip_update_triggered_get)
  next
    case False
    then have "p \<noteq> rip_key host" by simp
    with False Cons show ?thesis
      by (simp add: rip_update_triggered_get rip.step_get split: option.split)
  qed
qed

text \<open>A changed entry is the sender's offer, or gone because the offer was unreachable.\<close>

lemma rip_relax_changed:
  assumes "rip_relax src (rip_cost c) cur \<noteq> cur"
  shows "rip_cost c = (case rip_relax src (rip_cost c) cur of Some hop \<Rightarrow> hopCost hop | None \<Rightarrow> INFINITY)"
  using assms rip_cost_le [of c]
  by (auto simp: rip_relax_def split: if_splits option.splits)

lemma triggered_exact:
  assumes "distinct (map rip_key hosts)"
  shows "mget (triggered_of src hosts table []) p =
    (let new = mget (fold (rip_step src) hosts table) p
     in if new = mget table p then None
        else Some \<lparr>hopAddr = src, hopCost = (case new of Some hop \<Rightarrow> hopCost hop | None \<Rightarrow> INFINITY)\<rparr>)"
proof (cases "find (\<lambda>host. rip_key host = p) hosts")
  case None
  then have "p \<notin> rip_key ` set hosts" by (auto simp: find_None_iff)
  with None assms show ?thesis
    by (simp add: triggered_of_distinct rip.loop_untouched Let_def)
next
  case (Some host)
  then have host: "host \<in> set hosts" "rip_key host = p" by (auto simp: find_Some_iff)
  then have "mget (fold (rip_step src) hosts table) p = rip_relax src (rip_cost (Cost host)) (mget table p)"
    using rip.loop_distinct [OF assms, of host src table] by simp
  with Some assms rip_relax_changed [of src "Cost host" "mget table p"] show ?thesis
    by (auto simp: triggered_of_distinct Let_def)
qed

lemma ipv4_keys:
  assumes "\<And>p. mget t p \<noteq> None \<Longrightarrow> ipv4_prefix p"
  shows "\<forall>(p, hop) \<in> set t. ipv4_prefix p"
proof clarify
  fix p hop
  assume "(p, hop) \<in> set t"
  then have "p \<in> dom (mget t)" by (metis fst_conv image_eqI keys_eq_dom)
  then show "ipv4_prefix p" using assms by blast
qed

text \<open>How a response is handled, in terms of the pieces above.\<close>

lemma RipHandler_response:
  assumes "ParseHeader (Some (Data packet)) = Ok h" "Command h = Response"
  shows "RipHandler E d packet =
    (let (d1, es1) = addNeighboursIfStale d packet;
         src = ipSrc (Header packet);
         d2 = d1\<lparr>Table := fold (rip_step src) (Hosts h) (Table d)\<rparr>
     in map_option (\<lambda>es2. (d2, es1 @ es2))
          (send_rip_all E d2 Response (RipNeighbors d2) (triggered_of src (Hosts h) (Table d) [])))"
proof -
  obtain d1 es1 where a: "addNeighboursIfStale d packet = (d1, es1)"
    by (cases "addNeighboursIfStale d packet")
  then have t1: "Table d1 = Table d" by (metis addNeighboursIfStale_table fst_conv)
  let ?src = "ipSrc (Header packet)"
  have "rip_hosts ?src (Hosts h) (Table d, []) =
      ((fold (rip_step ?src) (Hosts h) (Table d), triggered_of ?src (Hosts h) (Table d) []), False)"
    unfolding triggered_of_def by (rule rip_hosts_eq)
  with assms a t1 show ?thesis
    by (simp add: RipHandler_def Let_def)
qed

section \<open>Properties of the handler\<close>

text \<open>
  C16: a RIP response is Bellman-Ford relaxation, route by route.  After the handler, the
  entry of every prefix is the old entry relaxed, in order, by the offers of the message for
  that prefix, each at its cost plus one (16 at most) and with the sender as next hop;
  prefixes the message does not mention keep their entry, and a request or a malformed
  message changes no route.
\<close>

theorem rip_handler_relaxes:
  assumes "RipHandler E d packet = Some (d', es)"
  shows "mget (Table d') p =
    (case ParseHeader (Some (Data packet)) of
       Ok h \<Rightarrow>
         if Command h = Response
         then fold (\<lambda>host. rip_relax (ipSrc (Header packet)) (rip_cost (Cost host)))
                (filter (\<lambda>host. rip_prefix host = Some p) (Hosts h)) (mget (Table d) p)
         else mget (Table d) p
     | _ \<Rightarrow> mget (Table d) p)"
  using RipHandler_table [OF assms]
  by (simp add: rip.loop_get rip_prefix_key split: result.split)

text \<open>A packet from a neighbour that carries the given RIP bytes.\<close>

definition exRipPacket :: "Addr \<Rightarrow> byte list \<Rightarrow> Packet" where
  "exRipPacket src bytes =
     \<lparr>Header = \<lparr>ipVersion = 4, ipLen = 20, ipTOS = 0, ipTotalLen = 20 + int (length bytes), ipID = 0,
        ipFlags = 0, ipFragOff = 0, ipTTL = 16, ipProtocol = 200, ipChecksum = 0, ipSrc = src,
        ipDst = V4 0x0A0A0101, ipOptions = []\<rparr>, Data = slice_of bytes\<rparr>"

lemma exRip_parse:
  "ParseHeader (Some (slice_of [0, 2, 0, 1, 0, 0, 0, 3, 10, 2, 0, 0, 255, 255, 255, 0]))
   = Ok \<lparr>Command = 2, Num_entries = 1, Hosts = [\<lparr>Cost = 3, Address = 0x0A020000, Mask = 0xFFFFFF00\<rparr>]\<rparr>"
  unfolding slice_of_def
  by (rule rip_codec_roundtrip)
     (simp_all add: Marshal_Ok_iff enc_route_append AppendUint16_def AppendUint32_def
        Request_def Response_def maxEntrySize_def)

lemma exDevice_table: "good_table (Table exDevice)"
  by (auto simp: good_table_def wf_map_def ipv4_prefix_def ex_simps INFINITY_def split: if_splits)

lemmas exDevice_ok = exDevice_sends exDevice_table

lemma RipHandler_total:
  assumes "env_total E" "device_ok d" "good_table (Table d)"
    and "ParseHeader (Some (Data packet)) \<noteq> Panic"
  shows "\<exists>d' es. RipHandler E d packet = Some (d', es)"
proof (cases "ParseHeader (Some (Data packet))")
  case (Ok h)
  obtain d1 es1 where a: "addNeighboursIfStale d packet = (d1, es1)"
    by (cases "addNeighboursIfStale d packet")
  then have ok1: "device_ok d1" and t1: "Table d1 = Table d"
    using assms(2) by (auto simp: addNeighboursIfStale_def Let_def split: if_splits)
  show ?thesis
  proof (cases "Command h = Response")
    case True
    let ?src = "ipSrc (Header packet)"
    let ?d2 = "d1\<lparr>Table := fold (rip_step ?src) (Hosts h) (Table d)\<rparr>"
    have "\<forall>(p, hop) \<in> set (triggered_of ?src (Hosts h) (Table d) []). ipv4_prefix p"
      by (rule ipv4_keys, rule triggered_of_ipv4) simp_all
    with send_rip_all_total [OF assms(1), of ?d2] ok1 obtain es2 where
      "send_rip_all E ?d2 Response (RipNeighbors ?d2) (triggered_of ?src (Hosts h) (Table d) []) = Some es2"
      by fastforce
    with a show ?thesis
      by (simp add: RipHandler_response [OF Ok True] Let_def)
  next
    case False
    from SendRip_total [OF assms(1) ok1 good_table_keys [OF assms(3)]]
    obtain r es2 where "SendRip E d1 Response (ipSrc (Header packet)) (Table d) = Some (r, es2)"
      by blast
    with False Ok a t1 show ?thesis by (simp add: RipHandler_def Let_def)
  qed
qed (use assms(4) in \<open>auto simp: RipHandler_def\<close>)

lemma RipHandler_frame:
  assumes "RipHandler E d packet = Some (d', es)"
  shows "Interfaces d' = Interfaces d" "Neighbours d' = Neighbours d"
proof -
  obtain d1 es1 where a: "addNeighboursIfStale d packet = (d1, es1)"
    by (cases "addNeighboursIfStale d packet")
  then have d1: "Interfaces d1 = Interfaces d" "Neighbours d1 = Neighbours d"
    by (auto simp: addNeighboursIfStale_def Let_def split: if_splits)
  have "\<exists>table. d' = d \<or> d' = d1\<lparr>Table := table\<rparr> \<or> d' = d1"
    using assms a
    by (auto simp: RipHandler_def Let_def split: result.splits if_splits prod.splits)
  with d1 show "Interfaces d' = Interfaces d" "Neighbours d' = Neighbours d" by auto
qed

lemma exRip_runs:
  "\<exists>d' es. RipHandler exEnv exDevice
     (exRipPacket (V4 0x0A0A0102) [0, 2, 0, 1, 0, 0, 0, 3, 10, 2, 0, 0, 255, 255, 255, 0]) = Some (d', es)"
  by (rule RipHandler_total) (simp_all add: exDevice_ok exRipPacket_def exRip_parse)

lemma exRip_mask: "Mask2Bits 0xFFFFFF00 = 24"
proof -
  have "Bits2Mask 24 = 0xFFFFFF00" by (simp add: Bits2Mask_def mask_eq_exp_minus_1)
  with mask_roundtrip [of 24] show ?thesis by simp
qed

theorem rip_handler_relaxes_witness:
  "\<exists>d' es. RipHandler exEnv exDevice
     (exRipPacket (V4 0x0A0A0102) [0, 2, 0, 1, 0, 0, 0, 3, 10, 2, 0, 0, 255, 255, 255, 0]) = Some (d', es) \<and>
   mget (Table d') (pfx4 0x0A020000 24) = Some \<lparr>hopAddr = V4 0x0A0A0102, hopCost = 4\<rparr>"
proof -
  obtain d' es where r: "RipHandler exEnv exDevice
     (exRipPacket (V4 0x0A0A0102) [0, 2, 0, 1, 0, 0, 0, 3, 10, 2, 0, 0, 255, 255, 255, 0]) = Some (d', es)"
    using exRip_runs by blast
  have "mget (Table d') (pfx4 0x0A020000 24) = Some \<lparr>hopAddr = V4 0x0A0A0102, hopCost = 4\<rparr>"
    using rip_handler_relaxes [OF r, of "pfx4 0x0A020000 24"]
    by (simp add: exRipPacket_def exRip_parse Response_def rip_prefix_key rip_key_def exRip_mask
        PrefixFrom_def pfx4_def exDevice_def rip_relax_def rip_cost_def INFINITY_def)
  with r show ?thesis by blast
qed



text \<open>
  The guard on the cost protects such a route only from withdrawal: a route of cost 0 that
  does point at the sender, as a static route does, is overwritten by a worse offer.
\<close>

lemma static_route_overwritten:
  "rip_relax (V4 7) (rip_cost 5) (Some \<lparr>hopAddr = V4 7, hopCost = 0\<rparr>)
     = Some \<lparr>hopAddr = V4 7, hopCost = 6\<rparr>"
  by (simp add: rip_relax_def rip_cost_def INFINITY_def)



section \<open>Advertising\<close>

lemma Marshal_response_ok:
  "Command h = Response \<Longrightarrow> Num_entries h \<le> maxEntrySize \<Longrightarrow> \<exists>bs. Marshal (Some h) = Ok bs"
  by (simp add: Marshal_def)

lemma advertise_message:
  assumes "\<forall>(p, hop) \<in> set table. ipv4_prefix p" "length table \<le> 64"
  shows "\<exists>h bs. CreateRipPacket Response dst table = Some (Inr h) \<and> Marshal (Some h) = Ok bs \<and>
    ParseHeader (Some \<lparr>elems = bs, spare = sp\<rparr>) = Ok h \<and> Command h = Response \<and>
    map (\<lambda>r. (rip_key r, Cost r)) (Hosts h) = map (\<lambda>(p, hop). (p, adv_cost dst hop)) table"
proof -
  from CreateRipPacket_response [OF assms(1), of dst] obtain h where
    h: "CreateRipPacket Response dst table = Some (Inr h)" "Command h = Response" and
    n: "Num_entries h = of_nat (length (Hosts h))" and
    m: "map (\<lambda>r. (rip_key r, Cost r)) (Hosts h) = map (\<lambda>(p, hop). (p, adv_cost dst hop)) table"
    by blast
  from m have "length (Hosts h) = length table" by (rule map_eq_imp_length_eq)
  with n assms(2) have u: "unat (Num_entries h) = length (Hosts h)"
    by (simp add: unat_of_nat take_bit_nat_eq_self_iff)
  with assms(2) \<open>length (Hosts h) = length table\<close> have "Num_entries h \<le> maxEntrySize"
    by (simp add: word_le_nat_alt maxEntrySize_def)
  with h(2) obtain bs where "Marshal (Some h) = Ok bs"
    using Marshal_response_ok by blast
  with rip_codec_roundtrip [OF this u, of sp] h m show ?thesis by blast
qed

text \<open>
  Advertising a table is faithful.  For a table of at most 64 IPv4 prefixes, the
  response that \<^verbatim>\<open>CreateRipPacket\<close> builds for a neighbour marshals, and the neighbour
  parses from the bytes exactly the prefixes of the table, in order, each with its cost, or
  with cost 16 when the route goes through that neighbour (split horizon with poisoned
  reverse).
\<close>

theorem rip_advertise_roundtrip:
  assumes "\<forall>(p, hop) \<in> set table. ipv4_prefix p" and "length table \<le> 64"
  shows "\<exists>h bs. CreateRipPacket Response dst table = Some (Inr h) \<and> Marshal (Some h) = Ok bs \<and>
    ParseHeader (Some \<lparr>elems = bs, spare = sp\<rparr>) = Ok h \<and>
    map (\<lambda>r. (rip_prefix r, Cost r)) (Hosts h) =
    map (\<lambda>(p, hop). (Some p, if hopAddr hop = dst then INFINITY else hopCost hop)) table"
proof -
  from advertise_message [OF assms, of dst sp] obtain h bs where
    a: "CreateRipPacket Response dst table = Some (Inr h)" "Marshal (Some h) = Ok bs"
    "ParseHeader (Some \<lparr>elems = bs, spare = sp\<rparr>) = Ok h" and
    m: "map (\<lambda>r. (rip_key r, Cost r)) (Hosts h) = map (\<lambda>(p, hop). (p, adv_cost dst hop)) table"
    by blast
  from arg_cong [OF m, of "map (\<lambda>(p, c). (Some p, c))"]
  have "map (\<lambda>r. (rip_prefix r, Cost r)) (Hosts h) =
      map (\<lambda>(p, hop). (Some p, if hopAddr hop = dst then INFINITY else hopCost hop)) table"
    by (simp add: rip_prefix_key adv_cost_def comp_def case_prod_beta')
  with a show ?thesis by blast
qed

theorem rip_advertise_roundtrip_witness:
  "\<exists>h bs. CreateRipPacket Response (V4 0x0A0A0102) (Table exDevice) = Some (Inr h) \<and>
     Marshal (Some h) = Ok bs \<and> ParseHeader (Some \<lparr>elems = bs, spare = []\<rparr>) = Ok h \<and>
     map (\<lambda>r. (rip_prefix r, Cost r)) (Hosts h) =
       [(Some (pfx4 0x0A010000 24), 0), (Some (pfx4 0x0A0A0100 24), 0)]"
proof -
  have "\<forall>(p, hop) \<in> set (Table exDevice). ipv4_prefix p"
    using exDevice_ok(3) by (rule good_table_keys)
  moreover have "length (Table exDevice) \<le> 64" by (simp add: exDevice_def)
  ultimately show ?thesis
    using rip_advertise_roundtrip [of "Table exDevice" "V4 0x0A0A0102" "[]"]
    by (simp add: exDevice_def)
qed

lemma less_15_inc: "(c :: u32) < 15 \<Longrightarrow> c < 16 \<and> c + 1 < 16"
  using inc_le [of c 15] less_trans [of c 15 16] by (auto intro: le_less_trans)

text \<open>What the receiver of an advertisement holds for one prefix.\<close>

lemma exchange_entry:
  assumes wf: "wf_map tableA" and g: "\<forall>(p, hop) \<in> set tableA. ipv4_prefix p"
    and m: "map (\<lambda>r. (rip_key r, Cost r)) hosts = map (\<lambda>(p, hop). (p, adv_cost dst hop)) tableA"
  shows "mget (fold (rip_step src) hosts tableB) p =
    (case mget tableA p of None \<Rightarrow> mget tableB p
     | Some hop \<Rightarrow> rip_relax src (rip_cost (adv_cost dst hop)) (mget tableB p))"
proof -
  have keys: "map rip_key hosts = map fst tableA"
    using arg_cong [OF m, of "map fst"] by (simp add: comp_def case_prod_beta')
  with wf have d: "distinct (map rip_key hosts)" by (simp add: wf_map_def)
  show ?thesis
  proof (cases "mget tableA p")
    case None
    then have "p \<notin> rip_key ` set hosts"
      using keys by (metis domIff keys_eq_dom list.set_map)
    with None show ?thesis by (simp add: rip.loop_untouched)
  next
    case (Some hop)
    then have "(p, adv_cost dst hop) \<in> set (map (\<lambda>(p, hop). (p, adv_cost dst hop)) tableA)"
      by (force dest: map_of_SomeD)
    then obtain r where r: "r \<in> set hosts" "rip_key r = p" "Cost r = adv_cost dst hop"
      unfolding m [symmetric] by auto
    from rip.loop_distinct [OF d r(1), of src tableB] r Some show ?thesis by simp
  qed
qed

text \<open>
  C2: one exchange between two routers.  When \<open>A\<close> advertises its table to \<open>B\<close> over the
  wire, afterwards \<open>B\<close> reaches every prefix that \<open>A\<close> reaches without going through \<open>B\<close> at
  cost \<open>c < 15\<close>, at cost at most \<open>c + 1\<close>; for a prefix that \<open>A\<close> reaches through \<open>B\<close>, \<open>B\<close> does
  not use \<open>A\<close> as the next hop of a learned route, so the two never point at each other; and
  prefixes unknown to \<open>A\<close> are untouched.
\<close>

theorem rip_exchange:
  assumes "good_table tableA" and "length tableA \<le> 64"
    and "CreateRipPacket Response addrB tableA = Some (Inr m)" and "Marshal (Some m) = Ok bytes"
    and "Data packet = \<lparr>elems = bytes, spare = sp\<rparr>" and "ipSrc (Header packet) = addrA"
    and "RipHandler E d packet = Some (d', es)"
  shows
    "(\<forall>p hop. mget tableA p = Some hop \<longrightarrow> hopAddr hop \<noteq> addrB \<longrightarrow> hopCost hop < 15 \<longrightarrow>
        (\<exists>hop'. mget (Table d') p = Some hop' \<and> hopCost hop' \<le> hopCost hop + 1)) \<and>
     (\<forall>p hop hop'. mget tableA p = Some hop \<longrightarrow> hopAddr hop = addrB \<longrightarrow>
        mget (Table d') p = Some hop' \<longrightarrow> hopAddr hop' \<noteq> addrA \<or> hopCost hop' = 0) \<and>
     (\<forall>p. mget tableA p = None \<longrightarrow> mget (Table d') p = mget (Table d) p)"
proof -
  have g: "\<forall>(p, hop) \<in> set tableA. ipv4_prefix p"
    using assms(1) by (rule good_table_keys)
  from advertise_message [OF g assms(2), of addrB sp] assms(3,4,5)
  have parse: "ParseHeader (Some (Data packet)) = Ok m" and cmd: "Command m = Response" and
    hosts: "map (\<lambda>r. (rip_key r, Cost r)) (Hosts m) = map (\<lambda>(p, hop). (p, adv_cost addrB hop)) tableA"
    by auto
  have entry: "mget (Table d') p =
    (case mget tableA p of None \<Rightarrow> mget (Table d) p
     | Some hop \<Rightarrow> rip_relax addrA (rip_cost (adv_cost addrB hop)) (mget (Table d) p))" for p
    using RipHandler_table [OF assms(7)] exchange_entry [OF _ g hosts, of addrA "Table d" p] assms(1,6)
    by (simp add: parse cmd good_table_def)
  have "\<exists>hop'. mget (Table d') p = Some hop' \<and> hopCost hop' \<le> hopCost hop + 1"
    if *: "mget tableA p = Some hop" "hopAddr hop \<noteq> addrB" "hopCost hop < 15" for p hop
  proof -
    have "rip_cost (adv_cost addrB hop) = hopCost hop + 1" "hopCost hop + 1 < INFINITY"
      using *(2,3) less_15_inc [OF *(3)] by (simp_all add: adv_cost_def rip_cost_inc INFINITY_def)
    with *(1) entry [of p] show ?thesis
      by (auto simp: rip_relax_def not_less split: option.splits)
  qed
  moreover have "hopAddr hop' \<noteq> addrA \<or> hopCost hop' = 0"
    if "mget tableA p = Some hop" "hopAddr hop = addrB" "mget (Table d') p = Some hop'" for p hop hop'
  proof -
    have "rip_cost (adv_cost addrB hop) = INFINITY"
      using that(2) by (simp add: adv_cost_def rip_cost_def INFINITY_def)
    with that entry [of p] show ?thesis
      by (auto simp: rip_relax_def word_gt_0 split: option.splits if_splits)
  qed
  moreover have "mget (Table d') p = mget (Table d) p" if "mget tableA p = None" for p
    using entry [of p] that by simp
  ultimately show ?thesis by blast
qed

theorem rip_exchange_witness:
  "\<exists>m bytes d' es. CreateRipPacket Response (V4 0x0A0A0101) [(pfx4 0x0A020000 24, \<lparr>hopAddr = V4 9, hopCost = 3\<rparr>)]
       = Some (Inr m) \<and> Marshal (Some m) = Ok bytes \<and>
     RipHandler exEnv exDevice (exRipPacket (V4 0x0A0A0102) bytes) = Some (d', es) \<and>
     (\<exists>hop'. mget (Table d') (pfx4 0x0A020000 24) = Some hop' \<and> hopCost hop' \<le> 4)"
proof -
  let ?A = "[(pfx4 0x0A020000 24, \<lparr>hopAddr = V4 9, hopCost = 3\<rparr>)]"
  have g: "good_table ?A"
    by (auto simp: good_table_def wf_map_def ipv4_prefix_def pfx4_def INFINITY_def split: if_splits)
  have len: "length ?A \<le> 64" by simp
  from advertise_message [OF good_table_keys [OF g] len, of "V4 0x0A0A0101" "[]"] obtain m bytes where
    m: "CreateRipPacket Response (V4 0x0A0A0101) ?A = Some (Inr m)" and b: "Marshal (Some m) = Ok bytes" and
    p: "ParseHeader (Some \<lparr>elems = bytes, spare = []\<rparr>) = Ok m"
    by blast
  let ?p = "exRipPacket (V4 0x0A0A0102) bytes"
  have data: "Data ?p = \<lparr>elems = bytes, spare = []\<rparr>" and src: "ipSrc (Header ?p) = V4 0x0A0A0102"
    by (simp_all add: exRipPacket_def slice_of_def)
  obtain d' es where r: "RipHandler exEnv exDevice ?p = Some (d', es)"
    using RipHandler_total [OF exDevice_ok, of ?p] p data by auto
  have "\<exists>hop'. mget (Table d') (pfx4 0x0A020000 24) = Some hop' \<and> hopCost hop' \<le> 4"
    using conjunct1 [OF rip_exchange [OF g len m b data src r], rule_format,
        of "pfx4 0x0A020000 24" "\<lparr>hopAddr = V4 9, hopCost = 3\<rparr>"] by simp
  with m b r show ?thesis by blast
qed

section \<open>A lost neighbour\<close>

lemma index_of_Some:
  "index_of ip i addrs = Some j \<Longrightarrow> i \<le> j \<and> j < i + length addrs \<and> addrs ! (j - i) = ip"
proof (induction addrs arbitrary: i)
  case Nil
  then show ?case by simp
next
  case (Cons a as)
  show ?case
  proof (cases "a = ip")
    case True
    with Cons.prems show ?thesis by simp
  next
    case False
    with Cons.prems have "index_of ip (Suc i) as = Some j" by simp
    from Cons.IH [OF this] have *: "Suc i \<le> j" "j < Suc i + length as" "as ! (j - Suc i) = ip"
      by simp_all
    then have "j - i = Suc (j - Suc i)" by simp
    with * show ?thesis by simp
  qed
qed

lemma index_of_None: "index_of ip i addrs = None \<longleftrightarrow> ip \<notin> set addrs"
  by (induction addrs arbitrary: i) auto

lemma remove_at_mset:
  "i < length s \<Longrightarrow> \<exists>s'. remove_at s i = Some s' \<and> length s' = length s - 1 \<and>
     set s = insert (s ! i) (set s') \<and> (distinct s \<longrightarrow> s ! i \<notin> set s')"
proof (induction s rule: rev_induct)
  case Nil
  then show ?case by simp
next
  case (snoc x xs)
  have r: "remove_at (xs @ [x]) i = Some (if i < length xs then xs[i := x] else xs)"
    using snoc.prems by (auto simp: remove_at_def list_update_append)
  show ?case
  proof (cases "i < length xs")
    case True
    then have xs: "xs = take i xs @ xs ! i # drop (Suc i) xs" by (rule id_take_nth_drop)
    have upd: "set (xs[i := x]) = set (take i xs) \<union> {x} \<union> set (drop (Suc i) xs)"
      using True by (simp add: upd_conv_take_nth_drop)
    have "set xs = set (take i xs) \<union> {xs ! i} \<union> set (drop (Suc i) xs)"
      using arg_cong [OF xs, of set] by simp
    moreover have "xs ! i \<notin> set (take i xs) \<union> set (drop (Suc i) xs)" if "distinct xs"
    proof -
      from that have "distinct (take i xs @ xs ! i # drop (Suc i) xs)" by (simp only: xs [symmetric])
      then show ?thesis by simp
    qed
    ultimately show ?thesis
      using True r upd by (auto simp: nth_append dest: in_set_takeD in_set_dropD)
  next
    case False
    with snoc.prems r show ?thesis by (auto simp: nth_append)
  qed
qed

lemma timeout_scan_eq:
  "wf_map (rev acc @ table) \<Longrightarrow>
   timeout_scan ip table (rev acc, del) =
     (rev acc @ map (\<lambda>(p, hop). (p, if hopAddr hop = ip then hop\<lparr>hopCost := INFINITY\<rparr> else hop)) table,
      del @ map fst (filter (\<lambda>(p, hop). hopAddr hop = ip) table))"
proof (induction table arbitrary: acc del)
  case Nil
  then show ?case by simp
next
  case (Cons e table)
  obtain p hop where e: "e = (p, hop)" by (cases e)
  let ?new = "(p, if hopAddr hop = ip then hop\<lparr>hopCost := INFINITY\<rparr> else hop)"
  have "p \<notin> fst ` set (rev acc)" using Cons.prems e by (auto simp: wf_map_def)
  then have put: "mput p v (rev acc) = rev ((p, v) # acc)" for v
    by (induction acc rule: rev_induct) auto
  have "wf_map (rev (?new # acc) @ table)" using Cons.prems e by (simp add: wf_map_def)
  from Cons.IH [OF this] e put show ?case
    by (cases hop) auto
qed

lemma timeout_scan_table:
  "wf_map table \<Longrightarrow>
   timeout_scan ip table ([], []) =
     (map (\<lambda>(p, hop). (p, if hopAddr hop = ip then hop\<lparr>hopCost := INFINITY\<rparr> else hop)) table,
      map fst (filter (\<lambda>(p, hop). hopAddr hop = ip) table))"
  using timeout_scan_eq [of "[]" table ip "[]"] by simp

lemma purged_keys:
  "wf_map table \<Longrightarrow> p \<in> set (map fst (filter (\<lambda>(p, hop). hopAddr hop = ip) table)) \<longleftrightarrow>
   (\<exists>hop. mget table p = Some hop \<and> hopAddr hop = ip)"
  by (force simp: wf_map_mem)

lemma timeout_expire_state:
  assumes "wf_map (Table d)" and "distinct (RipNeighbors d)" and "ip \<in> set (RipNeighbors d)"
    and "timeout_expire E d ip = Some (d', es)"
  obtains neis del told where
    "d' = d\<lparr>RipNeighbors := neis, ripChannels := mdel ip (ripChannels d), Table := fold mdel del (Table d)\<rparr>"
    "set neis = set (RipNeighbors d) - {ip}" "distinct neis"
    "\<forall>p. mget (fold mdel del (Table d)) p =
      (case mget (Table d) p of None \<Rightarrow> None | Some hop \<Rightarrow> if hopAddr hop = ip then None else Some hop)"
    "told = map (\<lambda>(p, hop). (p, if hopAddr hop = ip then hop\<lparr>hopCost := INFINITY\<rparr> else hop)) (Table d)"
    "send_rip_all E d' Response neis told = Some es"
proof -
  obtain i where Some: "index_of ip 0 (RipNeighbors d) = Some i"
    using assms(3) index_of_None [of ip 0 "RipNeighbors d"] by auto
  from index_of_Some [OF Some] have i: "i < length (RipNeighbors d)" "RipNeighbors d ! i = ip"
    by simp_all
  from remove_at_mset [OF i(1)] i(2) assms(2) obtain neis where
    r: "remove_at (RipNeighbors d) i = Some neis" and n: "set (RipNeighbors d) = insert ip (set neis)"
      "ip \<notin> set neis" and len: "length neis = length (RipNeighbors d) - 1"
    by auto
  have "card (set neis) = length neis"
    using n len distinct_card [OF assms(2)] by simp
  then have dist: "distinct neis" by (rule card_distinct)
  let ?told = "map (\<lambda>(p, hop). (p, if hopAddr hop = ip then hop\<lparr>hopCost := INFINITY\<rparr> else hop)) (Table d)"
  let ?del = "map fst (filter (\<lambda>(p, hop). hopAddr hop = ip) (Table d))"
  let ?d = "d\<lparr>RipNeighbors := neis, ripChannels := mdel ip (ripChannels d), Table := fold mdel ?del (Table d)\<rparr>"
  from assms(4) Some r have d': "d' = ?d" and told: "send_rip_all E d' Response neis ?told = Some es"
    by (auto simp: timeout_expire_def timeout_scan_table [OF assms(1)] bind_eq_Some_conv Let_def)
  have get: "mget (fold mdel ?del (Table d)) p = (case mget (Table d) p of
      None \<Rightarrow> None | Some hop \<Rightarrow> if hopAddr hop = ip then None else Some hop)" for p
  proof -
    have "mget (fold mdel ?del (Table d)) p = (if p \<in> set ?del then None else mget (Table d) p)"
      by (simp only: mget_fold_mdel)
    with purged_keys [OF assms(1), of p ip] show ?thesis
      by (simp only:) (simp split: option.split)
  qed
  have "set neis = set (RipNeighbors d) - {ip}" using n by auto
  then show ?thesis by (rule that [OF d' _ dist _ refl told]) (simp add: get)
qed

text \<open>
  C26: a neighbour that falls silent is forgotten completely.  When its twelve seconds run
  out, it leaves the RIP neighbours and its channel is gone; every route learned through it
  is deleted and every other route is kept; and the remaining neighbours are told the whole
  old table, with the deleted routes at cost 16.  The expiry of an address that is no
  neighbour any more changes nothing.
\<close>

theorem neighbour_timeout:
  assumes "wf_map (Table d)" and "distinct (RipNeighbors d)"
    and "timeout_expire E d ip = Some (d', es)"
  shows "if ip \<in> set (RipNeighbors d)
    then set (RipNeighbors d') = set (RipNeighbors d) - {ip} \<and> mget (ripChannels d') ip = None \<and>
      (\<forall>p. mget (Table d') p =
        (case mget (Table d) p of
           None \<Rightarrow> None | Some hop \<Rightarrow> if hopAddr hop = ip then None else Some hop)) \<and>
      (\<exists>told. send_rip_all E d' Response (RipNeighbors d') told = Some es \<and>
        (\<forall>p. mget told p =
          map_option (\<lambda>hop. if hopAddr hop = ip then hop\<lparr>hopCost := INFINITY\<rparr> else hop) (mget (Table d) p)))
    else d' = d \<and> es = []"
proof (cases "ip \<in> set (RipNeighbors d)")
  case False
  with assms(3) show ?thesis by (simp add: timeout_expire_def index_of_None [THEN iffD2])
next
  case True
  obtain neis del told where d': "d' = d\<lparr>RipNeighbors := neis, ripChannels := mdel ip (ripChannels d),
      Table := fold mdel del (Table d)\<rparr>" and n: "set neis = set (RipNeighbors d) - {ip}" "distinct neis"
    and t: "\<forall>p. mget (fold mdel del (Table d)) p =
      (case mget (Table d) p of None \<Rightarrow> None | Some hop \<Rightarrow> if hopAddr hop = ip then None else Some hop)"
    and told: "told = map (\<lambda>(p, hop). (p, if hopAddr hop = ip then hop\<lparr>hopCost := INFINITY\<rparr> else hop)) (Table d)"
    and es: "send_rip_all E d' Response neis told = Some es"
    by (rule timeout_expire_state [OF assms(1,2) True assms(3)]) (rule that; assumption)
  have "mget told p = map_option (\<lambda>hop. if hopAddr hop = ip then hop\<lparr>hopCost := INFINITY\<rparr> else hop) (mget (Table d) p)" for p
    by (simp add: told map_of_map)
  with True n t es show ?thesis by (simp add: d' gomap_simps) blast
qed

theorem neighbour_timeout_witness:
  "\<exists>d' es. timeout_expire exEnv exDevice (V4 0x0A0A0102) = Some (d', es) \<and>
     set (RipNeighbors d') = {} \<and> mget (ripChannels d') (V4 0x0A0A0102) = None"
proof -
  have w: "wf_map (Table exDevice)" "distinct (RipNeighbors exDevice)"
    by (simp_all add: exDevice_def wf_map_def pfx4_def)
  obtain d' es where t: "timeout_expire exEnv exDevice (V4 0x0A0A0102) = Some (d', es)"
    by (simp add: timeout_expire_def timeout_scan_table [OF w(1)])
       (simp add: exDevice_def remove_at_def)
  from neighbour_timeout [OF w t] t show ?thesis by (simp add: exDevice_def)
qed

end
