(* ===== verification/Sockets.thy ===== *)
theory Sockets
  imports Segments Rip
begin

text \<open>
  The sockets of a device and its receive path: \<^verbatim>\<open>pkg/protocol/socket.go\<close>,
  \<^verbatim>\<open>listensocket.go\<close>, the openers of \<^verbatim>\<open>normalsocket.go\<close>, and from
  \<^verbatim>\<open>protocol.go\<close> the reception of a datagram, the dispatch of a packet and the start
  of a device.  The blocking calls are cut at the channel they wait on.
\<close>

section \<open>Sockets of a device\<close>

text \<open>What a run observes from outside: the clock, and the two races of \<^const>\<open>early\<close> and \<^const>\<open>heard\<close>.\<close>

record obs =
  obNow :: int
  obEarly :: bool
  obHeard :: bool

text \<open>A new connection gets the next reference.\<close>

definition newConn :: "VTcpConn \<Rightarrow> Device \<Rightarrow> nat \<times> Device" where
  "newConn c d = (length (connStore d), d\<lparr>connStore := connStore d @ [(length (connStore d), c)]\<rparr>)"

text \<open>A method of the connection with a reference, run on the device.\<close>

definition onConn :: "(cst \<Rightarrow> ('r \<times> cst) option) \<Rightarrow> nat \<Rightarrow> obs \<Rightarrow> Device \<Rightarrow>
    ('r \<times> Device \<times> effect list) option" where
  "onConn f r w d =
     do {
       c \<leftarrow> mget (connStore d) r;
       (x, s) \<leftarrow> f \<lparr>dev = d, conn = c, out = [], now = obNow w, early = obEarly w, heard = obHeard w\<rparr>;
       Some (x, (dev s)\<lparr>connStore := mput r (conn s) (connStore (dev s))\<rparr>, out s)
     }"

definition SocketKeyFromListener :: "VTcpListener \<Rightarrow> SocketKey" where
  "SocketKeyFromListener lis =
     \<lparr>remote = lnRemoteAddr lis, local = lnLocalAddr lis, trasportType = tcp\<rparr>"

definition SocketKeyFromPacketAndTcpHdr :: "IPv4Header \<Rightarrow> TCPFields \<Rightarrow> SocketKey" where
  "SocketKeyFromPacketAndTcpHdr ipHdr tcpHdr =
     \<lparr>remote = AddrPortFrom (ipSrc ipHdr) (SrcPort tcpHdr),
      local = AddrPortFrom (ipDst ipHdr) (DstPort tcpHdr), trasportType = tcp\<rparr>"

definition SocketKeyDefaultListen :: "TCPFields \<Rightarrow> SocketKey" where
  "SocketKeyDefaultListen tcpHdr =
     \<lparr>remote = AddrPortFrom (V4 0) 0, local = AddrPortFrom (V4 0) (DstPort tcpHdr), trasportType = tcp\<rparr>"

fun GetSocketStatusStr :: "Status \<Rightarrow> string" where
  "GetSocketStatusStr Listen = ''Listen''"
| "GetSocketStatusStr CloseWait = ''CloseWait''"
| "GetSocketStatusStr Closed = ''Closed''"
| "GetSocketStatusStr Closing = ''Closing''"
| "GetSocketStatusStr Established = ''Established''"
| "GetSocketStatusStr FinWait1 = ''FinWait1''"
| "GetSocketStatusStr FinWait2 = ''FinWait2''"
| "GetSocketStatusStr LastAck = ''LastAck''"
| "GetSocketStatusStr SynRecv = ''SynRecv''"
| "GetSocketStatusStr SynSent = ''SynSent''"
| "GetSocketStatusStr TimeWait = ''TimeWait''"

section \<open>Listening\<close>

datatype SocketError = ErrPortInUse | ErrTimeout | ErrInvalidIp | ErrOpenSend SendError

definition listenKey :: "u16 \<Rightarrow> SocketKey" where
  "listenKey port = \<lparr>remote = AddrPortFrom (V4 0) 0, local = AddrPortFrom (V4 0) port, trasportType = tcp\<rparr>"

definition VListen :: "u16 \<Rightarrow> Device \<Rightarrow> (SocketError + nat) \<times> Device" where
  "VListen port d =
     (if mget (ListenTable d) (listenKey port) \<noteq> None then (Inl ErrPortInUse, d)
      else
        let lis = \<lparr>lnRemoteAddr = remote (listenKey port), lnLocalAddr = local (listenKey port),
                  lnStatus = Listen, lnAccepting = False, lnInbox = None\<rparr>;
            r = length (lnStore d)
        in (Inr r, d\<lparr>lnStore := lnStore d @ [(r, lis)], ListenTable := mput (listenKey port) r (ListenTable d)\<rparr>))"

text \<open>
  \<^verbatim>\<open>VClose\<close> of a listener: a \<^verbatim>\<open>VAccept\<close> that waits on it keeps waiting.
\<close>

definition VCloseListener :: "nat \<Rightarrow> Device \<Rightarrow> Device option" where
  "VCloseListener r d =
     do {
       lis \<leftarrow> mget (lnStore d) r;
       Some (d\<lparr>lnStore := mput r (lis\<lparr>lnStatus := Closed\<rparr>) (lnStore d),
               ListenTable := mdel (SocketKeyFromListener lis) (ListenTable d)\<rparr>)
     }"

text \<open>
  A segment for a listener.  A SYN is handed over on the unbuffered \<^verbatim>\<open>listenChannel\<close>:
  the handler waits until \<^verbatim>\<open>VAccept\<close> receives.
\<close>

definition handleListenState :: "env \<Rightarrow> obs \<Rightarrow> nat \<Rightarrow> TcpPacket \<Rightarrow> Addr \<Rightarrow> Addr \<Rightarrow> Device \<Rightarrow>
    (Device \<times> effect list) option" where
  "handleListenState E w r p remoteIp localIp d =
     do {
       lis \<leftarrow> mget (lnStore d) r;
       let flags = Flags (TcpHdr p);
       let remoteAddrPort = AddrPortFrom remoteIp (SrcPort (TcpHdr p));
       if has_flag flags RST then Some (d, [])
       else if has_flag flags ACK
       then do {
         c \<leftarrow> CreateSocket d remoteAddrPort (apPort (lnLocalAddr lis));
         (_, s) \<leftarrow> sendRst E (AckNum (TcpHdr p))
           \<lparr>dev = d, conn = c, out = [], now = obNow w, early = obEarly w, heard = obHeard w\<rparr>;
         Some (d, out s)
       }
       else if has_flag flags SYN
       then
         let keyPacket = \<lparr>tcpPacket = p, key = \<lparr>remote = remoteAddrPort,
               local = AddrPortFrom localIp (apPort (lnLocalAddr lis)), trasportType = tcp\<rparr>\<rparr>
         in if lnAccepting lis
            then Some (d\<lparr>lnStore := mput r (lis\<lparr>lnAccepting := False, lnInbox := Some keyPacket\<rparr>) (lnStore d)\<rparr>, [])
            else None
       else Some (d, [])
     }"

text \<open>
  \<^verbatim>\<open>VAccept\<close> up to its wait for a SYN; from the SYN to the wait for the peer's
  acknowledgment (\<open>rnd\<close> is the initial sequence number drawn); and from there to its
  return, where \<open>signalled i\<close> says that the signal came during the \<open>i\<close>-th of the four
  timers.
\<close>

definition VAccept_wait :: "nat \<Rightarrow> Device \<Rightarrow> Device option" where
  "VAccept_wait r d =
     map_option (\<lambda>lis. d\<lparr>lnStore := mput r (lis\<lparr>lnAccepting := True\<rparr>) (lnStore d)\<rparr>) (mget (lnStore d) r)"

definition openConn :: "env \<Rightarrow> obs \<Rightarrow> SocketKey \<Rightarrow> VTcpConn \<Rightarrow>
    (cst \<Rightarrow> ((int \<times> SendError option) \<times> cst) option) \<Rightarrow> Device \<Rightarrow>
    ((SocketError + nat) \<times> Device \<times> effect list) option" where
  "openConn E w k c syn d =
     (let (r, d) = newConn c d;
          d = d\<lparr>ConnTable := mput k r (ConnTable d)\<rparr>
      in do {
        ((n, err), d, es) \<leftarrow> onConn syn r w d;
        case err of
          Some e \<Rightarrow> Some (Inl (ErrOpenSend e), d, es)
        | None \<Rightarrow> Some (Inr r, d, es)
      })"

definition VAccept_syn :: "env \<Rightarrow> obs \<Rightarrow> u32 \<Rightarrow> nat \<Rightarrow> Device \<Rightarrow>
    ((SocketError + nat) \<times> Device \<times> effect list) option" where
  "VAccept_syn E w rnd lr d =
     do {
       lis \<leftarrow> mget (lnStore d) lr;
       kp \<leftarrow> lnInbox lis;
       let d = d\<lparr>lnStore := mput lr (lis\<lparr>lnInbox := None\<rparr>) (lnStore d)\<rparr>;
       let hdr = TcpHdr (tcpPacket kp);
       c \<leftarrow> CreateSocket d (remote (key kp)) (apPort (local (key kp)));
       let c = initializeTcb rnd c;
       let t = setSynReceivedState (SeqNum hdr) (AckNum hdr) (WindowSize hdr) (tcb c);
       let c = c\<lparr>tcb := t, status := SynRecv, opener := True\<rparr>;
       openConn E w (key kp) c (sendFlags E (iss t) (wrapFromIrs t (rcvNxt t)) (SYN + ACK)) d
     }"

fun await_signal :: "(nat \<Rightarrow> bool) \<Rightarrow> nat \<Rightarrow> nat \<Rightarrow> bool" where
  "await_signal signalled i 0 = False"
| "await_signal signalled i (Suc k) = (if signalled i then True else await_signal signalled (Suc i) k)"

definition open_finish :: "(nat \<Rightarrow> bool) \<Rightarrow> nat \<Rightarrow> obs \<Rightarrow> Device \<Rightarrow> ((SocketError + nat) \<times> Device) option" where
  "open_finish signalled r w d =
     (if await_signal signalled 0 4 then Some (Inr r, d)
      else do {
        (_, d, _) \<leftarrow> onConn (\<lambda>s. Some ((), closeDelete (s\<lparr>conn := (conn s)\<lparr>opener := False\<rparr>\<rparr>))) r w d;
        Some (Inl ErrTimeout, d)
      })"

section \<open>Connecting\<close>

text \<open>
  \<^verbatim>\<open>VConnect\<close> up to its wait for the SYN+ACK; \<open>rndPort\<close> and \<open>rnd\<close> are the two random
  numbers drawn.  It returns through \<^const>\<open>open_finish\<close> too, with longer timers.
\<close>

definition VConnect_syn :: "env \<Rightarrow> obs \<Rightarrow> u32 \<Rightarrow> u32 \<Rightarrow> Addr \<Rightarrow> u16 \<Rightarrow> Device \<Rightarrow>
    ((SocketError + nat) \<times> Device \<times> effect list) option" where
  "VConnect_syn E w rndPort rnd addr port d =
     do {
       let remoteAddrPort = AddrPortFrom addr port;
       let randPort = (ucast rndPort :: u16) mod (65535 - 20000) + 20000;
       if0 \<leftarrow> mget (Interfaces d) ''if0'';
       if \<not> Addr_IsValid addr then Some (Inl ErrInvalidIp, d, [])
       else do {
         c \<leftarrow> CreateSocket d remoteAddrPort randPort;
         let c = (initializeTcb rnd c)\<lparr>status := SynSent, opener := True\<rparr>;
         openConn E w (SocketKeyFromConn c) c (sendSyn E) d
       }
     }"

section \<open>Receiving\<close>

definition tcpHandler :: "env \<Rightarrow> obs \<Rightarrow> Device \<Rightarrow> Packet \<Rightarrow> (Device \<times> effect list) option" where
  "tcpHandler E w d p =
     do {
       tcpHdr \<leftarrow> ParseTCPHeader E (elems (Data p));
       let off = unat (DataOffset tcpHdr);
       if off \<le> slice_len (Data p)
       then
         let tcpPacket = \<lparr>TcpHdr = tcpHdr\<lparr>TcpChecksum := 0\<rparr>, Payload = drop off (elems (Data p))\<rparr>;
             key = SocketKeyFromPacketAndTcpHdr (Header p) (TcpHdr tcpPacket);
             listenKey = SocketKeyDefaultListen (TcpHdr tcpPacket)
         in case mget (ConnTable d) key of
              Some r \<Rightarrow> map_option snd (onConn (handleConnStatus E tcpPacket) r w d)
            | None \<Rightarrow>
                (case mget (ListenTable d) listenKey of
                   Some r \<Rightarrow> handleListenState E w r tcpPacket (apAddr (remote key)) (apAddr (local key)) d
                 | None \<Rightarrow> Some (d, []))
       else None
     }"

definition TestHandler :: "Device \<Rightarrow> Packet \<Rightarrow> (Device \<times> effect list) option" where
  "TestHandler d p = Some (d, [TestOutput p])"

fun run_handler :: "HandlerFunc \<Rightarrow> env \<Rightarrow> obs \<Rightarrow> Device \<Rightarrow> Packet \<Rightarrow> (Device \<times> effect list) option" where
  "run_handler HTest E w d p = TestHandler d p"
| "run_handler HRip E w d p = RipHandler E d p"
| "run_handler HTcp E w d p = tcpHandler E w d p"

definition Handler :: "env \<Rightarrow> obs \<Rightarrow> Device \<Rightarrow> Packet \<Rightarrow> (Device \<times> effect list) option" where
  "Handler E w d p =
     (case hdrMarshal E (Header p) of
        None \<Rightarrow> Some (d, [])
      | Some b \<Rightarrow>
          (if ipLen (Header p) < 0 then None
           else case reslice b 0 (nat (ipLen (Header p))) of
             None \<Rightarrow> None
           | Some hb \<Rightarrow>
               if \<not> ValidateChecksum E (elems hb) (word_of_int (ipChecksum (Header p))) then Some (d, [])
               else if \<not> isMyIp d (ipDst (Header p))
               then map_option (\<lambda>(r, es). (d, es)) (sendPacket E d p)
               else do {
                 d \<leftarrow> timeoutHandler d (ipSrc (Header p));
                 case mget (Handlers d) (word_of_int (ipProtocol (Header p))) of
                   None \<Rightarrow> Some (d, [])
                 | Some handler \<Rightarrow> run_handler handler E w d p
               }))"

text \<open>
  One datagram in the loop of \<^verbatim>\<open>Listen\<close>: it is read into a zeroed buffer of 1,400
  bytes, of which the header says how much is data.
\<close>

definition recv_buf :: "byte list \<Rightarrow> GoSlice" where
  "recv_buf dgram =
     \<lparr>elems = take MaxMessageSize dgram @ replicate (MaxMessageSize - length dgram) 0, spare = []\<rparr>"

definition Listen_datagram :: "env \<Rightarrow> RouteInterface \<Rightarrow> byte list \<Rightarrow> effect list option" where
  "Listen_datagram E intf dgram =
     (if \<not> ifIsUp intf then Some []
      else
        let buf = recv_buf dgram
        in case hdrParse E (elems buf) of
             None \<Rightarrow> Some []
           | Some header \<Rightarrow>
               if ipLen header < 0 \<or> ipTotalLen header < 0 then None
               else map_option (\<lambda>data. [GoTimeoutHandler (ipSrc header), GoHandler \<lparr>Header = header, Data = data\<rparr>])
                      (reslice buf (nat (ipLen header)) (nat (ipTotalLen header))))"

section \<open>Starting a device\<close>

definition RegisterRecvHandler :: "u8 \<Rightarrow> HandlerFunc \<Rightarrow> Device \<Rightarrow> Device" where
  "RegisterRecvHandler protocolNum callbackFunc d =
     d\<lparr>Handlers := mput protocolNum callbackFunc (Handlers d)\<rparr>"

fun init_interfaces :: "InterfaceConfig list \<Rightarrow> Device \<Rightarrow> Device" where
  "init_interfaces [] d = d"
| "init_interfaces (interf # interfaces) d =
     init_interfaces interfaces
       (d\<lparr>Interfaces := mput (icName interf)
            \<lparr>ifName = icName interf, ifIp = AssignedIP interf, ifPrefix = AssignedPrefix interf,
             ifUdpPort = icUDPAddr interf, ifIsUp = True\<rparr> (Interfaces d),
          Table := mput (Masked (AssignedPrefix interf)) \<lparr>hopAddr = AssignedIP interf, hopCost = 0\<rparr> (Table d)\<rparr>)"

fun init_routes :: "(Prefix \<times> Addr) list \<Rightarrow> Device \<Rightarrow> Device" where
  "init_routes [] d = d"
| "init_routes ((pre, route) # routes) d =
     init_routes routes (d\<lparr>Table := mput pre \<lparr>hopAddr = route, hopCost = 0\<rparr> (Table d)\<rparr>)"

text \<open>\<open>listenUDP\<close> is \<^verbatim>\<open>net.ListenUDP\<close>; \<open>None\<close> is its error, which the caller returns.\<close>

fun init_listeners :: "(AddrPort \<Rightarrow> nat option) \<Rightarrow> (string \<times> RouteInterface) list \<Rightarrow>
    (string \<times> nat) list \<Rightarrow> (string \<times> nat) list option \<times> effect list" where
  "init_listeners listenUDP [] listeners = (Some listeners, [])"
| "init_listeners listenUDP ((name, intf) # interfaces) listeners =
     (case listenUDP (ifUdpPort intf) of
        None \<Rightarrow> (None, [])
      | Some lis \<Rightarrow>
          let (ls, es) = init_listeners listenUDP interfaces (mput (ifName intf) lis listeners)
          in (ls, GoListen (ifName intf) # es))"

fun init_rip :: "env \<Rightarrow> Addr list \<Rightarrow> Device \<Rightarrow> (Device \<times> effect list) option" where
  "init_rip E [] d = Some (d, [])"
| "init_rip E (router # routers) d =
     do {
       (r, es) \<leftarrow> SendRip E d Request router (Table d);
       let (d, es) = (case r of
                        Inl e \<Rightarrow> (d, es)
                      | Inr _ \<Rightarrow> (d\<lparr>ripChannels := mput router 0 (ripChannels d)\<rparr>, es @ [GoTimeout router]));
       (d, es') \<leftarrow> init_rip E routers d;
       Some (d, es @ es')
     }"

text \<open>The inner \<open>None\<close> is the error of a UDP socket that cannot be opened.\<close>

definition Initialize :: "env \<Rightarrow> (AddrPort \<Rightarrow> nat option) \<Rightarrow> IPConfig \<Rightarrow>
    (Device option \<times> effect list) option" where
  "Initialize E listenUDP configInfo =
     (let isRouter = (cfgRoutingMode configInfo \<noteq> RoutingTypeNone);
          d = \<lparr>Table = [], Neighbours = [], Interfaces = [], IsRouter = isRouter,
               devRoutingMode = cfgRoutingMode configInfo, RipNeighbors = cfgRipNeighbors configInfo,
               ripChannels = [], Handlers = [], Listeners = [], ListenTable = [], ConnTable = [],
               connStore = [], lnStore = []\<rparr>;
          d = init_interfaces (cfgInterfaces configInfo) d;
          d = d\<lparr>Neighbours := map (\<lambda>nei. \<lparr>neiInterfaceName = ncInterfaceName nei, neiIp = DestAddr nei,
                  neiUdpPort = ncUDPAddr nei\<rparr>) (cfgNeighbors configInfo)\<rparr>;
          d = init_routes (StaticRoutes configInfo) d;
          d = RegisterRecvHandler testProtocol HTest d;
          d = (if isRouter then RegisterRecvHandler ripProtocol HRip d
               else RegisterRecvHandler IpProtoTcp HTcp d)
      in case init_listeners listenUDP (Interfaces d) [] of
           (None, es) \<Rightarrow> Some (None, es)
         | (Some listeners, es) \<Rightarrow>
             let d = d\<lparr>Listeners := listeners\<rparr>
             in if isRouter
                then map_option (\<lambda>(d, es'). (Some d, es @ es' @ [GoRip])) (init_rip E (RipNeighbors d) d)
                else Some (Some d, es))"

end
