(* ===== verification/Handshake.thy ===== *)
theory Handshake
  imports Sockets Windows
begin

text \<open>
  Opening a connection: the three segments of the handshake, each handled by the code of
  its side, from \<^verbatim>\<open>VConnect\<close> and \<^verbatim>\<open>VAccept\<close> to two established connections that
  agree on every sequence number.
\<close>

section \<open>The fields of a segment\<close>

lemma CreateTcpPacket_fields [simp]:
  "SrcPort (TcpHdr (CreateTcpPacket E c q a f b)) = apPort (localAddr c)"
  "DstPort (TcpHdr (CreateTcpPacket E c q a f b)) = apPort (remoteAddr c)"
  "SeqNum (TcpHdr (CreateTcpPacket E c q a f b)) = q"
  "AckNum (TcpHdr (CreateTcpPacket E c q a f b)) = a"
  "Flags (TcpHdr (CreateTcpPacket E c q a f b)) = f"
  "WindowSize (TcpHdr (CreateTcpPacket E c q a f b)) = rcvWnd (tcb c)"
  "Payload (CreateTcpPacket E c q a f b) = b"
  by (simp_all add: CreateTcpPacket_def Let_def advertiseWindowSize_def)

lemma flag_simps [simp]:
  "has_flag (SYN + ACK) ACK" "has_flag (SYN + ACK) SYN" "\<not> has_flag (SYN + ACK) RST"
  "has_flag SYN SYN" "\<not> has_flag SYN ACK" "\<not> has_flag SYN RST"
  "has_flag ACK ACK" "\<not> has_flag ACK SYN" "\<not> has_flag ACK RST" "\<not> has_flag ACK FIN"
  "has_flag (FIN + ACK) ACK" "has_flag (FIN + ACK) FIN" "\<not> has_flag (FIN + ACK) RST"
  "\<not> has_flag (FIN + ACK) SYN"
  by (simp_all add: has_flag_def tcp_flag_defs)

lemma unat_add_1: "unat (x :: u32) < 2 ^ 32 - 1 \<Longrightarrow> unat (x + 1) = unat x + 1"
  by (simp add: unat_word_ariths)

section \<open>The SYN+ACK reaches the client\<close>

definition fresh_client :: "u32 \<Rightarrow> VTcpConn \<Rightarrow> bool" where
  "fresh_client i c \<longleftrightarrow> status c = SynSent \<and> tcb c = createTCB i \<and> opener c \<and> rcvCtl c = RReady"

lemma client_opens:
  assumes E: "env_total E" "device_ok (dev s)" and c: "fresh_client i (conn s)"
    and h: "Flags (TcpHdr p) = SYN + ACK" "AckNum (TcpHdr p) = i + 1" "SeqNum (TcpHdr p) = j"
    and i: "unat i < 2 ^ 32 - 1"
  shows "\<exists>s' es. handleConnStatus E p s = Some (None, s') \<and> dev s' = dev s \<and> out s' = out s @ es \<and>
    map (\<lambda>q. (SeqNum (TcpHdr q), AckNum (TcpHdr q), Flags (TcpHdr q), WindowSize (TcpHdr q), Payload q)) (segs es) = [(i + 1, j + 1, ACK, 65535, [])] \<and>
    status (conn s') = Established \<and> rcvCtl (conn s') = RReady \<and>
    tcb (conn s') = (createTCB i)\<lparr>irs := j, rcvNxt := 1, rcvLbr := 1, sendUna := 1,
      sendWnd := WindowSize (TcpHdr p), sendWl1 := j, sendWl2 := i + 1\<rparr>"
proof -
  have w: "wrapFromIss (createTCB i) 0 = i" "wrapFromIss (createTCB i) 1 = i + 1"
    by simp_all
  have lt: "i < i + 1" using unat_add_1 [OF i] by (simp add: word_less_nat_alt)
  have d: "wrappedDist i (i + 1) = 1"
    using wrappedDist_near [of i "i + 1"] unat_add_1 [OF i] lt by simp
  let ?t = "(createTCB i)\<lparr>rcvNxt := 1, rcvLbr := 1, irs := j\<rparr>"
  let ?s1 = "advanceUna (i + 1) (s\<lparr>conn := (conn s)\<lparr>tcb := ?t\<rparr>\<rparr>)"
  have t1: "tcb (conn ?s1) = ?t\<lparr>sendUna := 1\<rparr>"
    using w(1) d by (simp add: advanceUna_tcb Let_def wrapFromIss_def)
  let ?s2 = "?s1\<lparr>conn := (conn ?s1)\<lparr>status := Established, opener := False\<rparr>\<rparr>"
  have sig: "signalOpener (?s1\<lparr>conn := (conn ?s1)\<lparr>status := Established\<rparr>\<rparr>) = Some ?s2"
    using c by (simp add: signalOpener_def fresh_client_def)
  have ok: "device_ok (dev ?s2)" using E(2) by simp
  obtain r es where a: "sendAck E (i + 1) (j + 1) ?s2 = Some (r, ?s2\<lparr>out := out ?s2 @ es\<rparr>)"
    and es: "segs es = [CreateTcpPacket E (conn ?s2) (i + 1) (j + 1) ACK []]"
    using sendAck_total [OF E(1) ok] by blast
  have w2: "wrapFromIss (?t\<lparr>sendUna := 1\<rparr>) 1 = i + 1" "wrapFromIrs (?t\<lparr>sendUna := 1\<rparr>) 1 = j + 1"
    by simp_all
  have o: "synSentOpen E (TcpHdr p) True s = Some (updateSendWnd (TcpHdr p) (?s2\<lparr>out := out ?s2 @ es\<rparr>))"
    using c a lt w2 sig by (simp add: synSentOpen_def Let_def h t1 fresh_client_def)
  have "handleConnStatus E p s = Some (None, updateSendWnd (TcpHdr p) (?s2\<lparr>out := out ?s2 @ es\<rparr>))"
    using c lt o by (auto simp: handleConnStatus_def handleSynSentState_def Let_def h fresh_client_def w not_le less_imp_le)
  then show ?thesis
    using c es by (auto simp: updateSendWnd_tcb t1 h fresh_client_def)
qed

section \<open>The acknowledgment reaches the server\<close>

definition fresh_server :: "u32 \<Rightarrow> u32 \<Rightarrow> VTcpConn \<Rightarrow> bool" where
  "fresh_server j i c \<longleftrightarrow> status c = SynRecv \<and> opener c \<and> rcvCtl c = RReady \<and>
     (\<exists>a wnd. tcb c = setSynReceivedState i a wnd (createTCB j))"

lemma server_opens:
  assumes c: "fresh_server j i (conn s)"
    and h: "Flags (TcpHdr p) = ACK" "AckNum (TcpHdr p) = j + 1" "SeqNum (TcpHdr p) = i + 1" "Payload p = []"
    and i: "unat i + 65536 < 2 ^ 32" and j: "unat j < 2 ^ 32 - 1"
  shows "\<exists>s' t. handleConnStatus E p s = Some (None, s') \<and> dev s' = dev s \<and> out s' = out s \<and>
    status (conn s') = Established \<and> rcvCtl (conn s') = RReady \<and> tcb (conn s') = t \<and>
    iss t = j \<and> sendUna t = 1 \<and> sendNxt t = 1 \<and> sendLbr t = 1 \<and> length (sendBuf t) = 65536 \<and>
    sendWnd t = WindowSize (TcpHdr p) \<and> irs t = i \<and> rcvNxt t = 1 \<and> rcvLbr t = 1 \<and> rcvWnd t = 65535 \<and>
    length (rcvBuf t) = 65536"
proof -
  from c obtain a wnd where t: "tcb (conn s) = setSynReceivedState i a wnd (createTCB j)"
    by (auto simp: fresh_server_def)
  let ?t = "setSynReceivedState i a wnd (createTCB j)"
  have sel: "iss ?t = j" "irs ?t = i" "sendUna ?t = 0" "sendNxt ?t = 1" "rcvNxt ?t = 1" "rcvWnd ?t = 65535"
    "sendWl1 ?t = i"
    by (simp_all add: setSynReceivedState_def)
  have ui: "unat (i + 1) = unat i + 1" and uj: "unat (j + 1) = unat j + 1"
    using i j by (simp_all add: unat_add_1)
  then have lti: "i < i + 1" and ltj: "j < j + 1" by (simp_all add: word_less_nat_alt)
  have "unat (i + 1 + 65535) = unat i + 65536"
    using i by (simp add: unat_word_ariths)
  then have "i + 1 < i + 1 + 65535" using ui by (simp only: word_less_nat_alt)
  then have seg: "isSegmentAcceptable ?t (i + 1) 0"
    by (simp add: isSegmentAcceptable_def sel Let_def)
  have d: "wrappedDist j (j + 1) = 1"
    using wrappedDist_near [of j "j + 1"] uj ltj by simp
  have acc: "isAckAcceptable ?t (j + 1)"
    using ltj by (simp add: isAckAcceptable_def sel)
  let ?s1 = "s\<lparr>conn := (conn s)\<lparr>status := Established, opener := False\<rparr>\<rparr>"
  have o: "openOnAck (TcpHdr p) j (j + 1) s = Some ?s1"
    using c ltj by (simp add: openOnAck_def signalOpener_def h fresh_server_def less_imp_le)
  let ?s2 = "acceptAck (TcpHdr p) ?s1"
  have u: "sendWl1 (tcb (conn (advanceUna (j + 1) ?s1))) = i"
    by (simp add: advanceUna_tcb Let_def t sel)
  have s2: "?s2 = updateSendWnd (TcpHdr p) (advanceUna (j + 1) ?s1)"
    using lti u by (simp add: acceptAck_def Let_def h)
  have sw: "ackSwitch b (conn ?s2) = conn ?s2" for b by (simp add: ackSwitch_def)
  have ha: "handleAckOtherStates E p ?s1 = Some (None, ?s2)"
    using acc sw by (simp add: handleAckOtherStates_def Let_def h t)
  have pr: "processRest E p n ?s2 = Some ?s2" for n
    by (simp add: processRest_def receivePayload_def h)
  have "processSegment E p s = Some ?s2"
    using o ha pr by (simp add: processSegment_def processAck_def ackByStatus_def Let_def h t sel)
  then have r: "handleConnStatus E p s = Some (None, ?s2)"
    using c seg by (simp add: handleConnStatus_def handleOtherStates_def Let_def fresh_server_def h t)
  have "tcb (conn ?s2) = ?t\<lparr>sendUna := 1, sendWnd := WindowSize (TcpHdr p), sendWl1 := i + 1, sendWl2 := j + 1\<rparr>"
    by (simp add: s2 updateSendWnd_tcb advanceUna_tcb Let_def t sel d h)
  with r c show ?thesis
    by (simp add: sel fresh_server_def) (simp add: setSynReceivedState_def createTCB_def tcbSize_def)
qed

section \<open>The two openers\<close>

text \<open>The references in use are below the next one.\<close>

definition fresh_refs :: "Device \<Rightarrow> bool" where
  "fresh_refs d \<longleftrightarrow> length (connStore d) \<notin> fst ` set (connStore d)"

lemma mget_snoc: "k \<notin> fst ` set m \<Longrightarrow> mget (m @ [(k, v)]) k = Some v"
  by (induction m) auto

lemma onConn_Some_iff:
  assumes "mget (connStore d) r = Some c"
  shows "onConn f r w d = Some (x, d', es) \<longleftrightarrow>
    (\<exists>s. f \<lparr>dev = d, conn = c, out = [], now = obNow w, early = obEarly w, heard = obHeard w\<rparr> = Some (x, s) \<and>
         d' = (dev s)\<lparr>connStore := mput r (conn s) (connStore (dev s))\<rparr> \<and> es = out s)"
  using assms by (auto simp: onConn_def bind_eq_Some_conv)

lemma openConn_flags:
  assumes o: "openConn E w k c syn d = Some (Inr r, d', es)" and fresh: "fresh_refs d"
    and syn: "\<And>s. conn s = c \<Longrightarrow> syn s = sendFlags E q a f s"
  shows "mget (connStore d') r = Some (enqueue (obNow w) q f [] c) \<and>
    segs es = [CreateTcpPacket E c q a f []] \<and> (device_ok d \<longrightarrow> device_ok d') \<and>
    mget (ConnTable d') k = Some r"
proof -
  let ?r = "length (connStore d)"
  let ?d = "d\<lparr>connStore := connStore d @ [(?r, c)], ConnTable := mput k ?r (ConnTable d)\<rparr>"
  let ?s = "\<lparr>dev = ?d, conn = c, out = [], now = obNow w, early = obEarly w, heard = obHeard w\<rparr>"
  have g: "mget (connStore ?d) ?r = Some c"
    using mget_snoc [OF fresh [unfolded fresh_refs_def], of c] by (simp del: map_of_append)
  from o have "\<exists>n. onConn syn ?r w ?d = Some ((n, None), d', es)" and r: "r = ?r"
    by (auto simp: openConn_def newConn_def bind_eq_Some_conv Let_def simp del: map_of_append split: option.splits)
  then obtain n s' where f: "send E q a f [] ?s = Some ((n, None), s')"
    and d': "d' = (dev s')\<lparr>connStore := mput ?r (conn s') (connStore (dev s'))\<rparr>" and es: "es = out s'"
    unfolding onConn_Some_iff [OF g] by (auto simp: syn sendFlags_def)
  from send_Some [OF f] obtain es' where
    s': "s' = ?s\<lparr>conn := enqueue (obNow w) q f [] c, out := es'\<rparr>" and "segs es' = [CreateTcpPacket E c q a f []]"
    by auto
  with r d' es show ?thesis by (simp add: gomap_simps device_ok_def)
qed

lemma onConn_Some:
  "mget (connStore d) r = Some c \<Longrightarrow>
   f \<lparr>dev = d, conn = c, out = [], now = obNow w, early = obEarly w, heard = obHeard w\<rparr> = Some (x, s) \<Longrightarrow>
   onConn f r w d = Some (x, (dev s)\<lparr>connStore := mput r (conn s) (connStore (dev s))\<rparr>, out s)"
  by (simp add: onConn_def)

section \<open>The handshake\<close>

text \<open>
  Two connections in agreement: both established, each side's next sequence number is the
  one the other expects, nothing is outstanding, each knows the other's window, and the
  buffers are empty queues.
\<close>

definition in_agreement :: "VTcpConn \<Rightarrow> VTcpConn \<Rightarrow> bool" where
  "in_agreement a b \<longleftrightarrow>
     status a = Established \<and> status b = Established \<and>
     irs (tcb a) = iss (tcb b) \<and> irs (tcb b) = iss (tcb a) \<and>
     wrapFromIss (tcb a) (sendNxt (tcb a)) = wrapFromIrs (tcb b) (rcvNxt (tcb b)) \<and>
     wrapFromIss (tcb b) (sendNxt (tcb b)) = wrapFromIrs (tcb a) (rcvNxt (tcb a)) \<and>
     sendUna (tcb a) = sendNxt (tcb a) \<and> sendUna (tcb b) = sendNxt (tcb b) \<and>
     sendWnd (tcb a) = rcvWnd (tcb b) \<and> sendWnd (tcb b) = rcvWnd (tcb a) \<and>
     rcv_inv (tcb a) \<and> rcv_contents (tcb a) = [] \<and> snd_inv (tcb a) \<and> snd_contents (tcb a) = [] \<and>
     rcv_inv (tcb b) \<and> rcv_contents (tcb b) = [] \<and> snd_inv (tcb b) \<and> snd_contents (tcb b) = []"

text \<open>
  C3: the three-way handshake works.  A host connects to a host whose listener waits in
  \<^verbatim>\<open>VAccept\<close>.  The SYN sent by \<^verbatim>\<open>VConnect\<close> is one segment, which the listener takes;
  the answer of \<^verbatim>\<open>VAccept\<close> is one segment, which the client's handler takes without
  error and acknowledges with one segment; and the server's handler takes that without
  error.  Then both connections are established and in agreement, for all initial sequence
  numbers that leave a window's distance to the 32-bit wrap.
\<close>

theorem three_way_handshake:
  assumes "env_total E" and "device_ok dA" and "device_ok dB" and "fresh_refs dA" and "fresh_refs dB"
    and "unat i + 65536 < 2 ^ 32" and "unat j + 65536 < 2 ^ 32"
    and "VConnect_syn E wA rndPort i ipB port dA = Some (Inr rA, dA1, esA)"
    and "mget (lnStore dB) l = Some lis" and "lnAccepting lis"
  shows "\<exists>syn dB1. segs esA = [syn] \<and> handleListenState E wB l syn ipA ipB dB = Some (dB1, []) \<and>
    (\<forall>rB dB2 esB. VAccept_syn E wB j l dB1 = Some (Inr rB, dB2, esB) \<longrightarrow>
      (\<exists>synAck dA2 esA2 ack dB3 cA cB. segs esB = [synAck] \<and>
         onConn (handleConnStatus E synAck) rA wA dA1 = Some (None, dA2, esA2) \<and> segs esA2 = [ack] \<and>
         onConn (handleConnStatus E ack) rB wB dB2 = Some (None, dB3, []) \<and>
         mget (connStore dA2) rA = Some cA \<and> mget (connStore dB3) rB = Some cB \<and> in_agreement cA cB))"
proof -
  from assms(8) obtain c0 c where
    c0: "CreateSocket dA (AddrPortFrom ipB port) ((ucast rndPort :: u16) mod (65535 - 20000) + 20000) = Some c0" and
    c: "c = (initializeTcb i c0)\<lparr>status := SynSent, opener := True\<rparr>" and
    oA: "openConn E wA (SocketKeyFromConn c) c (sendSyn E) dA = Some (Inr rA, dA1, esA)"
    by (auto simp: VConnect_syn_def bind_eq_Some_conv Let_def split: if_splits)
  have t0: "tcb c = createTCB i" and fc: "fresh_client i c"
    by (simp_all add: c initializeTcb_def fresh_client_def)
  have sS: "sendSyn E s = sendFlags E i 0 SYN s" if "conn s = c" for s
    by (simp add: sendSyn_def that t0)
  from openConn_flags [OF oA assms(4) sS] assms(2) have
    gA: "mget (connStore dA1) rA = Some (enqueue (obNow wA) i SYN [] c)" and okA: "device_ok dA1" and
    syn: "segs esA = [CreateTcpPacket E c i 0 SYN []]"
    by simp_all
  let ?syn = "CreateTcpPacket E c i 0 SYN []"
  let ?kp = "\<lparr>tcpPacket = ?syn, key = \<lparr>remote = AddrPortFrom ipA (apPort (localAddr c)),
    local = AddrPortFrom ipB (apPort (lnLocalAddr lis)), trasportType = tcp\<rparr>\<rparr>"
  let ?dB1 = "dB\<lparr>lnStore := mput l (lis\<lparr>lnAccepting := False, lnInbox := Some ?kp\<rparr>) (lnStore dB)\<rparr>"
  have hl: "handleListenState E wB l ?syn ipA ipB dB = Some (?dB1, [])"
    using assms(9,10) by (simp add: handleListenState_def)
  have "\<exists>synAck dA2 esA2 ack dB3 cA cB. segs esB = [synAck] \<and>
         onConn (handleConnStatus E synAck) rA wA dA1 = Some (None, dA2, esA2) \<and> segs esA2 = [ack] \<and>
         onConn (handleConnStatus E ack) rB wB dB2 = Some (None, dB3, []) \<and>
         mget (connStore dA2) rA = Some cA \<and> mget (connStore dB3) rB = Some cB \<and> in_agreement cA cB"
    if acc: "VAccept_syn E wB j l ?dB1 = Some (Inr rB, dB2, esB)" for rB dB2 esB
  proof -
    let ?dB = "?dB1\<lparr>lnStore := mput l (lis\<lparr>lnAccepting := False, lnInbox := None\<rparr>) (lnStore ?dB1)\<rparr>"
    from acc obtain b0 b where
      b: "b = (initializeTcb j b0)\<lparr>tcb := setSynReceivedState i 0 65535 (createTCB j), status := SynRecv, opener := True\<rparr>" and
      oB: "openConn E wB (key ?kp) b (sendFlags E j (i + 1) (SYN + ACK)) ?dB = Some (Inr rB, dB2, esB)"
      by (auto simp: VAccept_syn_def bind_eq_Some_conv Let_def gomap_simps initializeTcb_def
          setSynReceivedState_def t0)
    have tb: "tcb b = setSynReceivedState i 0 65535 (createTCB j)" by (simp add: b)
    then have fb: "fresh_server j i b" by (auto simp: b fresh_server_def initializeTcb_def)
    have fresh: "fresh_refs ?dB" "device_ok ?dB"
      using assms(3,5) by (simp_all add: fresh_refs_def device_ok_def)
    have gB: "mget (connStore dB2) rB = Some (enqueue (obNow wB) j (SYN + ACK) [] b)" and okB: "device_ok dB2"
      and sa: "segs esB = [CreateTcpPacket E b j (i + 1) (SYN + ACK) []]"
      using openConn_flags [OF oB fresh(1) refl] fresh(2) by simp_all
    let ?sa = "CreateTcpPacket E b j (i + 1) (SYN + ACK) []"
    let ?cA = "enqueue (obNow wA) i SYN [] c" and ?cB = "enqueue (obNow wB) j (SYN + ACK) [] b"
    let ?sA = "\<lparr>dev = dA1, conn = ?cA, out = [], now = obNow wA, early = obEarly wA, heard = obHeard wA\<rparr>"
    let ?sB = "\<lparr>dev = dB2, conn = ?cB, out = [], now = obNow wB, early = obEarly wB, heard = obHeard wB\<rparr>"
    have fA: "fresh_client i (conn ?sA)" and fB: "fresh_server j i (conn ?sB)"
      using fc fb by (simp_all add: fresh_client_def fresh_server_def)
    have okA': "device_ok (dev ?sA)" using okA by simp
    have i1: "unat i < 2 ^ 32 - 1" and j1: "unat j < 2 ^ 32 - 1" using assms(6,7) by simp_all
    have h: "Flags (TcpHdr ?sa) = SYN + ACK" "AckNum (TcpHdr ?sa) = i + 1" "SeqNum (TcpHdr ?sa) = j"
      by simp_all
    obtain s2 es where s2: "handleConnStatus E ?sa ?sA = Some (None, s2)" and "dev s2 = dA1" "out s2 = es"
      and seg: "map (\<lambda>q. (SeqNum (TcpHdr q), AckNum (TcpHdr q), Flags (TcpHdr q), WindowSize (TcpHdr q), Payload q)) (segs es) = [(i + 1, j + 1, ACK, 65535, [])]"
      and estA: "status (conn s2) = Established" and tA: "tcb (conn s2) = (createTCB i)\<lparr>irs := j, rcvNxt := 1, rcvLbr := 1,
        sendUna := 1, sendWnd := WindowSize (TcpHdr ?sa), sendWl1 := j, sendWl2 := i + 1\<rparr>"
      using client_opens [OF assms(1) okA' fA h i1] by auto
    from seg obtain ack where ack: "segs es = [ack]"
      and hk: "Flags (TcpHdr ack) = ACK" "AckNum (TcpHdr ack) = j + 1" "SeqNum (TcpHdr ack) = i + 1" "Payload ack = []"
        and wk: "WindowSize (TcpHdr ack) = 65535"
      by auto
    obtain s3 t where s3: "handleConnStatus E ack ?sB = Some (None, s3)" and "dev s3 = dB2" "out s3 = []"
      and estB: "status (conn s3) = Established" and t: "tcb (conn s3) = t" "iss t = j" "sendUna t = 1"
        "sendNxt t = 1" "sendLbr t = 1" "length (sendBuf t) = 65536" "sendWnd t = WindowSize (TcpHdr ack)" "irs t = i"
        "rcvNxt t = 1" "rcvLbr t = 1" "rcvWnd t = 65535" "length (rcvBuf t) = 65536"
      using server_opens [OF fB hk assms(6) j1, of E] by auto
    have "in_agreement (conn s2) (conn s3)"
      using estA estB wk
      by (simp add: in_agreement_def tA t rcv_inv_def snd_inv_def rcv_contents_def snd_contents_def
          ring_read_def tb createTCB_bufs setSynReceivedState_def)
    then show ?thesis
      using onConn_Some_iff [OF gA, of "handleConnStatus E ?sa" wA] onConn_Some_iff [OF gB, of "handleConnStatus E ack" wB]
        s2 s3 ack sa \<open>out s2 = es\<close> \<open>out s3 = []\<close>
      by (intro exI [of _ ?sa] exI [of _ "(dev s2)\<lparr>connStore := mput rA (conn s2) (connStore (dev s2))\<rparr>"]
          exI [of _ es] exI [of _ ack] exI [of _ "(dev s3)\<lparr>connStore := mput rB (conn s3) (connStore (dev s3))\<rparr>"]
          exI [of _ "conn s2"] exI [of _ "conn s3"]) (simp add: gomap_simps)
  qed
  with syn hl show ?thesis by blast
qed

text \<open>Sending depends only on the IP layer's part of the device.\<close>

lemma SendIP_same:
  assumes "Table d = Table d'" "Neighbours d = Neighbours d'" "Interfaces d = Interfaces d'" "Listeners d = Listeners d'"
  shows "SendIP E d = SendIP E d'"
  unfolding SendIP_def createPacket_def sendPacket_def findIp_def getDstPrefix_def next_hop_def assms ..

lemma SendIP_frame [simp]:
  "SendIP E (d\<lparr>connStore := a\<rparr>) = SendIP E d" "SendIP E (d\<lparr>ConnTable := b\<rparr>) = SendIP E d"
  "SendIP E (d\<lparr>lnStore := l\<rparr>) = SendIP E d" "SendIP E (d\<lparr>ListenTable := t\<rparr>) = SendIP E d"
  by (rule SendIP_same; simp)+

lemma openConn_ok:
  assumes fresh: "fresh_refs d" and syn: "\<And>s. conn s = c \<Longrightarrow> syn s = sendFlags E q a f s"
    and ip: "\<And>data. \<exists>n es. SendIP E d (apAddr (remoteAddr c)) IpProtoTcp data = Some (Inr n, es)"
  shows "\<exists>r d' es. openConn E w k c syn d = Some (Inr r, d', es)"
proof -
  let ?r = "length (connStore d)"
  let ?d = "d\<lparr>connStore := connStore d @ [(?r, c)], ConnTable := mput k ?r (ConnTable d)\<rparr>"
  let ?s = "\<lparr>dev = ?d, conn = c, out = [], now = obNow w, early = obEarly w, heard = obHeard w\<rparr>"
  have g: "mget (connStore ?d) ?r = Some c"
    using mget_snoc [OF fresh [unfolded fresh_refs_def], of c] by (simp del: map_of_append)
  let ?p = "CreateTcpPacket E c q a f []"
  obtain n es where "SendIP E d (apAddr (remoteAddr c)) IpProtoTcp (slice_of (tcpEncode E (TcpHdr ?p) @ Payload ?p)) = Some (Inr n, es)"
    using ip by blast
  then have "\<exists>n s'. sendFlags E q a f ?s = Some ((n, None), s')"
    by (simp add: sendFlags_def send_eq sendTcpOn_def SendTcp_def)
  then have "\<exists>n d' es. onConn syn ?r w ?d = Some ((n, None), d', es)"
    using g syn [of ?s] by (auto simp: onConn_def simp del: map_of_append)
  then show ?thesis
    by (auto simp: openConn_def newConn_def Let_def simp del: map_of_append)
qed

definition exServer :: Device where
  "exServer = exDevice\<lparr>ListenTable := [(listenKey 80, 0)],
     lnStore := [(0, \<lparr>lnRemoteAddr = AddrPortFrom (V4 0) 0, lnLocalAddr = AddrPortFrom (V4 0) 80,
       lnStatus = Listen, lnAccepting = True, lnInbox = None\<rparr>)]\<rparr>"

lemma exSendIP: "\<exists>n es. SendIP exEnv exDevice (V4 0x0A01000A) proto data = Some (Inr n, es)"
proof -
  have f: "findIp exDevice (V4 0x0A01000A) = Inr (AddrPortFrom (V4 0x7F000001) 6001, ''if0'')"
    by (simp add: findIp_def getDstPrefix_def next_hop_def ex_simps)
  obtain p where p: "createPacket exEnv exDevice (V4 0x0A01000A) proto data = Some p" "ipDst (Header p) = V4 0x0A01000A"
    using createPacket_total [OF exDevice_sends] by blast
  show ?thesis
    by (simp add: SendIP_def p f sendPacket_def)
       (simp add: exDevice_def exEnv_def Let_def)
qed

lemma exVConnect:
  "\<exists>r d es. VConnect_syn exEnv w 0 i (V4 0x0A01000A) 80 exDevice = Some (Inr r, d, es)"
proof -
  obtain c0 where c0: "CreateSocket exDevice (AddrPortFrom (V4 0x0A01000A) 80) 20000 = Some c0"
    and ra: "apAddr (remoteAddr c0) = V4 0x0A01000A"
    by (simp add: CreateSocket_def exDevice_def AddrPortFrom_def)
  let ?c = "(initializeTcb i c0)\<lparr>status := SynSent, opener := True\<rparr>"
  have f: "fresh_refs exDevice" by (simp add: fresh_refs_def exDevice_def)
  have "\<exists>r d es. openConn exEnv w (SocketKeyFromConn ?c) ?c (sendSyn exEnv) exDevice = Some (Inr r, d, es)"
  proof (rule openConn_ok [OF f])
    show "sendSyn exEnv s = sendFlags exEnv i 0 SYN s" if "conn s = ?c" for s
      using that by (simp add: sendSyn_def initializeTcb_def)
    show "\<exists>n es. SendIP exEnv exDevice (apAddr (remoteAddr ?c)) IpProtoTcp data = Some (Inr n, es)" for data
      using exSendIP ra by (simp add: initializeTcb_def)
  qed
  moreover have "\<exists>if0. mget (Interfaces exDevice) ''if0'' = Some if0" by (simp add: exDevice_def)
  ultimately show ?thesis using c0 by (auto simp: VConnect_syn_def Let_def)
qed

lemma exVAccept:
  assumes "handleListenState exEnv w 0 syn (V4 0x0A01000A) ip exServer = Some (d, [])"
    and "has_flag (Flags (TcpHdr syn)) SYN" "\<not> has_flag (Flags (TcpHdr syn)) RST" "\<not> has_flag (Flags (TcpHdr syn)) ACK"
  shows "\<exists>r d' es. VAccept_syn exEnv w j 0 d = Some (Inr r, d', es)"
proof -
  let ?lis = "\<lparr>lnRemoteAddr = AddrPortFrom (V4 0) 0, lnLocalAddr = AddrPortFrom (V4 0) 80,
       lnStatus = Listen, lnAccepting = False, lnInbox = None\<rparr>"
  let ?k = "\<lparr>remote = AddrPortFrom (V4 0x0A01000A) (SrcPort (TcpHdr syn)), local = AddrPortFrom ip 80, trasportType = tcp\<rparr>"
  have d: "d = exServer\<lparr>lnStore := [(0, ?lis\<lparr>lnInbox := Some \<lparr>tcpPacket = syn, key = ?k\<rparr>\<rparr>)]\<rparr>"
    using assms by (simp add: handleListenState_def exServer_def AddrPortFrom_def)
  let ?d = "exServer\<lparr>lnStore := [(0, ?lis)]\<rparr>"
  obtain c0 where c0: "CreateSocket ?d (AddrPortFrom (V4 0x0A01000A) (SrcPort (TcpHdr syn))) 80 = Some c0"
    and ra: "apAddr (remoteAddr c0) = V4 0x0A01000A"
    by (simp add: CreateSocket_def exServer_def exDevice_def AddrPortFrom_def)
  define t where "t = setSynReceivedState (SeqNum (TcpHdr syn)) (AckNum (TcpHdr syn)) (WindowSize (TcpHdr syn))
      (tcb (initializeTcb j c0))"
  let ?c = "(initializeTcb j c0)\<lparr>tcb := t, status := SynRecv, opener := True\<rparr>"
  have f: "fresh_refs ?d" by (simp add: fresh_refs_def exServer_def exDevice_def)
  have "\<exists>r d' es. openConn exEnv w ?k ?c (sendFlags exEnv (iss t) (wrapFromIrs t (rcvNxt t)) (SYN + ACK)) ?d = Some (Inr r, d', es)"
  proof (rule openConn_ok [OF f refl])
    show "\<exists>n es. SendIP exEnv ?d (apAddr (remoteAddr ?c)) IpProtoTcp data = Some (Inr n, es)" for data
      using exSendIP ra by (simp add: initializeTcb_def exServer_def)
  qed
  then show ?thesis
    using c0 by (simp add: VAccept_syn_def Let_def d t_def AddrPortFrom_def)
qed

lemma exVConnect_syn:
  assumes "VConnect_syn exEnv w rp i ip port exDevice = Some (Inr r, d, es)" "segs es = [syn]"
  shows "Flags (TcpHdr syn) = SYN"
proof -
  from assms(1) obtain c where "openConn exEnv w (SocketKeyFromConn c) c (sendSyn exEnv) exDevice = Some (Inr r, d, es)"
    by (auto simp: VConnect_syn_def bind_eq_Some_conv Let_def split: if_splits)
  moreover have "sendSyn exEnv s = sendFlags exEnv (iss (tcb c)) (irs (tcb c)) SYN s" if "conn s = c" for s
    using that by (simp add: sendSyn_def)
  ultimately have "segs es = [CreateTcpPacket exEnv c (iss (tcb c)) (irs (tcb c)) SYN []]"
    using openConn_flags [of exEnv w _ c "sendSyn exEnv" exDevice r d es] by (simp add: fresh_refs_def exDevice_def)
  with assms(2) show ?thesis by auto
qed

theorem three_way_handshake_witness:
  "\<exists>rA dA1 esA syn dB1 rB dB2 esB synAck dA2 esA2 ack dB3 cA cB.
     VConnect_syn exEnv \<lparr>obNow = 0, obEarly = False, obHeard = False\<rparr> 0 7 (V4 0x0A01000A) 80 exDevice = Some (Inr rA, dA1, esA) \<and>
     segs esA = [syn] \<and>
     handleListenState exEnv \<lparr>obNow = 0, obEarly = False, obHeard = False\<rparr> 0 syn (V4 0x0A01000A) (V4 0x0A01000A) exServer = Some (dB1, []) \<and>
     VAccept_syn exEnv \<lparr>obNow = 0, obEarly = False, obHeard = False\<rparr> 9 0 dB1 = Some (Inr rB, dB2, esB) \<and> segs esB = [synAck] \<and>
     onConn (handleConnStatus exEnv synAck) rA \<lparr>obNow = 0, obEarly = False, obHeard = False\<rparr> dA1 = Some (None, dA2, esA2) \<and> segs esA2 = [ack] \<and>
     onConn (handleConnStatus exEnv ack) rB \<lparr>obNow = 0, obEarly = False, obHeard = False\<rparr> dB2 = Some (None, dB3, []) \<and>
     mget (connStore dA2) rA = Some cA \<and> mget (connStore dB3) rB = Some cB \<and> in_agreement cA cB"
  (is "\<exists>rA dA1 esA syn dB1 rB dB2 esB synAck dA2 esA2 ack dB3 cA cB. ?P rA dA1 esA syn dB1 rB dB2 esB synAck dA2 esA2 ack dB3 cA cB")
proof -
  let ?w = "\<lparr>obNow = 0, obEarly = False, obHeard = False\<rparr>"
  have fresh: "fresh_refs exDevice" "fresh_refs exServer" and okB: "device_ok exServer"
    using exDevice_sends(2) by (simp_all add: fresh_refs_def exServer_def exDevice_def device_ok_def)
  obtain rA dA1 esA where c: "VConnect_syn exEnv ?w 0 7 (V4 0x0A01000A) 80 exDevice = Some (Inr rA, dA1, esA)"
    using exVConnect by blast
  let ?lis = "\<lparr>lnRemoteAddr = AddrPortFrom (V4 0) 0, lnLocalAddr = AddrPortFrom (V4 0) 80,
       lnStatus = Listen, lnAccepting = True, lnInbox = None\<rparr>"
  have l: "mget (lnStore exServer) 0 = Some ?lis" "lnAccepting ?lis" by (simp_all add: exServer_def)
  have b: "unat (7 :: u32) + 65536 < 2 ^ 32" "unat (9 :: u32) + 65536 < 2 ^ 32" by simp_all
  from three_way_handshake [OF exDevice_sends okB fresh b c l, of ?w "V4 0x0A01000A"]
  obtain syn dB1 where syn: "segs esA = [syn]"
    "handleListenState exEnv ?w 0 syn (V4 0x0A01000A) (V4 0x0A01000A) exServer = Some (dB1, [])"
    and rest: "\<forall>rB dB2 esB. VAccept_syn exEnv ?w 9 0 dB1 = Some (Inr rB, dB2, esB) \<longrightarrow>
      (\<exists>synAck dA2 esA2 ack dB3 cA cB. segs esB = [synAck] \<and>
         onConn (handleConnStatus exEnv synAck) rA ?w dA1 = Some (None, dA2, esA2) \<and> segs esA2 = [ack] \<and>
         onConn (handleConnStatus exEnv ack) rB ?w dB2 = Some (None, dB3, []) \<and>
         mget (connStore dA2) rA = Some cA \<and> mget (connStore dB3) rB = Some cB \<and> in_agreement cA cB)"
    by blast
  obtain rB dB2 esB where v: "VAccept_syn exEnv ?w 9 0 dB1 = Some (Inr rB, dB2, esB)"
    using exVAccept [OF syn(2), of 9] exVConnect_syn [OF c syn(1)] by auto
  obtain synAck dA2 esA2 ack dB3 cA cB where r: "segs esB = [synAck]"
    "onConn (handleConnStatus exEnv synAck) rA ?w dA1 = Some (None, dA2, esA2)" "segs esA2 = [ack]"
    "onConn (handleConnStatus exEnv ack) rB ?w dB2 = Some (None, dB3, [])"
    "mget (connStore dA2) rA = Some cA" "mget (connStore dB3) rB = Some cB" "in_agreement cA cB"
    using rest [rule_format, OF v] by blast
  show ?thesis by (intro exI conjI) (rule c syn v r)+
qed

end
