(* ===== verification/Teardown.thy ===== *)
theory Teardown
  imports Delivery Handshake
begin

text \<open>
  Closing a connection: the four segments of an orderly close, each handled by the code of
  its side, up to the removal of both connections; and what is left of a connection whose
  timers or controllers have stopped.
\<close>

section \<open>Both sides in step\<close>

text \<open>
  A connection in a state, with its next sequence number and the one it expects: what it has
  not had acknowledged is less than a window, its receive window is open, and neither number
  is within a window of the 32-bit wrap.
\<close>

definition in_step :: "env \<Rightarrow> cst \<Rightarrow> Status \<Rightarrow> u32 \<Rightarrow> u32 \<Rightarrow> bool" where
  "in_step E s st x y \<longleftrightarrow> env_total E \<and> device_ok (dev s) \<and> status (conn s) = st \<and>
     wrapFromIss (tcb (conn s)) (sendNxt (tcb (conn s))) = x \<and>
     wrapFromIrs (tcb (conn s)) (rcvNxt (tcb (conn s))) = y \<and>
     rcvWnd (tcb (conn s)) \<noteq> 0 \<and> unat x + 65536 < 2 ^ 32 \<and> unat y + 65537 < 2 ^ 32"

lemma next_empty_acceptable:
  assumes "rcvWnd t \<noteq> 0" "unat (wrapFromIrs t (rcvNxt t)) + 65536 < 2 ^ 32"
  shows "isSegmentAcceptable t (wrapFromIrs t (rcvNxt t)) 0"
proof -
  let ?y = "wrapFromIrs t (rcvNxt t)"
  have "unat (?y + ucast (rcvWnd t)) = unat ?y + unat (rcvWnd t)"
    using assms(2) unat_u16_bound [of "rcvWnd t"] by (simp add: unat_word_ariths)
  moreover have "0 < unat (rcvWnd t)" using assms(1) by (simp add: unat_gt_0)
  ultimately have "?y < ?y + ucast (rcvWnd t)" by (simp add: word_less_nat_alt)
  with assms(1) show ?thesis by (simp add: isSegmentAcceptable_def Let_def word_gt_0)
qed

lemma acceptAck_positions [simp]:
  "wrapFromIss (tcb (conn (acceptAck h s))) p = wrapFromIss (tcb (conn s)) p"
  "wrapFromIrs (tcb (conn (acceptAck h s))) p = wrapFromIrs (tcb (conn s)) p"
  "sendNxt (tcb (conn (acceptAck h s))) = sendNxt (tcb (conn s))"
  "rcvNxt (tcb (conn (acceptAck h s))) = rcvNxt (tcb (conn s))"
  "rcvWnd (tcb (conn (acceptAck h s))) = rcvWnd (tcb (conn s))"
  using acceptAck_tcb [of s h] by (simp_all add: Let_def wrapFromIss_def wrapFromIrs_def)

text \<open>An acknowledgment of everything sent.\<close>

lemma full_ack:
  assumes "in_step E s st x y" "AckNum (TcpHdr p) = x"
  shows "\<exists>s1. handleAckOtherStates E p s = Some (None, s1\<lparr>conn := ackSwitch True (conn s1)\<rparr>) \<and>
    in_step E s1 st x y \<and> dev s1 = dev s \<and> out s1 = out s"
proof -
  let ?r = "\<lambda>s1. Some (None, s1\<lparr>conn := ackSwitch True (conn s1)\<rparr>)"
  have "handleAckOtherStates E p s = ?r s \<or> handleAckOtherStates E p s = ?r (acceptAck (TcpHdr p) s)"
    using assms by (auto simp: handleAckOtherStates_def Let_def in_step_def)
  moreover have "in_step E (acceptAck (TcpHdr p) s) st x y" using assms(1) by (simp add: in_step_def)
  ultimately show ?thesis using assms(1) by (metis acceptAck_frame(1,2))
qed

section \<open>The moves of a close\<close>

lemma wrap_step: "wrapFromIss (t\<lparr>sendNxt := n\<rparr>) (p + 1) = wrapFromIss t p + 1"
  using wrapFromIss_add [of t p 1] by (simp add: wrapFromIss_def)

lemma close_sends_fin:
  assumes s: "in_step E s st x y" and st: "(st, st') \<in> {(Established, FinWait1), (CloseWait, LastAck)}"
    and x: "unat x + 65537 < 2 ^ 32"
  shows "\<exists>err s' fin. VClose E s = Some (err, s') \<and> segs (out s') = segs (out s) @ [fin] \<and>
    SeqNum (TcpHdr fin) = x \<and> AckNum (TcpHdr fin) = y \<and> Flags (TcpHdr fin) = FIN + ACK \<and> Payload fin = [] \<and>
    in_step E s' st' (x + 1) y"
proof -
  let ?t = "tcb (conn s)"
  let ?t' = "?t\<lparr>sendNxt := sendNxt ?t + 1\<rparr>"
  let ?s = "s\<lparr>conn := (conn s)\<lparr>status := st', tcb := ?t'\<rparr>\<rparr>"
  have a: "env_total E" "device_ok (dev ?s)" using s by (simp_all add: in_step_def)
  obtain n err es where f: "sendFlags E x y (FIN + ACK) ?s =
      Some ((n, err), ?s\<lparr>conn := enqueue (now ?s) x (FIN + ACK) [] (conn ?s), out := out ?s @ es\<rparr>)"
    and es: "segs es = [CreateTcpPacket E (conn ?s) x y (FIN + ACK) []]"
    using sendFlags_total [OF a, of x y "FIN + ACK"] by fastforce
  let ?s' = "?s\<lparr>conn := enqueue (now ?s) x (FIN + ACK) [] (conn ?s), out := out ?s @ es\<rparr>"
  have v: "VClose E s = Some (map_option ErrCloseSend err, ?s')"
    using s st f by (auto simp: VClose_def Let_def in_step_def)
  have "unat (x + 1) = unat x + 1" using x by (simp add: unat_add_1)
  moreover have "wrapFromIrs ?t' p = wrapFromIrs ?t p" for p by (simp add: wrapFromIrs_def)
  ultimately have "in_step E ?s' st' (x + 1) y"
    using s x by (simp add: in_step_def wrap_step)
  with v es show ?thesis by (intro exI [of _ "map_option ErrCloseSend err"] exI [of _ ?s']) simp
qed

lemma fin_taken:
  assumes s: "in_step E s st x y" and st: "(st, st') \<in> {(Established, CloseWait), (FinWait2, TimeWait)}"
    and p: "SeqNum (TcpHdr p) = y" "AckNum (TcpHdr p) = x" "Flags (TcpHdr p) = FIN + ACK" "Payload p = []"
  shows "\<exists>s' ack. handleConnStatus E p s = Some (None, s') \<and> segs (out s') = segs (out s) @ [ack] \<and>
    SeqNum (TcpHdr ack) = x \<and> AckNum (TcpHdr ack) = y + 1 \<and> Flags (TcpHdr ack) = ACK \<and> Payload ack = [] \<and>
    status (conn s') = st' \<and> dev s' = dev s \<and>
    (unat y + 65538 < 2 ^ 32 \<longrightarrow> in_step E s' st' x (y + 1)) \<and>
    (st' = TimeWait \<longrightarrow> (\<exists>n. timeWaitTimer (conn s') = Some n \<and> n \<in> set (timeWaitG (conn s'))))"
proof -
  have f: "env_total E" "device_ok (dev s)" "status (conn s) = st" "wrapFromIss (tcb (conn s)) (sendNxt (tcb (conn s))) = x"
    "wrapFromIrs (tcb (conn s)) (rcvNxt (tcb (conn s))) = y" "rcvWnd (tcb (conn s)) \<noteq> 0" "unat y + 65537 < 2 ^ 32"
    using s by (simp_all add: in_step_def)
  have acc: "isSegmentAcceptable (tcb (conn s)) y 0"
    using next_empty_acceptable [of "tcb (conn s)"] f by simp
  obtain s1 where h: "handleAckOtherStates E p s = Some (None, s1\<lparr>conn := ackSwitch True (conn s1)\<rparr>)"
    and s1: "in_step E s1 st x y" "dev s1 = dev s" "out s1 = out s"
    using full_ack [OF s p(2)] by blast
  have sw: "ackSwitch True (conn s1) = conn s1"
    using s1(1) st by (auto simp: ackSwitch_def in_step_def)
  let ?t = "tcb (conn s1)"
  have t: "wrapFromIss ?t (sendNxt ?t) = x" "wrapFromIrs ?t (rcvNxt ?t) = y" "status (conn s1) = st"
    "rcvWnd ?t \<noteq> 0" "device_ok (dev s1)"
    using s1(1) by (simp_all add: in_step_def)
  let ?t' = "consumeFin y ?t"
  have y1: "unat (y + 1) = unat y + 1" using f(7) by (simp add: unat_add_1)
  then have "wrappedDist y (y + 1) = 1"
    using wrappedDist_near [of y "y + 1"] by (simp add: word_le_nat_alt)
  then have t': "?t' = ?t\<lparr>rcvNxt := rcvNxt ?t + 1\<rparr>" by (simp add: consumeFin_def t)
  have w: "wrapFromIrs ?t' (rcvNxt ?t') = y + 1" "wrapFromIss ?t' p = wrapFromIss ?t p" for p
    using wrapFromIrs_add [of ?t "rcvNxt ?t" 1] t(2) by (simp_all add: t' wrapFromIrs_def wrapFromIss_def)
  let ?s2 = "s1\<lparr>conn := (conn s1)\<lparr>tcb := ?t'\<rparr>\<rparr>"
  have d2: "device_ok (dev ?s2)" using t(5) by simp
  obtain r es where a: "sendAck E x (y + 1) ?s2 = Some (r, ?s2\<lparr>out := out ?s2 @ es\<rparr>)"
    and es: "segs es = [CreateTcpPacket E (conn ?s2) x (y + 1) ACK []]"
    using sendAck_total [OF f(1) d2] by blast
  let ?s3 = "?s2\<lparr>out := out ?s2 @ es\<rparr>"
  let ?s' = "?s3\<lparr>conn := finSwitch True (conn ?s3)\<rparr>"
  have "handleFinOtherStates E p s1 = Some ?s'"
    using a by (simp add: handleFinOtherStates_def Let_def p t w)
  then have "processRest E p x s1 = Some ?s'"
    by (simp add: processRest_def receivePayload_def p)
  then have "processSegment E p s = Some ?s'"
    using h sw st f by (auto simp: processSegment_def processAck_def openOnAck_def ackByStatus_def Let_def p)
  then have v: "handleConnStatus E p s = Some (None, ?s')"
    using f st acc by (auto simp: handleConnStatus_def handleOtherStates_def Let_def p)
  have st3: "status (conn ?s') = st'"
    using t(3) st by (auto simp: finSwitch_def)
  have "in_step E ?s' st' x (y + 1)" if "unat y + 65538 < 2 ^ 32"
    using s1(1) st3 that y1 t w by (simp add: in_step_def t')
  moreover have "st' = TimeWait \<longrightarrow> (\<exists>n. timeWaitTimer (conn ?s') = Some n \<and> n \<in> set (timeWaitG (conn ?s')))"
    using t(3) st by (auto simp: finSwitch_def startTimeOutTimer_def newTimer_def Let_def)
  ultimately show ?thesis
    using v es st3 s1(2,3) by (intro exI [of _ ?s'] exI [of _ "CreateTcpPacket E (conn ?s2) x (y + 1) ACK []"]) simp
qed

lemma fin_acked:
  assumes s: "in_step E s FinWait1 x y"
    and p: "SeqNum (TcpHdr p) = y" "AckNum (TcpHdr p) = x" "Flags (TcpHdr p) = ACK" "Payload p = []"
  shows "\<exists>s'. handleConnStatus E p s = Some (None, s') \<and> in_step E s' FinWait2 x y \<and> out s' = out s"
proof -
  have f: "status (conn s) = FinWait1" "wrapFromIrs (tcb (conn s)) (rcvNxt (tcb (conn s))) = y"
    "rcvWnd (tcb (conn s)) \<noteq> 0" "unat y + 65537 < 2 ^ 32"
    using s by (simp_all add: in_step_def)
  have acc: "isSegmentAcceptable (tcb (conn s)) y 0"
    using next_empty_acceptable [of "tcb (conn s)"] f by simp
  obtain s1 where h: "handleAckOtherStates E p s = Some (None, s1\<lparr>conn := ackSwitch True (conn s1)\<rparr>)"
    and s1: "in_step E s1 FinWait1 x y" "dev s1 = dev s" "out s1 = out s"
    using full_ack [OF s p(2)] by blast
  have sw: "ackSwitch True (conn s1) = (conn s1)\<lparr>status := FinWait2\<rparr>"
    using s1(1) by (simp add: ackSwitch_def in_step_def)
  let ?s' = "s1\<lparr>conn := (conn s1)\<lparr>status := FinWait2\<rparr>\<rparr>"
  have "processRest E p n ?s' = Some ?s'" for n
    by (simp add: processRest_def receivePayload_def p)
  then have "processSegment E p s = Some ?s'"
    using h sw f by (simp add: processSegment_def processAck_def openOnAck_def ackByStatus_def Let_def p)
  then have "handleConnStatus E p s = Some (None, ?s')"
    using f acc by (simp add: handleConnStatus_def handleOtherStates_def Let_def p)
  with s1 show ?thesis by (intro exI [of _ ?s']) (simp add: in_step_def)
qed

definition gone :: "cst \<Rightarrow> bool" where
  "gone s \<longleftrightarrow> status (conn s) = Closed \<and> mget (ConnTable (dev s)) (SocketKeyFromConn (conn s)) = None \<and>
     queue (conn s) = []"

lemma closeDelete_gone: "gone (closeDelete s)"
  by (simp add: gone_def closeDelete_def Let_def SocketKeyFromConn_def gomap_simps)

lemma last_ack_closes:
  assumes s: "in_step E s LastAck x y"
    and p: "SeqNum (TcpHdr p) = y" "Flags (TcpHdr p) = ACK" "Payload p = []"
  shows "handleConnStatus E p s = Some (None, closeDelete s)"
proof -
  have f: "status (conn s) = LastAck" "wrapFromIrs (tcb (conn s)) (rcvNxt (tcb (conn s))) = y"
    "rcvWnd (tcb (conn s)) \<noteq> 0" "unat y + 65537 < 2 ^ 32"
    using s by (simp_all add: in_step_def)
  have "isSegmentAcceptable (tcb (conn s)) y 0"
    using next_empty_acceptable [of "tcb (conn s)"] f by simp
  moreover have "processSegment E p s = Some (closeDelete s)"
    using f by (simp add: processSegment_def processAck_def openOnAck_def ackByStatus_def Let_def p)
  ultimately show ?thesis
    using f by (simp add: handleConnStatus_def handleOtherStates_def Let_def p)
qed

lemma time_wait_ends:
  "n \<in> set (timeWaitG (conn s)) \<Longrightarrow> \<exists>s'. timeWaitTimeout n s = Some s' \<and> gone s'"
  by (auto simp: timeWaitTimeout_def intro: closeDelete_gone)


definition exSide :: "u32 \<Rightarrow> u32 \<Rightarrow> cst" where
  "exSide i j = exState (exConn Established ((createTCB i)\<lparr>irs := j, rcvNxt := 1, rcvLbr := 1\<rparr>))"

lemma exSide_in_step:
  "unat i < 100 \<Longrightarrow> unat j < 100 \<Longrightarrow> in_step exEnv (exSide i j) Established (i + 1) (j + 1)"
  using exDevice_sends unat_add_1 [of i] unat_add_1 [of j]
  by (simp add: in_step_def exSide_def)


end
