(* ===== verification/Hazards.thy ===== *)
theory Hazards
  imports Teardown
begin

text \<open>
  Where the TCP of this stack does not do what it means to: each lemma is a run of the
  model, for all states of a kind, that ends in the wrong place.
\<close>

section \<open>A read before the data\<close>

text \<open>
  C29: a read that finds nothing stops the connection for good.  \<^verbatim>\<open>VRead\<close> does not
  return; the read controller takes the request, waits for a signal that only it sends, and
  makes no further move; and from then on the handler of every acceptable segment with data
  does not return either, with the lock of the device held.
\<close>

theorem early_read_wedges:
  assumes "receiving E s" and "rcv_contents (tcb (conn s)) = []"
  shows "VRead n (conn s) = None \<and>
    (\<exists>c. ReadRecv_request (of_nat n) (conn s) = Some c \<and>
       (\<exists>m. rcvCtl (rcv_step c) = RWaitData m) \<and> rcv_step (rcv_step c) = rcv_step c \<and>
       (\<forall>p. data_segment (tcb (conn s)) p \<and>
          isSegmentAcceptable (tcb (conn s)) (SeqNum (TcpHdr p)) (of_nat (length (Payload p))) \<longrightarrow>
          handleConnStatus E p (s\<lparr>conn := rcv_step c\<rparr>) = None))"
proof -
  let ?c0 = "conn s" and ?m = "ucast (of_nat n :: u32) :: u64"
  have r: "status ?c0 = Established" "rcvCtl ?c0 = RReady" "rcv_inv (tcb ?c0)"
    using assms(1) by (simp_all add: receiving_def)
  have w: "rcvWnd (tcb ?c0) = ucast tcbSize" using rcv_full_window [OF r(3)] assms(2) by simp
  have q: "ReadRecv_request (of_nat n) ?c0 = Some (?c0\<lparr>rcvCtl := RGet ?m\<rparr>)"
    using r(2) by (simp add: ReadRecv_request_def)
  have st: "rcv_step (?c0\<lparr>rcvCtl := RGet ?m\<rparr>) = ?c0\<lparr>rcvCtl := RWaitData ?m\<rparr>"
    using w by (simp add: rcv_step_def)
  have "VRead n ?c0 = None"
    using r(1) q st by (simp add: VRead_def ReadRecv_def ReadRecv_reply_def)
  moreover have "handleConnStatus E p (s\<lparr>conn := ?c0\<lparr>rcvCtl := RWaitData ?m\<rparr>\<rparr>) = None"
    if p: "data_segment (tcb ?c0) p"
      "isSegmentAcceptable (tcb ?c0) (SeqNum (TcpHdr p)) (of_nat (length (Payload p)))" for p
  proof -
    let ?s = "s\<lparr>conn := ?c0\<lparr>rcvCtl := RWaitData ?m\<rparr>\<rparr>"
    have d: "Flags (TcpHdr p) = ACK" "Payload p \<noteq> []"
      "AckNum (TcpHdr p) \<le> wrapFromIss (tcb (conn ?s)) (sendNxt (tcb (conn ?s)))"
      using p(1) by (simp_all add: data_segment_def)
    obtain s1 where h: "handleAckOtherStates E p ?s = Some (None, s1)" and s1: "s1 = ?s \<or> s1 = acceptAck (TcpHdr p) ?s"
      using established_ack [OF _ d(3)] r(1) by auto
    have "rcvCtl (conn s1) = RWaitData ?m" "status (conn s1) = Established" using s1 r(1) by auto
    then have "receivePayload E p k s1 = None" for k
      using d(2) by (simp add: receivePayload_def AddRead_def)
    then have "processSegment E p ?s = None"
      using h r(1) d(1) by (simp add: processSegment_def processAck_def openOnAck_def ackByStatus_def processRest_def Let_def)
    then show ?thesis
      using p(2) r(1) d(1) by (simp add: handleConnStatus_def handleOtherStates_def Let_def)
  qed
  moreover have "rcv_step (?c0\<lparr>rcvCtl := RWaitData ?m\<rparr>) = ?c0\<lparr>rcvCtl := RWaitData ?m\<rparr>"
    by (simp add: rcv_step_def)
  ultimately show ?thesis
    using q st by (intro conjI exI [of _ "?c0\<lparr>rcvCtl := RGet ?m\<rparr>"]) auto
qed

theorem early_read_wedges_witness:
  "VRead 7 (conn exReceiver) = None \<and> (\<exists>c m. ReadRecv_request 7 (conn exReceiver) = Some c \<and>
     rcvCtl (rcv_step c) = RWaitData m \<and> rcv_step (rcv_step c) = rcv_step c)"
  using early_read_wedges [OF exReceiver_ok, of 7] by auto

section \<open>Data out of order\<close>

text \<open>
  A segment is stored when it is acceptable, not when it is next: one behind \<^verbatim>\<open>RCV.NXT\<close>
  is appended to the stream all the same, and the acknowledgment is not \<^verbatim>\<open>RCV.NXT\<close>.
\<close>

lemma out_of_order_stored:
  assumes "receiving E s" "data_segment (tcb (conn s)) p"
    and "isSegmentAcceptable (tcb (conn s)) (SeqNum (TcpHdr p)) (of_nat (length (Payload p)))"
    and "length (Payload p) \<le> unat (rcvWnd (tcb (conn s)))"
    and "SeqNum (TcpHdr p) \<noteq> wrapFromIrs (tcb (conn s)) (rcvNxt (tcb (conn s)))"
  shows "\<exists>s' ack. handleConnStatus E p s = Some (None, s') \<and>
    rcv_contents (tcb (conn s')) = rcv_contents (tcb (conn s)) @ Payload p \<and>
    segs (out s') = segs (out s) @ [ack] \<and>
    AckNum (TcpHdr ack) \<noteq> wrapFromIrs (tcb (conn s')) (rcvNxt (tcb (conn s')))"
proof -
  obtain s' ack where s': "handleConnStatus E p s = Some (None, s')"
    "rcv_contents (tcb (conn s')) = rcv_contents (tcb (conn s)) @ Payload p"
    "rcvNxt (tcb (conn s')) = rcvNxt (tcb (conn s)) + of_nat (length (Payload p))"
    "irs (tcb (conn s')) = irs (tcb (conn s))" "segs (out s') = segs (out s) @ [ack]"
    "AckNum (TcpHdr ack) = SeqNum (TcpHdr p) + of_nat (length (Payload p))"
    using receive_data [OF assms(1-4)] by blast
  have "wrapFromIrs (tcb (conn s')) (rcvNxt (tcb (conn s'))) =
      wrapFromIrs (tcb (conn s)) (rcvNxt (tcb (conn s))) + of_nat (length (Payload p))"
    unfolding s'(3) wrapFromIrs_def s'(4) add.assoc [symmetric] by (rule ucast_add_of_nat)
  with s' assms(5) show ?thesis by auto
qed

section \<open>The byte of a FIN\<close>

text \<open>
  A FIN moves \<^verbatim>\<open>RCV.NXT\<close> and leaves the window, so the receive buffer holds one byte more
  than was sent, and window and contents no longer add up.
\<close>

lemma fin_adds_byte:
  assumes "rcv_inv t" "seqNum = wrapFromIrs t (rcvNxt t)" "unat seqNum < 2 ^ 32 - 1"
  shows "length (rcv_contents (consumeFin seqNum t)) = Suc (length (rcv_contents t))"
    "rcvWnd (consumeFin seqNum t) = rcvWnd t" "\<not> rcv_inv (consumeFin seqNum t)"
proof -
  have "wrappedDist seqNum (seqNum + 1) = 1"
    using wrappedDist_near [of seqNum "seqNum + 1"] unat_add_1 [OF assms(3)] by (simp add: word_le_nat_alt)
  then have c: "consumeFin seqNum t = t\<lparr>rcvNxt := rcvNxt t + 1\<rparr>"
    by (simp add: consumeFin_def assms(2) [symmetric])
  have "unat (rcvNxt t - rcvLbr t) \<le> 65535" using assms(1) by (simp add: rcv_inv_def)
  then have "unat (rcvNxt t - rcvLbr t + of_nat 1) = unat (rcvNxt t - rcvLbr t) + 1"
    by (intro unat_add_of_nat) simp
  then have d: "unat (rcvNxt t + 1 - rcvLbr t) = Suc (unat (rcvNxt t - rcvLbr t))"
    by (simp add: algebra_simps)
  then show "length (rcv_contents (consumeFin seqNum t)) = Suc (length (rcv_contents t))"
    "rcvWnd (consumeFin seqNum t) = rcvWnd t" "\<not> rcv_inv (consumeFin seqNum t)"
    using assms(1) by (simp_all add: c rcv_contents_def rcv_inv_def)
qed

section \<open>The retransmission timer\<close>

text \<open>
  A goroutine that fires with nothing to resend goes back to wait on the timer that has
  just fired, which never fires again.
\<close>

definition rto_dead :: "VTcpConn \<Rightarrow> bool" where
  "rto_dead c \<longleftrightarrow> (\<exists>n. rtoG c = RtoWaiting n \<and> n \<in> set (rtoDrained c)) \<and> rtoTimer c \<noteq> None"

lemma rto_dies:
  assumes "rto_fire E n s = Some s1" "queue (conn s) = []" "rtoTimer (conn s) = Some n" "status (conn s) \<noteq> Closed"
  shows "\<exists>c. rto_top (conn s1) = Some c \<and> rto_dead c"
proof -
  have "s1 = s\<lparr>conn := (conn s)\<lparr>rtoDrained := n # rtoDrained (conn s), rtoG := RtoTop\<rparr>\<rparr>"
    using assms(1,2) by (auto simp: rto_fire_def Let_def Peek_def Items_def Len_def split: if_splits)
  with assms(3,4) show ?thesis by (simp add: rto_top_def rto_dead_def)
qed

lemma rto_stays_dead:
  assumes "rto_dead (conn s)"
  shows "rto_fire E n s = None" "send E q a f payload s = Some (r, s') \<Longrightarrow> rto_dead (conn s')"
proof -
  show "rto_fire E n s = None" using assms by (auto simp: rto_dead_def rto_fire_def)
  assume "send E q a f payload s = Some (r, s')"
  from send_Some [OF this] assms show "rto_dead (conn s')"
    by (auto simp: rto_dead_def enqueue_def startRtoTimer_def)
qed

section \<open>Writing to a closed window\<close>

text \<open>
  A write that meets a closed window serves, when the window opens, one byte fewer than the
  segment it was given, because the first byte was taken as a probe: the round reports that
  the last byte was not sent, and the next round writes that byte a second time.
\<close>

lemma probe_serves_one_less:
  assumes "sndCtl c = SReady" "snd_inv (tcb c)" "sendWnd (tcb c) = 0" "snd_contents (tcb c) = b # bs"
    and "bs \<noteq> []" "length bs < 1360" "w \<noteq> 0"
  shows "\<exists>c1. ReadSend_request (of_nat (Suc (length bs))) c = Some c1 \<and>
    sndCtl (fst (snd_step (c1\<lparr>tcb := (tcb c1)\<lparr>sendWnd := w\<rparr>\<rparr>))) = SServe bs"
proof -
  let ?n = "of_nat (Suc (length bs)) :: u64"
  obtain t1 b1 where g: "readFromSend 1 (tcb c) = (t1, b1)" by (cases "readFromSend 1 (tcb c)")
  have t1: "snd_inv t1" "snd_contents t1 = bs" "b1 = [b]"
    using snd_side.get_inv [OF assms(2), of 1] snd_side.get_contents [OF assms(2), of 1]
      snd_side.get_out [OF assms(2), of 1] g assms(4) by simp_all
  let ?c1 = "c\<lparr>tcb := t1, sndCtl := SGet [b] True ?n\<rparr>" and ?t2 = "t1\<lparr>sendWnd := w\<rparr>"
  have q: "ReadSend_request ?n c = Some ?c1"
    using assms(1,3) g t1(3) by (simp add: ReadSend_request_def)
  have t2: "snd_inv ?t2" "snd_contents ?t2 = bs" "getSendCapacity ?t2 = getSendCapacity t1"
    using t1 by (simp_all add: snd_inv_def snd_contents_def getSendCapacity_def)
  have m: "?n - 1 = of_nat (length bs)" by simp
  have n: "unat (ucast (?n - 1) :: u32) = length bs"
    unfolding m using assms(6) by (simp add: unat_u64_u32 unat_of_nat take_bit_nat_eq_self_iff)
  have "snd (readFromSend (ucast (?n - 1)) ?t2) = bs"
    using snd_side.get_out [OF t2(1), of "ucast (?n - 1)"] t2(2) assms(6) by (simp add: n del: of_nat_Suc)
  moreover have "getSendCapacity t1 \<noteq> 65535" using capacity_used [OF t1(1)] t1(2) assms(5) by simp
  ultimately have "sndCtl (fst (snd_step (?c1\<lparr>tcb := ?t2\<rparr>))) = SServe bs"
    using assms(7) t2(3) by (simp add: snd_step_def tcbSize_def split_beta)
  then show ?thesis using q by auto
qed

section \<open>States that forget to look\<close>

text \<open>Any acknowledgment in the window ends \<^verbatim>\<open>LAST-ACK\<close>, not only the one of the FIN.\<close>

lemma last_ack_any:
  "status (conn s) = LastAck \<Longrightarrow> ackByStatus E p s = Some (True, closeDelete s)"
  by (simp add: ackByStatus_def)

text \<open>Closing a closed connection, or one in \<^verbatim>\<open>LAST-ACK\<close>, sends a FIN and starts over.\<close>

lemma close_again:
  assumes "env_total E" "device_ok (dev s)" "status (conn s) \<in> {Closed, LastAck, Closing, FinWait1}"
  shows "\<exists>err s'. VClose E s = Some (err, s') \<and> status (conn s') = FinWait1"
proof -
  let ?t = "tcb (conn s)"
  let ?s = "s\<lparr>conn := (conn s)\<lparr>status := FinWait1, tcb := ?t\<lparr>sendNxt := sendNxt ?t + 1\<rparr>\<rparr>\<rparr>"
  have "device_ok (dev ?s)" using assms(2) by simp
  from sendFlags_total [OF assms(1) this] obtain n err es where
    "sendFlags E (wrapFromIss ?t (sendNxt ?t)) (wrapFromIrs ?t (rcvNxt ?t)) (FIN + ACK) ?s =
      Some ((n, err), ?s\<lparr>conn := enqueue (now ?s) (wrapFromIss ?t (sendNxt ?t)) (FIN + ACK) [] (conn ?s), out := out ?s @ es\<rparr>)"
    by fastforce
  with assms(3) show ?thesis by (auto simp: VClose_def Let_def)
qed

text \<open>
  A SYN for a listener whose \<^verbatim>\<open>VAccept\<close> is busy with the handshake before it blocks the
  handler, which holds the lock of the device, so the acknowledgment \<^verbatim>\<open>VAccept\<close> waits for
  cannot be handled.
\<close>

lemma busy_listener_blocks:
  "mget (lnStore d) r = Some lis \<Longrightarrow> \<not> lnAccepting lis \<Longrightarrow> Flags (TcpHdr p) = SYN \<Longrightarrow>
   handleListenState E w r p src dst d = None"
  by (simp add: handleListenState_def Let_def)

text \<open>With the last initial sequence number, the answer to the SYN is refused with a RST.\<close>

lemma last_iss_refused:
  assumes "status (conn s) = SynSent" "tcb (conn s) = createTCB (- 1)" "Flags (TcpHdr p) = SYN + ACK" "AckNum (TcpHdr p) = 0"
    and "handleConnStatus E p s = Some (err, s')"
  shows "err = Some ErrIncorrectAck"
  using assms by (auto simp: handleConnStatus_def handleSynSentState_def Let_def bind_eq_Some_conv)

section \<open>Below TCP\<close>

text \<open>
  A forwarded packet is sent on whatever its time to live, so nothing ends a routing loop.
\<close>

lemma forward_any_ttl:
  assumes "env_total E" and "\<And>i a bs. udpWrite E i a bs \<noteq> None" and "sendPacket E d p = Some (Inr n, es)"
  shows "\<exists>n' es'. sendPacket E d (p\<lparr>Header := (Header p)\<lparr>ipTTL := ttl\<rparr>\<rparr>) = Some (Inr n', es') \<and> es' \<noteq> []"
proof -
  have m: "\<exists>b. hdrMarshal E h = Some b" and u: "\<exists>n. udpWrite E i a bs = Some n" for h i a bs
    using assms(1,2) by (auto simp: env_total_def)
  from assms(3) obtain u iface intf c where f: "findIp d (ipDst (Header p)) = Inr (u, iface)"
    "mget (Interfaces d) iface = Some intf" "ifIsUp intf" "mget (Listeners d) iface = Some c"
    by (auto simp: sendPacket_def bind_eq_Some_conv Let_def split: sum.splits option.splits if_splits)
  let ?h = "(Header p)\<lparr>ipTTL := ttl - 1, ipChecksum := 0\<rparr>"
  obtain b where b: "hdrMarshal E ?h = Some b" using m by blast
  obtain b' where b': "hdrMarshal E (?h\<lparr>ipChecksum := uint (ComputeChecksum E (elems b) 0)\<rparr>) = Some b'" using m by blast
  obtain n' where "udpWrite E iface u (elems b' @ elems (Data p)) = Some n'" using u by blast
  with f b b' show ?thesis by (simp add: sendPacket_def Let_def)
qed

text \<open>
  A datagram whose header announces more than the 1,400 bytes of the buffer panics the
  goroutine that listens, and with it the program.
\<close>

lemma long_datagram_panics:
  assumes "ifIsUp intf" "hdrParse E (elems (recv_buf dgram)) = Some h" "ipTotalLen h > 1400"
  shows "Listen_datagram E intf dgram = None"
proof -
  have "slice_cap (recv_buf dgram) = 1400"
    by (simp add: recv_buf_def slice_cap_def MaxMessageSize_def)
  with assms have "reslice (recv_buf dgram) (nat (ipLen h)) (nat (ipTotalLen h)) = None"
    by (auto simp: reslice_None_iff)
  with assms show ?thesis by (simp add: Listen_datagram_def Let_def)
qed

text \<open>A router with more than 64 routes sends no update at all.\<close>

lemma large_table_silent:
  assumes "\<forall>(p, hop) \<in> set table. ipv4_prefix p" "64 < length table" "length table < 2 ^ 16"
  shows "SendRip E d Response router table = Some (Inl (ErrRip ErrEntriesTooLong), [])"
proof -
  obtain h where h: "CreateRipPacket Response router table = Some (Inr h)" "Command h = Response"
    "Num_entries h = of_nat (length (Hosts h))"
    "map (\<lambda>r. (rip_key r, Cost r)) (Hosts h) = map (\<lambda>(p, hop). (p, adv_cost router hop)) table"
    using CreateRipPacket_response [OF assms(1)] by blast
  have "length (Hosts h) = length table" using map_eq_imp_length_eq [OF h(4)] .
  with h(3) assms(2,3) have "maxEntrySize < Num_entries h"
    by (simp add: word_less_nat_alt maxEntrySize_def unat_of_nat take_bit_nat_eq_self_iff)
  then have "Marshal (Some h) = Err ErrEntriesTooLong"
    using h(2) by (simp add: Marshal_def Request_def Response_def)
  with h(1) assms(2) show ?thesis by (auto simp: SendRip_def)
qed

text \<open>
  An accepted connection is registered under the address the SYN was sent to, and removed
  under the address of \<^verbatim>\<open>if0\<close>: over another interface its entry stays for ever.
\<close>

lemma accept_entry_stays:
  assumes "CreateSocket d (remote k) (apPort (local k)) = Some c" and "mget (Interfaces d) ''if0'' = Some i"
    and "apAddr (local k) \<noteq> ifIp i" and "localAddr (conn s) = localAddr c"
  shows "mget (ConnTable (dev (closeDelete s))) k = mget (ConnTable (dev s)) k"
proof -
  have "apAddr (localAddr (conn s)) = ifIp i"
    using assms(1,2,4) by (auto simp: CreateSocket_def AddrPortFrom_def)
  then have "SocketKeyFromConn (conn s) \<noteq> k"
    using assms(3) by (auto simp: SocketKeyFromConn_def)
  then show ?thesis
    by (simp add: closeDelete_def Let_def gomap_simps SocketKeyFromConn_def)
qed

end
