(* ===== verification/Dispatch.thy ===== *)
theory Dispatch
  imports Handshake
begin

text \<open>
  The device around the connections: which socket a segment reaches, and what it leaves
  alone.
\<close>

section \<open>A handler changes its own connection only\<close>

text \<open>
  The address of a connection stays, and of the device at most its own entry goes, which it
  does when the connection closes.
\<close>

definition own_change :: "cst \<Rightarrow> cst \<Rightarrow> bool" where
  "own_change s s' \<longleftrightarrow> localAddr (conn s') = localAddr (conn s) \<and> remoteAddr (conn s') = remoteAddr (conn s) \<and>
     (dev s' = dev s \<and> (status (conn s') = Closed \<longrightarrow> status (conn s) = Closed) \<or>
      dev s' = (dev s)\<lparr>ConnTable := mdel (SocketKeyFromConn (conn s)) (ConnTable (dev s))\<rparr>)"

lemma own_change_same:
  "localAddr (conn s') = localAddr (conn s) \<Longrightarrow> remoteAddr (conn s') = remoteAddr (conn s) \<Longrightarrow>
   dev s' = dev s \<Longrightarrow> status (conn s') = Closed \<longrightarrow> status (conn s) = Closed \<Longrightarrow> own_change s s'"
  by (simp add: own_change_def)

lemma own_change_refl [simp]: "own_change s s"
  by (simp add: own_change_def)

lemma own_change_trans: "own_change s s1 \<Longrightarrow> own_change s1 s' \<Longrightarrow> own_change s s'"
  by (auto simp: own_change_def SocketKeyFromConn_def delete_idem)

lemma own_closeDelete: "own_change s (closeDelete s)"
  by (simp add: own_change_def closeDelete_def Let_def SocketKeyFromConn_def)

lemma own_sendRst: "sendRst E a s = Some (r, s') \<Longrightarrow> own_change s s'"
  by (auto simp: own_change_def dest: sendRst_state)

lemma own_send: "send E q a f b s = Some (r, s') \<Longrightarrow> own_change s s'"
  by (auto simp: own_change_def dest!: send_Some)

lemma own_sendAck: "sendAck E q a s = Some (r, s') \<Longrightarrow> own_change s s'"
  by (auto simp: own_change_def dest!: sendAck_Some)

lemma own_synSentOpen:
  assumes "synSentOpen E h b s = Some s'"
  shows "own_change s s'"
  using assms
  by (auto simp: synSentOpen_def Let_def bind_eq_Some_conv sendFlags_def own_change_def
      split: if_splits dest!: sendAck_Some send_Some signalOpener_state)

lemma own_handleSynSent:
  assumes "handleSynSentState E p s = Some (err, s')"
  shows "own_change s s'"
  using assms
  by (auto simp: handleSynSentState_def Let_def bind_eq_Some_conv own_closeDelete
      split: if_splits dest: own_sendRst own_synSentOpen)

lemma own_handleAck: "handleAckOtherStates E p s = Some (err, s') \<Longrightarrow> own_change s s'"
  by (rule own_change_same) (use handleAck_state [of E p s err s'] in \<open>auto simp: ack_edges_def\<close>)

lemma own_openOnAck: "openOnAck h u n s = Some s' \<Longrightarrow> own_change s s'"
  by (auto simp: own_change_def dest!: openOnAck_cases)

lemma own_ackByStatus: "ackByStatus E p s = Some (ret, s') \<Longrightarrow> own_change s s'"
  by (auto simp: ackByStatus_def bind_eq_Some_conv own_closeDelete own_change_same
      split: if_splits dest: own_handleAck)

lemma own_processAck: "processAck E p u n s = Some (ret, s') \<Longrightarrow> own_change s s'"
  by (auto simp: processAck_def bind_eq_Some_conv dest: own_openOnAck own_ackByStatus intro: own_change_trans)

lemma own_receivePayload: "receivePayload E p n s = Some s' \<Longrightarrow> own_change s s'"
  by (auto simp: receivePayload_def AddRead_def Let_def bind_eq_Some_conv own_change_def
      split: if_splits dest!: sendAck_Some)

lemma own_handleFin:
  assumes "handleFinOtherStates E p s = Some s'"
  shows "own_change s s'"
proof (rule own_change_same)
  show "status (conn s') = Closed \<longrightarrow> status (conn s) = Closed"
    using handleFin_status [OF assms] by (auto simp: fin_edges_def)
qed (use assms in \<open>elim handleFin_Some; simp\<close>)+

lemma own_processRest: "processRest E p n s = Some s' \<Longrightarrow> own_change s s'"
  by (auto simp: processRest_def bind_eq_Some_conv split: if_splits
      dest: own_receivePayload own_handleFin intro: own_change_trans)

lemma own_processSegment: "processSegment E p s = Some s' \<Longrightarrow> own_change s s'"
  by (auto simp: processSegment_def Let_def bind_eq_Some_conv split: if_splits
      dest: own_processAck own_processRest intro: own_change_trans)

lemma own_handleOther:
  assumes "handleOtherStates E p s = Some (err, s')"
  shows "own_change s s'"
  using assms
  by (auto simp: handleOtherStates_def Let_def bind_eq_Some_conv split: if_splits
      dest: own_sendRst own_send own_processSegment intro: own_change_trans own_closeDelete)

lemma own_handleConnStatus:
  assumes "handleConnStatus E p s = Some (err, s')"
  shows "own_change s s'"
  using assms by (cases "status (conn s)")
    (auto simp: handleConnStatus_def dest: own_handleSynSent own_handleOther)

lemma handleListen_cases:
  assumes "handleListenState E w r p src dst d = Some (d', es)"
  shows "d' = d \<or> (\<exists>lis. d' = d\<lparr>lnStore := mput r lis (lnStore d)\<rparr>)"
  using assms by (auto simp: handleListenState_def Let_def bind_eq_Some_conv split: if_splits)

lemma handleListen_frame:
  assumes "handleListenState E w r p src dst d = Some (d', es)"
  shows "connStore d' = connStore d" "ConnTable d' = ConnTable d" "ListenTable d' = ListenTable d"
    "l \<noteq> r \<Longrightarrow> mget (lnStore d') l = mget (lnStore d) l"
proof -
  from handleListen_cases [OF assms]
  show "connStore d' = connStore d" "ConnTable d' = ConnTable d" "ListenTable d' = ListenTable d"
    "l \<noteq> r \<Longrightarrow> mget (lnStore d') l = mget (lnStore d) l"
    by (auto simp: gomap_simps)
qed

section \<open>What a segment can change\<close>

text \<open>An entry of one store; a connection that ends also leaves the table.\<close>

definition tcp_change :: "Device \<Rightarrow> Device \<Rightarrow> bool" where
  "tcp_change d d' \<longleftrightarrow> d' = d \<or> (\<exists>r lis. d' = d\<lparr>lnStore := mput r lis (lnStore d)\<rparr>) \<or>
     (\<exists>r c. d' = d\<lparr>connStore := mput r c (connStore d)\<rparr>) \<or>
     (\<exists>r c k. d' = d\<lparr>ConnTable := mdel k (ConnTable d), connStore := mput r c (connStore d)\<rparr>)"

lemma tcp_change_refl [simp]: "tcp_change d d"
  by (simp add: tcp_change_def)

lemma tcpHandler_change:
  assumes "tcpHandler E w d p = Some (d', es)"
  shows "tcp_change d d'"
proof -
  have conn: "tcp_change d d'" if "map_option snd (onConn (handleConnStatus E q) r w d) = Some (d', es)" for q r
  proof -
    from that obtain c err s where
      h: "handleConnStatus E q \<lparr>dev = d, conn = c, out = [], now = obNow w, early = obEarly w, heard = obHeard w\<rparr> = Some (err, s)"
      and d': "d' = (dev s)\<lparr>connStore := mput r (conn s) (connStore (dev s))\<rparr>"
      by (auto simp: onConn_def bind_eq_Some_conv)
    from own_handleConnStatus [OF h] have "dev s = d \<or> (\<exists>k. dev s = d\<lparr>ConnTable := mdel k (ConnTable d)\<rparr>)"
      by (auto simp: own_change_def)
    then show ?thesis unfolding tcp_change_def d' by (elim disjE exE) (simp_all, blast+)
  qed
  have listen: "tcp_change d d'" if "handleListenState E w r q src dst d = Some (d', es)" for r q src dst
    using handleListen_cases [OF that] by (elim disjE exE) (unfold tcp_change_def, blast+)
  from assms obtain hdr where hdr: "ParseTCPHeader E (elems (Data p)) = Some hdr"
    by (cases "ParseTCPHeader E (elems (Data p))") (simp_all add: tcpHandler_def)
  let ?q = "\<lparr>TcpHdr = hdr\<lparr>TcpChecksum := 0\<rparr>, Payload = drop (unat (DataOffset hdr)) (elems (Data p))\<rparr>"
  let ?key = "SocketKeyFromPacketAndTcpHdr (Header p) (TcpHdr ?q)" and ?listen = "SocketKeyDefaultListen (TcpHdr ?q)"
  have fits: "unat (DataOffset hdr) \<le> slice_len (Data p)"
    by (rule ccontr) (use assms in \<open>simp add: tcpHandler_def hdr Let_def\<close>)
  have h: "(case mget (ConnTable d) ?key of
        Some r \<Rightarrow> map_option snd (onConn (handleConnStatus E ?q) r w d)
      | None \<Rightarrow> (case mget (ListenTable d) ?listen of
           Some r \<Rightarrow> handleListenState E w r ?q (apAddr (remote ?key)) (apAddr (local ?key)) d
         | None \<Rightarrow> Some (d, []))) = Some (d', es)"
    using assms unfolding tcpHandler_def hdr Let_def Option.bind_lunit if_P [OF fits] .
  show ?thesis
  proof (cases "mget (ConnTable d) ?key")
    case (Some r)
    with h show ?thesis using conn [of ?q r] by simp
  next
    case None
    with h show ?thesis
      using listen by (cases "mget (ListenTable d) ?listen") auto
  qed
qed

section \<open>Which socket a segment reaches\<close>


text \<open>A reset for a connection that is opening closes it and takes it out of the table.\<close>

definition exOpening :: Device where
  "exOpening = exDevice\<lparr>ConnTable := [(SocketKeyFromConn (exConn SynSent (createTCB 0)), 0)],
     connStore := [(0, exConn SynSent (createTCB 0))]\<rparr>"

definition exResetEnv :: env where
  "exResetEnv = exEnv\<lparr>tcpAccess := (\<lambda>bs. Some (TcpHdr (exSegment 0 1 (RST + ACK) [])))\<rparr>"

definition exResetPacket :: Packet where
  "exResetPacket =
     \<lparr>Header = \<lparr>ipVersion = 4, ipLen = 20, ipTOS = 0, ipTotalLen = 40, ipID = 0, ipFlags = 0, ipFragOff = 0,
        ipTTL = 16, ipProtocol = 6, ipChecksum = 0, ipSrc = V4 0x0A0A0102, ipDst = V4 0x0A010001, ipOptions = []\<rparr>,
      Data = slice_of (replicate 20 0)\<rparr>"

lemma exResets:
  assumes "conn s = exConn SynSent (createTCB 0)"
  shows "handleConnStatus E (exSegment 0 1 (RST + ACK) []) s = Some (Some ErrConnectionReset, closeDelete s)"
proof -
  have f: "has_flag (RST + ACK) ACK" "has_flag (RST + ACK) RST"
    by (simp_all add: has_flag_def tcp_flag_defs)
  show ?thesis
    using assms by (simp add: handleConnStatus_def handleSynSentState_def f wrapFromIss_def Let_def)
qed

lemma exReset_handled:
  "\<exists>d es. tcpHandler exResetEnv w exOpening exResetPacket = Some (d, es)"
proof -
  let ?hdr = "TcpHdr (exSegment 0 1 (RST + ACK) [])"
  have k: "SocketKeyFromPacketAndTcpHdr (Header exResetPacket) ?hdr = SocketKeyFromConn (exConn SynSent (createTCB 0))"
    by (simp add: SocketKeyFromPacketAndTcpHdr_def SocketKeyFromConn_def exResetPacket_def exConn_def)
  have h: "ParseTCPHeader exResetEnv bs = Some ?hdr" for bs
    by (simp add: ParseTCPHeader_def exResetEnv_def)
  have d: "elems (Data exResetPacket) = replicate 20 0" "slice_len (Data exResetPacket) = 20"
    by (simp_all add: exResetPacket_def slice_of_def slice_len_def)
  show ?thesis
    using exResets [unfolded exSegment_def] k
    by (simp add: tcpHandler_def h d Let_def onConn_def exOpening_def exSegment_def)
qed


end
