(* ===== verification/Goroutines.thy ===== *)
theory Goroutines
  imports Dispatch Delivery "HOL-Library.Sublist"
begin

text \<open>
  The goroutines of one connection, interleaved: the handler of segments, the two
  controllers of \<^verbatim>\<open>tcb.go\<close>, the retransmission and TIME-WAIT timers, and the calls of the
  user.  A step is what one of them does from one channel operation to the next, and a run
  is any sequence of steps; the lemmas are about every run.
\<close>

section \<open>Steps and runs\<close>

datatype event =
  Handled TcpPacket
| AskedRead u32 | TookRead "byte list" | ReadMove
| AddedSend "byte list" | AskedSend u64 | TookSend "byte list" | SendMove | Probed byte | ProbeTick
| UserClose
| RtoTop | RtoFired nat | TimeWaitOver nat
| Observed int bool bool

inductive conn_step :: "env \<Rightarrow> cst \<Rightarrow> event \<Rightarrow> cst \<Rightarrow> bool" for E where
  handled: "handleConnStatus E p s = Some (err, s') \<Longrightarrow> conn_step E s (Handled p) s'"
| asked_read: "ReadRecv_request n (conn s) = Some c \<Longrightarrow> conn_step E s (AskedRead n) (s\<lparr>conn := c\<rparr>)"
| took_read: "ReadRecv_reply (conn s) = Some (bs, c) \<Longrightarrow> conn_step E s (TookRead bs) (s\<lparr>conn := c\<rparr>)"
| read_move: "conn_step E s ReadMove (s\<lparr>conn := rcv_step (conn s)\<rparr>)"
| added_send: "AddSend bs (conn s) = Some c \<Longrightarrow> conn_step E s (AddedSend bs) (s\<lparr>conn := c\<rparr>)"
| asked_send: "ReadSend_request n (conn s) = Some c \<Longrightarrow> conn_step E s (AskedSend n) (s\<lparr>conn := c\<rparr>)"
| took_send: "ReadSend_reply (conn s) = Some (bs, c) \<Longrightarrow>
    send E (wrapFromIss (tcb c) (sendNxt (tcb c)) - of_nat (length bs)) (wrapFromIrs (tcb c) (rcvNxt (tcb c)))
      ACK bs (s\<lparr>conn := c\<rparr>) = Some (r, s') \<Longrightarrow> conn_step E s (TookSend bs) s'"
| send_move: "conn_step E s SendMove (s\<lparr>conn := fst (snd_step (conn s))\<rparr>)"
| probed: "snd_step (conn s) = (c, Some [b]) \<Longrightarrow> windowProbing E [b] (s\<lparr>conn := c\<rparr>) = Some s' \<Longrightarrow>
    conn_step E s (Probed b) s'"
| probe_tick: "conn_step E s ProbeTick (s\<lparr>conn := probeTimer (conn s)\<rparr>)"
| user_close: "VClose E s = Some (err, s') \<Longrightarrow> conn_step E s UserClose s'"
| rto_top: "rto_top (conn s) = Some c \<Longrightarrow> conn_step E s RtoTop (s\<lparr>conn := c\<rparr>)"
| rto_fired: "rto_fire E n s = Some s' \<Longrightarrow> conn_step E s (RtoFired n) s'"
| time_wait_over: "timeWaitTimeout n s = Some s' \<Longrightarrow> conn_step E s (TimeWaitOver n) s'"
| observed: "conn_step E s (Observed t b b') (s\<lparr>now := t, early := b, heard := b'\<rparr>)"

inductive conn_run :: "env \<Rightarrow> cst \<Rightarrow> event list \<Rightarrow> cst \<Rightarrow> bool" for E s where
  start: "conn_run E s [] s"
| more: "conn_run E s es s1 \<Longrightarrow> conn_step E s1 e s2 \<Longrightarrow> conn_run E s (es @ [e]) s2"

text \<open>A property of the events so far and the state that each allowed step keeps.\<close>

locale run_invariant =
  fixes E :: env and allowed :: "event \<Rightarrow> bool" and inv :: "event list \<Rightarrow> cst \<Rightarrow> bool"
  assumes keeps: "inv es s \<Longrightarrow> conn_step E s e s' \<Longrightarrow> allowed e \<Longrightarrow> inv (es @ [e]) s'"
begin

lemma run_keeps: "conn_run E s es s' \<Longrightarrow> \<forall>e \<in> set es. allowed e \<Longrightarrow> inv [] s \<Longrightarrow> inv es s'"
  by (induction rule: conn_run.induct) (auto intro: keeps)

end

section \<open>What a step may do to the state of the connection\<close>

lemma snd_step_frame [simp]:
  "status (fst (snd_step c)) = status c" "rcvCtl (fst (snd_step c)) = rcvCtl c"
  "localAddr (fst (snd_step c)) = localAddr c" "remoteAddr (fst (snd_step c)) = remoteAddr c"
  by (simp_all add: snd_step_def Let_def split: snd_ctl.split prod.split)

lemma probeTimer_frame [simp]:
  "status (probeTimer c) = status c" "rcvCtl (probeTimer c) = rcvCtl c" "tcb (probeTimer c) = tcb c"
  "localAddr (probeTimer c) = localAddr c" "remoteAddr (probeTimer c) = remoteAddr c"
  by (simp_all add: probeTimer_def split: snd_ctl.split bool.split)

lemma own_conn:
  "status c = status (conn s) \<Longrightarrow> localAddr c = localAddr (conn s) \<Longrightarrow> remoteAddr c = remoteAddr (conn s) \<Longrightarrow>
   own_change s (s\<lparr>conn := c\<rparr>)"
  by (simp add: own_change_def)

lemma own_out: "sendTcpOn E q s = Some (r, s') \<Longrightarrow> own_change s s' \<and> conn s' = conn s"
  by (auto simp: own_change_def dest!: sendTcpOn_Some)

lemma own_VClose:
  assumes "VClose E s = Some (err, s')"
  shows "own_change s s'"
proof (cases "status (conn s) = SynSent")
  case True
  with assms show ?thesis by (auto simp: VClose_def Let_def own_closeDelete)
next
  case False
  with assms show ?thesis
    by (auto simp: VClose_def Let_def sendFlags_def bind_eq_Some_conv own_change_def split: Status.splits dest!: send_Some)
qed

lemma VClose_status:
  assumes "VClose E s = Some (err, s')"
  shows "(status (conn s), status (conn s')) \<in> {(SynSent, Closed), (FinWait2, FinWait2), (TimeWait, TimeWait), (CloseWait, LastAck)}
       \<union> {(st, FinWait1) | st. st \<notin> {SynSent, FinWait2, TimeWait, CloseWait}}"
  using assms
  by (auto simp: VClose_def Let_def sendFlags_def bind_eq_Some_conv split: Status.splits dest!: send_Some)

lemma own_step: "conn_step E s e s' \<Longrightarrow> own_change s s'"
proof (induction rule: conn_step.induct)
  case (took_send s bs c r s')
  then have "own_change s (s\<lparr>conn := c\<rparr>)"
    by (intro own_conn) (auto simp: ReadSend_reply_def split: snd_ctl.splits)
  with own_send [OF took_send(2)] show ?case using own_change_trans by blast
next
  case (probed s c b s')
  then have "own_change s (s\<lparr>conn := c\<rparr>)"
    using snd_step_frame [of "conn s"] by (intro own_conn) auto
  moreover have "own_change (s\<lparr>conn := c\<rparr>) s'"
    using probed(2) own_out by (auto simp: windowProbing_def Let_def)
  ultimately show ?case by (rule own_change_trans)
next
  case (rto_fired n s s')
  then show ?case
    by (auto simp: rto_fire_def Let_def bind_eq_Some_conv own_change_def split: if_splits option.splits dest!: sendTcpOn_Some)
next
  case (handled p s err s')
  then show ?case by (rule own_handleConnStatus)
next
  case (user_close s err s')
  then show ?case by (rule own_VClose)
next
  case (time_wait_over n s s')
  then show ?case by (auto simp: timeWaitTimeout_def own_change_def closeDelete_def Let_def SocketKeyFromConn_def split: if_splits)
qed (auto simp: own_change_def ReadRecv_request_def ReadRecv_reply_def
    AddSend_def ReadSend_request_def rto_top_def Let_def split: rcv_ctl.splits if_splits prod.splits)

lemma step_status:
  "conn_step E s e s' \<Longrightarrow> (status (conn s), status (conn s')) \<in>
     (case e of Handled p \<Rightarrow> tcp_edges\<^sup>=
      | UserClose \<Rightarrow> {(SynSent, Closed), (FinWait2, FinWait2), (TimeWait, TimeWait), (CloseWait, LastAck)}
          \<union> {(st, FinWait1) | st. st \<notin> {SynSent, FinWait2, TimeWait, CloseWait}}
      | TimeWaitOver n \<Rightarrow> {(st, Closed) | st. True}
      | _ \<Rightarrow> Id)"
proof (induction rule: conn_step.induct)
  case (took_send s bs c r s')
  then show ?case by (auto simp: ReadSend_reply_def send_state split: snd_ctl.splits)
next
  case (probed s c b s')
  then show ?case
    using snd_step_frame [of "conn s"] by (auto simp: windowProbing_def Let_def dest!: sendTcpOn_Some)
next
  case (rto_fired n s s')
  then show ?case
    by (auto simp: rto_fire_def Let_def bind_eq_Some_conv split: if_splits option.splits dest!: sendTcpOn_Some)
next
  case (user_close s err s')
  then show ?case using VClose_status by simp
next
  case (handled p s err s')
  then show ?case using handleConnStatus_status(1) by simp
qed (auto simp: ReadRecv_request_def ReadRecv_reply_def AddSend_def ReadSend_request_def rto_top_def timeWaitTimeout_def
    Let_def split: rcv_ctl.splits if_splits prod.splits)

section \<open>The life of a connection\<close>

definition tidy :: "cst \<Rightarrow> bool" where
  "tidy s \<longleftrightarrow> (status (conn s) = Closed \<longrightarrow> mget (ConnTable (dev s)) (SocketKeyFromConn (conn s)) = None)"

abbreviation unfinished :: "Status set" where
  "unfinished \<equiv> {Listen, SynSent, SynRecv, Established}"

lemma own_key: "own_change s s' \<Longrightarrow> SocketKeyFromConn (conn s') = SocketKeyFromConn (conn s)"
  by (simp add: own_change_def SocketKeyFromConn_def)

interpretation key_stays: run_invariant E "\<lambda>e. True" "\<lambda>es s. SocketKeyFromConn (conn s) = k"
  by unfold_locales (simp add: own_key [OF own_step])

interpretation tidy_stays: run_invariant E "\<lambda>e. True" "\<lambda>es s. tidy s"
proof
  fix es s e s'
  assume t: "tidy s" and step: "conn_step E s e s'"
  from own_step [OF step] have o: "own_change s s'" .
  with t own_key [OF o] show "tidy s'" by (auto simp: tidy_def own_change_def gomap_simps)
qed

interpretation past_open: run_invariant E "\<lambda>e. True" "\<lambda>es s. status (conn s) \<notin> unfinished"
proof
  fix es s e s'
  assume "status (conn s) \<notin> unfinished" and step: "conn_step E s e s'"
  with step_status [OF step] show "status (conn s') \<notin> unfinished"
    by (auto simp: tcp_edges_def ack_edges_def fin_edges_def split: event.splits)
qed

interpretation stays_closed: run_invariant E "\<lambda>e. e \<noteq> UserClose" "\<lambda>es s. status (conn s) = Closed"
proof
  fix es s e s'
  assume "status (conn s) = Closed" "e \<noteq> UserClose" and step: "conn_step E s e s'"
  with step_status [OF step] show "status (conn s') = Closed"
    by (auto simp: tcp_edges_def ack_edges_def fin_edges_def split: event.splits)
qed


section \<open>The bytes that a connection holds for its reader\<close>

text \<open>Those the controller is about to hand over, the buffer, and the payload it has not stored yet.\<close>

definition in_flight :: "VTcpConn \<Rightarrow> byte list" where
  "in_flight c =
     (case rcvCtl c of RServe bs \<Rightarrow> bs | _ \<Rightarrow> []) @ rcv_contents (tcb c) @
     (case rcvCtl c of RPut bs \<Rightarrow> bs | RWaitSpace bs \<Rightarrow> bs | _ \<Rightarrow> [])"

definition rcv_sound :: "VTcpConn \<Rightarrow> bool" where
  "rcv_sound c \<longleftrightarrow> rcv_inv (tcb c) \<and>
     (case rcvCtl c of RPut bs \<Rightarrow> length bs < 2 ^ 16 | RWaitSpace bs \<Rightarrow> length bs < 2 ^ 16 | _ \<Rightarrow> True)"

text \<open>What every step but those of the reader and of new data leaves alone.\<close>

definition rcv_same :: "VTcpConn \<Rightarrow> VTcpConn \<Rightarrow> bool" where
  "rcv_same c c' \<longleftrightarrow> rcvCtl c' = rcvCtl c \<and> rcvNxt (tcb c') = rcvNxt (tcb c) \<and> rcvLbr (tcb c') = rcvLbr (tcb c) \<and>
     rcvBuf (tcb c') = rcvBuf (tcb c) \<and> rcvWnd (tcb c') = rcvWnd (tcb c)"

lemma rcv_same_simps:
  assumes "rcv_same c c'"
  shows "in_flight c' = in_flight c" "rcv_sound c' = rcv_sound c"
  using assms rcv_side_same [of "tcb c'" "tcb c"] by (simp_all add: rcv_same_def in_flight_def rcv_sound_def)

lemma rcv_same_trans: "rcv_same c c1 \<Longrightarrow> rcv_same c1 c' \<Longrightarrow> rcv_same c c'"
  by (simp add: rcv_same_def)

lemma rcv_same_tcb: "rcvCtl c' = rcvCtl c \<Longrightarrow> tcb c' = tcb c \<Longrightarrow> rcv_same c c'"
  by (simp add: rcv_same_def)

lemma rcv_step_in_flight:
  assumes "rcv_sound c"
  shows "in_flight (rcv_step c) = in_flight c" "rcv_sound (rcv_step c)"
proof -
  have i: "rcv_inv (tcb c)" using assms by (simp add: rcv_sound_def)
  have fits: "length bs \<le> unat (rcvWnd (tcb c))" if "rcvCtl c = RPut bs" "\<not> rcvWnd (tcb c) < of_nat (length bs)" for bs
    using that assms by (simp add: rcv_sound_def word_less_nat_alt unat_of_nat take_bit_nat_eq_self_iff)
  show "in_flight (rcv_step c) = in_flight c" "rcv_sound (rcv_step c)"
    using assms rcv.put_contents [OF i fits] rcv.put_inv [OF i fits] rcv.get_split [OF i] rcv.get_inv [OF i]
    by (auto simp: rcv_step_def in_flight_def rcv_sound_def split_beta split: rcv_ctl.splits)
qed

text \<open>A step of the handler gives the reader nothing, or the payload of the segment.\<close>

definition rcv_takes :: "byte list \<Rightarrow> VTcpConn \<Rightarrow> VTcpConn \<Rightarrow> bool" where
  "rcv_takes bs c c' \<longleftrightarrow> rcv_sound c' \<and> (in_flight c' = in_flight c \<or> in_flight c' = in_flight c @ bs)"

lemma rcv_same_acceptAck: "rcv_same (conn s) (conn (acceptAck h s))"
  using acceptAck_tcb [of s h] by (simp add: rcv_same_def Let_def)

lemma rcv_same_closeDelete: "rcv_same (conn s) (conn (closeDelete s))"
  by (simp add: rcv_same_def closeDelete_def Let_def)

lemma rcv_same_handleAck:
  assumes "handleAckOtherStates E p s = Some (err, s')"
  shows "rcv_same (conn s) (conn s')"
  using assms
proof (cases rule: handleAck_cases)
  case (1 r)
  from sendAck_Some [OF 1(1)] show ?thesis by (auto simp: rcv_same_def)
next
  case (2 s1 b)
  then show ?thesis using rcv_same_acceptAck [of s "TcpHdr p"] by (auto simp: rcv_same_def)
qed

lemma rcv_same_processAck:
  assumes "processAck E p u n s = Some (ret, s')"
  shows "rcv_same (conn s) (conn s')"
proof -
  from assms obtain s1 where o: "openOnAck (TcpHdr p) u n s = Some s1" and a: "ackByStatus E p s1 = Some (ret, s')"
    by (auto simp: processAck_def bind_eq_Some_conv)
  from openOnAck_cases [OF o] have "rcv_same (conn s) (conn s1)" by (auto simp: rcv_same_def)
  moreover have "rcv_same (conn s1) (conn s')"
    using a rcv_same_closeDelete rcv_same_handleAck
    by (auto simp: ackByStatus_def bind_eq_Some_conv rcv_same_tcb split: if_splits)
  ultimately show ?thesis by (rule rcv_same_trans)
qed

lemma receivePayload_takes:
  assumes "receivePayload E p n s = Some s'" "rcv_sound (conn s)" "length (Payload p) < 2 ^ 16"
  shows "rcv_takes (Payload p) (conn s) (conn s')"
proof (cases "conn s' = conn s")
  case False
  let ?c = "(conn s)\<lparr>rcvCtl := RPut (Payload p)\<rparr>"
  from assms(1) False have r: "rcvCtl (conn s) = RReady" and s': "conn s' = rcv_step ?c"
    by (auto simp: receivePayload_def AddRead_def Let_def bind_eq_Some_conv split: if_splits dest!: sendAck_Some)
  have "rcv_sound ?c" "in_flight ?c = in_flight (conn s) @ Payload p"
    using r assms(2,3) by (simp_all add: rcv_sound_def in_flight_def)
  with rcv_step_in_flight [of ?c] s' show ?thesis by (simp add: rcv_takes_def)
qed (use assms in \<open>simp add: rcv_takes_def\<close>)

lemma processSegment_takes:
  assumes "processSegment E p s = Some s'" "\<not> has_flag (Flags (TcpHdr p)) FIN"
    and "rcv_sound (conn s)" "length (Payload p) < 2 ^ 16"
  shows "rcv_takes (Payload p) (conn s) (conn s')"
proof -
  have "\<exists>s1. rcv_same (conn s) (conn s1) \<and> (s' = s1 \<or> (\<exists>n. receivePayload E p n s1 = Some s'))"
  proof (cases "has_flag (Flags (TcpHdr p)) ACK")
    case True
    with assms(1,2) show ?thesis
      by (auto simp: processSegment_def processRest_def Let_def bind_eq_Some_conv split: if_splits dest: rcv_same_processAck)
  next
    case False
    with assms(1,2) show ?thesis
      by (intro exI [of _ s]) (auto simp: processSegment_def processRest_def Let_def bind_eq_Some_conv rcv_same_tcb)
  qed
  then obtain s1 where same: "rcv_same (conn s) (conn s1)" and
    "s' = s1 \<or> (\<exists>n. receivePayload E p n s1 = Some s')" by blast
  with receivePayload_takes [of E p _ s1 s'] assms(3,4) rcv_same_simps [OF same] show ?thesis
    by (auto simp: rcv_takes_def)
qed

lemma handleConnStatus_takes:
  assumes "handleConnStatus E p s = Some (err, s')" "status (conn s) \<noteq> SynSent"
    and "\<not> has_flag (Flags (TcpHdr p)) FIN" "rcv_sound (conn s)" "length (Payload p) < 2 ^ 16"
  shows "rcv_takes (Payload p) (conn s) (conn s')"
proof -
  have same: "rcv_takes bs (conn s) (conn s')" if "rcv_same (conn s) (conn s')" for bs
    using rcv_same_simps [OF that] assms(4) by (simp add: rcv_takes_def)
  from assms(1,2) consider "s' = s" | "handleOtherStates E p s = Some (err, s')"
    by (cases "status (conn s)") (auto simp: handleConnStatus_def)
  then show ?thesis
  proof cases
    case 1
    then show ?thesis using same by (simp add: rcv_same_def)
  next
    case 2
    then consider "processSegment E p s = Some s'"
      | a r s1 where "sendRst E a s = Some (r, s1)" "s' = closeDelete s1" | "s' = s"
      | n a r where "send E n a ACK [] s = Some (r, s')"
      by (auto simp: handleOtherStates_def Let_def bind_eq_Some_conv sendRst_state split: if_splits)
    then show ?thesis
    proof cases
      case 1
      then show ?thesis using processSegment_takes assms(3-5) by blast
    next
      case 2
      then show ?thesis using same rcv_same_closeDelete [of s1] by (simp add: sendRst_state)
    next
      case 3
      then show ?thesis using same by (simp add: rcv_same_def)
    next
      case 4
      then show ?thesis using same by (simp add: rcv_same_def send_state)
    qed
  qed
qed

section \<open>Every run of a reader\<close>

definition segments :: "event list \<Rightarrow> TcpPacket list" where
  "segments es = concat (map (\<lambda>e. case e of Handled p \<Rightarrow> [p] | _ \<Rightarrow> []) es)"

definition bytes_read :: "event list \<Rightarrow> byte list" where
  "bytes_read es = concat (map (\<lambda>e. case e of TookRead bs \<Rightarrow> bs | _ \<Rightarrow> []) es)"

definition plain :: "event \<Rightarrow> bool" where
  "plain e \<longleftrightarrow> (case e of Handled p \<Rightarrow> \<not> has_flag (Flags (TcpHdr p)) FIN \<and> length (Payload p) < 2 ^ 16 | _ \<Rightarrow> True)"

lemma event_simps:
  "segments [] = []" "bytes_read [] = []"
  "segments (es @ [e]) = segments es @ (case e of Handled p \<Rightarrow> [p] | _ \<Rightarrow> [])"
  "bytes_read (es @ [e]) = bytes_read es @ (case e of TookRead bs \<Rightarrow> bs | _ \<Rightarrow> [])"
  by (simp_all add: segments_def bytes_read_def)

lemma rcv_same_readFromSend: "tcb c' = fst (readFromSend n (tcb c)) \<Longrightarrow> rcvCtl c' = rcvCtl c \<Longrightarrow> rcv_same c c'"
  by (simp add: rcv_same_def readFromSend_def Let_def)

lemma add2Send_rcv_side [simp]:
  "rcvNxt (add2Send bs t) = rcvNxt t" "rcvLbr (add2Send bs t) = rcvLbr t"
  "rcvBuf (add2Send bs t) = rcvBuf t" "rcvWnd (add2Send bs t) = rcvWnd t"
proof -
  have "rcvNxt (add2Send_loop k bs t) = rcvNxt t \<and> rcvLbr (add2Send_loop k bs t) = rcvLbr t \<and>
      rcvBuf (add2Send_loop k bs t) = rcvBuf t \<and> rcvWnd (add2Send_loop k bs t) = rcvWnd t" for k
    by (induction k bs t rule: add2Send_loop.induct) simp_all
  then show "rcvNxt (add2Send bs t) = rcvNxt t" "rcvLbr (add2Send bs t) = rcvLbr t"
    "rcvBuf (add2Send bs t) = rcvBuf t" "rcvWnd (add2Send bs t) = rcvWnd t"
    by (simp_all add: add2Send_def)
qed

lemma rcv_same_snd_step: "rcv_same c (fst (snd_step c))"
  by (auto simp: snd_step_def Let_def rcv_same_def readFromSend_def split_beta split: snd_ctl.split)

lemma rcv_same_sendTcpOn: "sendTcpOn E q s = Some (r, s') \<Longrightarrow> conn s' = conn s"
  by (auto dest!: sendTcpOn_Some)

lemma rcv_same_VClose: "VClose E s = Some (err, s') \<Longrightarrow> rcv_same (conn s) (conn s')"
  by (auto simp: VClose_def Let_def sendFlags_def bind_eq_Some_conv rcv_same_def closeDelete_def
      split: Status.splits dest!: send_Some)

lemma step_rcv_same:
  assumes "conn_step E s e s'"
  shows "case e of Handled p \<Rightarrow> True | AskedRead n \<Rightarrow> True | TookRead bs \<Rightarrow> True | ReadMove \<Rightarrow> True
     | _ \<Rightarrow> rcv_same (conn s) (conn s')"
  using assms
proof (induction rule: conn_step.induct)
  case (took_send s bs c r s')
  then show ?case by (auto simp: ReadSend_reply_def rcv_same_def send_state split: snd_ctl.splits)
next
  case (probed s c b s')
  then show ?case
    using rcv_same_snd_step [of "conn s"] by (auto simp: windowProbing_def Let_def rcv_same_sendTcpOn)
next
  case (rto_fired n s s')
  then show ?case
    by (auto simp: rto_fire_def Let_def bind_eq_Some_conv rcv_same_def split: if_splits option.splits dest!: sendTcpOn_Some)
next
  case (send_move s)
  then show ?case using rcv_same_snd_step by simp
next
  case (user_close s err s')
  then show ?case using rcv_same_VClose by simp
next
  case (asked_send n s c)
  then show ?case
    by (auto simp: ReadSend_request_def rcv_same_def readFromSend_def Let_def split: if_splits prod.splits)
qed (auto simp: AddSend_def rto_top_def rcv_same_def timeWaitTimeout_def
    closeDelete_def Let_def split: if_splits)

lemma step_takes:
  assumes "conn_step E s e s'" "plain e" "status (conn s) \<noteq> SynSent" "rcv_sound (conn s)"
  shows "rcv_sound (conn s') \<and>
    (case e of Handled p \<Rightarrow> in_flight (conn s') = in_flight (conn s) \<or> in_flight (conn s') = in_flight (conn s) @ Payload p
     | TookRead bs \<Rightarrow> bs @ in_flight (conn s') = in_flight (conn s)
     | _ \<Rightarrow> in_flight (conn s') = in_flight (conn s))"
  using assms
proof (cases rule: conn_step.cases)
  case (handled p err)
  then show ?thesis
    using handleConnStatus_takes [OF handled(2) assms(3)] assms(2,4) by (simp add: plain_def rcv_takes_def)
next
  case (asked_read n c)
  then show ?thesis using assms(4) by (auto simp: ReadRecv_request_def in_flight_def rcv_sound_def split: if_splits)
next
  case (took_read bs c)
  then show ?thesis using assms(4) by (auto simp: ReadRecv_reply_def in_flight_def rcv_sound_def split: rcv_ctl.splits)
next
  case read_move
  then show ?thesis using rcv_step_in_flight [OF assms(4)] by simp
qed (use step_rcv_same [OF assms(1)] rcv_same_simps [of "conn s" "conn s'"] assms(4) in simp_all)

definition read_inv :: "event list \<Rightarrow> cst \<Rightarrow> bool" where
  "read_inv es s \<longleftrightarrow> rcv_sound (conn s) \<and> status (conn s) \<noteq> SynSent \<and>
     (\<exists>qs. subseq qs (segments es) \<and> concat (map Payload qs) = bytes_read es @ in_flight (conn s))"

interpretation reader: run_invariant E plain read_inv
proof
  fix es s e s'
  assume inv: "read_inv es s" and step: "conn_step E s e s'" and e: "plain e"
  then have "status (conn s') \<noteq> SynSent"
    using step_status [OF step]
    by (auto simp: read_inv_def tcp_edges_def ack_edges_def fin_edges_def split: event.splits)
  moreover from inv obtain qs where qs: "subseq qs (segments es)"
    "concat (map Payload qs) = bytes_read es @ in_flight (conn s)" and "rcv_sound (conn s)" "status (conn s) \<noteq> SynSent"
    by (auto simp: read_inv_def)
  moreover note t = step_takes [OF step e this(4,3)]
  moreover have "\<exists>qs. subseq qs (segments (es @ [e])) \<and>
      concat (map Payload qs) = bytes_read (es @ [e]) @ in_flight (conn s')"
  proof (cases "\<exists>p. e = Handled p \<and> in_flight (conn s') = in_flight (conn s) @ Payload p")
    case True
    then obtain p where "e = Handled p" "in_flight (conn s') = in_flight (conn s) @ Payload p" by blast
    with qs show ?thesis
      by (intro exI [of _ "qs @ [p]"]) (simp add: event_simps)
  next
    case False
    with t qs show ?thesis
      by (intro exI [of _ qs]) (auto simp: event_simps split: event.splits)
  qed
  ultimately show "read_inv (es @ [e]) s'" by (simp add: read_inv_def)
qed


text \<open>A segment with three bytes arrives, and a read takes two of them.\<close>

definition exData3 :: TcpPacket where
  "exData3 = exSegment 6 10 ACK [1, 2, 3]"

lemma exData3_run:
  "\<exists>s'. conn_run exEnv exReceiver [Handled exData3, AskedRead 2, ReadMove, TookRead [1, 2]] s'"
proof -
  have d: "data_segment (tcb (conn exReceiver)) exData3"
    by (simp add: data_segment_def exData3_def exReceiver_def wrapFromIss_def)
  have a: "isSegmentAcceptable (tcb (conn exReceiver)) (SeqNum (TcpHdr exData3)) (of_nat (length (Payload exData3)))"
    by (simp add: exData3_def exReceiver_def isSegmentAcceptable_def wrapFromIrs_def Let_def)
  have f: "length (Payload exData3) \<le> unat (rcvWnd (tcb (conn exReceiver)))"
    by (simp add: exData3_def exReceiver_def)
  obtain s1 where s1: "handleConnStatus exEnv exData3 exReceiver = Some (None, s1)" "receiving exEnv s1"
    "rcv_contents (tcb (conn s1)) = [1, 2, 3]"
    using receive_data [OF exReceiver_ok(1) d a f] exReceiver_ok(2) by (auto simp: exData3_def)
  then obtain c where "ReadRecv 2 (conn s1) = Some ([1, 2], c)"
    using VRead_available [of "conn s1" 2] by (auto simp: receiving_def VRead_def bind_eq_Some_conv)
  then obtain c1 where r: "ReadRecv_request 2 (conn s1) = Some c1" "ReadRecv_reply (rcv_step c1) = Some ([1, 2], c)"
    by (auto simp: ReadRecv_def bind_eq_Some_conv)
  let ?s2 = "s1\<lparr>conn := c1\<rparr>"
  let ?s3 = "?s2\<lparr>conn := rcv_step (conn ?s2)\<rparr>"
  have "conn_run exEnv exReceiver ([] @ [Handled exData3]) s1"
    by (rule conn_run.more [OF conn_run.start conn_step.handled [OF s1(1)]])
  from conn_run.more [OF this conn_step.asked_read [OF r(1)]]
  have "conn_run exEnv exReceiver ([Handled exData3] @ [AskedRead 2]) ?s2" by simp
  from conn_run.more [OF this conn_step.read_move]
  have "conn_run exEnv exReceiver (([Handled exData3] @ [AskedRead 2]) @ [ReadMove]) ?s3" .
  moreover have "ReadRecv_reply (conn ?s3) = Some ([1, 2], c)" using r(2) by simp
  ultimately have "conn_run exEnv exReceiver ((([Handled exData3] @ [AskedRead 2]) @ [ReadMove]) @ [TookRead [1, 2]]) (?s3\<lparr>conn := c\<rparr>)"
    using conn_run.more conn_step.took_read by blast
  then show ?thesis by auto
qed



end
