(* ===== verification/Network.thy ===== *)
theory Network
  imports Rip
begin

text \<open>
  Routers that exchange RIP messages: any number of devices in a fixed topology, each step
  the delivery of one response over the wire, built and handled by the code.  The tables are
  compared with the distances in the topology; and a route that one router loses is followed
  to the next.
\<close>

section \<open>Topology and distance\<close>

text \<open>
  The neighbours of each router, the address of a router on its link with another
  (\<open>linkIp T x y\<close> is that of \<open>x\<close>), and the prefixes each router has at cost 0.
\<close>

record topology =
  nbrs :: "nat \<Rightarrow> nat list"
  linkIp :: "nat \<Rightarrow> nat \<Rightarrow> Addr"
  locals :: "nat \<Rightarrow> Prefix list"

definition topology_ok :: "topology \<Rightarrow> bool" where
  "topology_ok T \<longleftrightarrow> (\<forall>y. inj_on (\<lambda>x. linkIp T x y) (set (nbrs T y))) \<and>
     (\<forall>x y. x \<in> set (nbrs T y) \<longrightarrow> y \<in> set (nbrs T x))"

text \<open>A router that has the prefix is at most \<open>n\<close> links away; and exactly \<open>n\<close>.\<close>

fun reach :: "topology \<Rightarrow> nat \<Rightarrow> nat \<Rightarrow> Prefix \<Rightarrow> bool" where
  "reach T 0 r p \<longleftrightarrow> p \<in> set (locals T r)"
| "reach T (Suc n) r p \<longleftrightarrow> p \<in> set (locals T r) \<or> list_ex (\<lambda>x. reach T n x p) (nbrs T r)"

definition apart :: "topology \<Rightarrow> nat \<Rightarrow> nat \<Rightarrow> Prefix \<Rightarrow> bool" where
  "apart T n r p \<longleftrightarrow> reach T n r p \<and> list_all (\<lambda>k. \<not> reach T k r p) [0..<n]"

lemma reach_Suc: "reach T n r p \<Longrightarrow> reach T (Suc n) r p"
  by (induction n arbitrary: r) (auto simp: list_ex_iff)

lemma reach_mono: "m \<le> n \<Longrightarrow> reach T m r p \<Longrightarrow> reach T n r p"
  by (induction n rule: dec_induct) (assumption, rule reach_Suc)

lemma reach_nbr: "x \<in> set (nbrs T r) \<Longrightarrow> reach T n x p \<Longrightarrow> reach T (Suc n) r p"
  by (auto simp: list_ex_iff)

lemma apart_iff: "apart T n r p \<longleftrightarrow> reach T n r p \<and> (\<forall>k<n. \<not> reach T k r p)"
  by (auto simp: apart_def list_all_iff)

lemma apart_le: "apart T n r p \<Longrightarrow> reach T k r p \<Longrightarrow> n \<le> k"
  by (auto simp: apart_iff not_less [symmetric])

lemma apart_0: "apart T 0 r p \<longleftrightarrow> p \<in> set (locals T r)"
  by (simp add: apart_iff)

lemma apart_nbr_le: "apart T n r p \<Longrightarrow> x \<in> set (nbrs T r) \<Longrightarrow> reach T k x p \<Longrightarrow> n \<le> Suc k"
  by (rule apart_le [OF _ reach_nbr])

lemma apart_nbr:
  assumes "apart T (Suc n) r p" "x \<in> set (nbrs T r)" "reach T n x p"
  shows "apart T n x p"
  using assms apart_nbr_le [OF assms(1,2)] by (force simp: apart_iff)

lemma apart_SucE:
  assumes "apart T (Suc n) r p"
  obtains x where "x \<in> set (nbrs T r)" "apart T n x p"
proof -
  have "p \<notin> set (locals T r)" using assms by (auto simp: apart_iff dest: spec [of _ 0])
  with assms obtain x where "x \<in> set (nbrs T r)" "reach T n x p" by (auto simp: apart_iff list_ex_iff)
  with apart_nbr [OF assms] that show thesis by blast
qed

section \<open>Messages\<close>

text \<open>
  What a router may tell: entries of its table, as the broadcast and the answer to a request
  do with all of them and a triggered update with some; or the loss of a route.
\<close>

definition advert_of :: "RoutingTable \<Rightarrow> RoutingTable \<Rightarrow> bool" where
  "advert_of table t \<longleftrightarrow> wf_map t \<and> (\<forall>(p, hop) \<in> set t. ipv4_prefix p) \<and>
     (\<forall>p hop. mget t p = Some hop \<longrightarrow>
        mget table p = Some hop \<or> mget table p = None \<and> hopCost hop = INFINITY)"

text \<open>The response of \<open>x\<close> with the routes of \<open>t\<close> is built, sent to \<open>y\<close> and handled there.\<close>

definition delivers :: "topology \<Rightarrow> env \<Rightarrow> (nat \<Rightarrow> Device) \<Rightarrow> nat \<Rightarrow> nat \<Rightarrow> RoutingTable \<Rightarrow> (nat \<Rightarrow> Device) \<Rightarrow> bool" where
  "delivers T E N x y t N' \<longleftrightarrow> x \<in> set (nbrs T y) \<and> length t \<le> 64 \<and>
     (\<exists>m bytes sp packet d es. CreateRipPacket Response (linkIp T y x) t = Some (Inr m) \<and>
        Marshal (Some m) = Ok bytes \<and> Data packet = \<lparr>elems = bytes, spare = sp\<rparr> \<and>
        ipSrc (Header packet) = linkIp T x y \<and> RipHandler E (N y) packet = Some (d, es) \<and> N' = N(y := d))"

datatype exchange = Full nat nat | Partial nat nat

inductive net_step :: "topology \<Rightarrow> env \<Rightarrow> (nat \<Rightarrow> Device) \<Rightarrow> exchange \<Rightarrow> (nat \<Rightarrow> Device) \<Rightarrow> bool" for T E where
  full: "delivers T E N x y (Table (N x)) N' \<Longrightarrow> net_step T E N (Full x y) N'"
| partial: "advert_of (Table (N x)) t \<Longrightarrow> delivers T E N x y t N' \<Longrightarrow> net_step T E N (Partial x y) N'"

inductive net_run :: "topology \<Rightarrow> env \<Rightarrow> (nat \<Rightarrow> Device) \<Rightarrow> exchange list \<Rightarrow> (nat \<Rightarrow> Device) \<Rightarrow> bool" for T E where
  stop: "net_run T E N [] N"
| go: "net_step T E N e N1 \<Longrightarrow> net_run T E N1 es N2 \<Longrightarrow> net_run T E N (e # es) N2"

inductive_simps net_run_Nil [simp]: "net_run T E N [] N'"
inductive_simps net_run_Cons: "net_run T E N (e # es) N'"

lemma net_run_append: "net_run T E N (es @ es') N' \<longleftrightarrow> (\<exists>N1. net_run T E N es N1 \<and> net_run T E N1 es' N')"
  by (induction es arbitrary: N) (auto simp: net_run_Cons)

lemma advert_full: "good_table table \<Longrightarrow> advert_of table table"
  using good_table_keys [of table] by (simp add: advert_of_def good_table_def)

lemma delivers_entry:
  assumes "delivers T E N x y t N'" "advert_of table t" "good_table (Table (N y))"
  shows "x \<in> set (nbrs T y)" "z \<noteq> y \<Longrightarrow> N' z = N z" "good_table (Table (N' y))"
    "mget (Table (N' y)) p =
      (case mget t p of None \<Rightarrow> mget (Table (N y)) p
       | Some hop \<Rightarrow> rip_relax (linkIp T x y) (rip_cost (adv_cost (linkIp T y x) hop)) (mget (Table (N y)) p))"
proof -
  from assms(1) obtain m bytes sp packet d es where
    m: "CreateRipPacket Response (linkIp T y x) t = Some (Inr m)" "Marshal (Some m) = Ok bytes"
    and data: "Data packet = \<lparr>elems = bytes, spare = sp\<rparr>" and src: "ipSrc (Header packet) = linkIp T x y"
    and run: "RipHandler E (N y) packet = Some (d, es)" and N': "N' = N(y := d)"
    and x: "x \<in> set (nbrs T y)" and len: "length t \<le> 64"
    unfolding delivers_def by blast
  have t: "wf_map t" "\<forall>(p, hop) \<in> set t. ipv4_prefix p" using assms(2) by (simp_all add: advert_of_def)
  from advertise_message [OF t(2) len, of "linkIp T y x" sp] m data
  have parse: "ParseHeader (Some (Data packet)) = Ok m" "Command m = Response" and
    hosts: "map (\<lambda>r. (rip_key r, Cost r)) (Hosts m) = map (\<lambda>(p, hop). (p, adv_cost (linkIp T y x) hop)) t"
    by auto
  have table: "Table d = fold (rip_step (linkIp T x y)) (Hosts m) (Table (N y))"
    using RipHandler_table [OF run] by (simp add: parse src)
  show "x \<in> set (nbrs T y)" by (rule x)
  show "z \<noteq> y \<Longrightarrow> N' z = N z" by (simp add: N')
  show "good_table (Table (N' y))" using assms(3) by (simp add: N' table rip_fold_good)
  show "mget (Table (N' y)) p =
      (case mget t p of None \<Rightarrow> mget (Table (N y)) p
       | Some hop \<Rightarrow> rip_relax (linkIp T x y) (rip_cost (adv_cost (linkIp T y x) hop)) (mget (Table (N y)) p))"
    using exchange_entry [OF t hosts] by (simp add: N' table)
qed

text \<open>The triggered update of the handler is such a message: its entries are those that changed.\<close>

lemma triggered_wf: "wf_map tr \<Longrightarrow> wf_map (triggered_of src hosts table tr)"
proof (induction hosts arbitrary: table tr)
  case (Cons host hosts)
  have "wf_map (snd (rip_update src (rip_key host) (rip_cost (Cost host)) (table, tr)))"
    using Cons.prems by (simp add: rip_update_def Let_def split: option.split)
  with Cons.IH show ?case by simp
qed simp

lemma relax_new: "rip_relax src c cur = Some hop \<Longrightarrow> rip_relax src c cur \<noteq> cur \<Longrightarrow> hopAddr hop = src"
  by (auto simp: rip_relax_def split: if_splits option.splits)

lemma triggered_advert:
  assumes "distinct (map rip_key hosts)"
  shows "advert_of (fold (rip_step src) hosts table) (triggered_of src hosts table [])"
proof -
  let ?new = "fold (rip_step src) hosts table" and ?tr = "triggered_of src hosts table []"
  have changed: "hopAddr hop = src" if "mget ?new p = Some hop" "mget ?new p \<noteq> mget table p" for p hop
  proof -
    from that(2) have "p \<in> rip_key ` set hosts" by (metis rip.loop_untouched)
    then obtain host where "host \<in> set hosts" "rip_key host = p" by auto
    with rip.loop_distinct [OF assms, of host src table] that show ?thesis by (auto intro: relax_new)
  qed
  have "mget ?new p = Some hop \<or> mget ?new p = None \<and> hopCost hop = INFINITY" if "mget ?tr p = Some hop" for p hop
    using that triggered_exact [OF assms, of src table p] changed [of p]
    by (cases "mget ?new p") (auto simp: Let_def Hop_eq_iff split: if_splits)
  moreover have "\<forall>(p, hop) \<in> set ?tr. ipv4_prefix p"
    by (rule ipv4_keys, rule triggered_of_ipv4) simp_all
  ultimately show ?thesis by (simp add: advert_of_def triggered_wf)
qed

section \<open>No route is shorter than its distance\<close>

definition nbr_ips :: "topology \<Rightarrow> nat \<Rightarrow> Addr set" where
  "nbr_ips T r = (\<lambda>x. linkIp T x r) ` set (nbrs T r)"

text \<open>
  A route of cost 0 is that of a local prefix, to the router itself; any other goes to a
  neighbour that has the prefix in reach of one link less.  Every local prefix has its route.
\<close>

definition route_ok :: "topology \<Rightarrow> nat \<Rightarrow> Prefix \<Rightarrow> Hop \<Rightarrow> bool" where
  "route_ok T r p hop \<longleftrightarrow>
     (if hopCost hop = 0 then p \<in> set (locals T r) \<and> hopAddr hop \<notin> nbr_ips T r
      else \<exists>x \<in> set (nbrs T r). hopAddr hop = linkIp T x r \<and> reach T (unat (hopCost hop) - 1) x p)"

definition sound :: "topology \<Rightarrow> (nat \<Rightarrow> Device) \<Rightarrow> bool" where
  "sound T N \<longleftrightarrow> (\<forall>r. good_table (Table (N r)) \<and>
     (\<forall>p hop. mget (Table (N r)) p = Some hop \<longrightarrow> route_ok T r p hop) \<and>
     (\<forall>p \<in> set (locals T r). \<exists>hop. mget (Table (N r)) p = Some hop \<and> hopCost hop = 0))"

lemma soundD:
  assumes "sound T N"
  shows "good_table (Table (N r))" "mget (Table (N r)) p = Some hop \<Longrightarrow> route_ok T r p hop"
    "p \<in> set (locals T r) \<Longrightarrow> \<exists>hop. mget (Table (N r)) p = Some hop \<and> hopCost hop = 0"
  using assms by (auto simp: sound_def)

lemma route_reach:
  assumes "route_ok T r p hop"
  shows "reach T (unat (hopCost hop)) r p"
proof (cases "hopCost hop = 0")
  case True
  with assms show ?thesis by (simp add: route_ok_def)
next
  case False
  with assms obtain x where "x \<in> set (nbrs T r)" "reach T (unat (hopCost hop) - 1) x p"
    by (auto simp: route_ok_def)
  from reach_nbr [OF this] False show ?thesis by (simp add: unat_gt_0 Suc_pred unat_eq_0 del: reach.simps)
qed

text \<open>An offer below 16 is one more than the cost of a route that does not lead back.\<close>

lemma offer_below:
  assumes "rip_cost (adv_cost a hop) < INFINITY"
  shows "hopAddr hop \<noteq> a" "unat (hopCost hop) < 15" "unat (rip_cost (adv_cost a hop)) = Suc (unat (hopCost hop))"
proof -
  have c: "c < 15 \<and> unat (rip_cost c) = Suc (unat c)" if "rip_cost c < INFINITY" for c
  proof -
    from that have "c < INFINITY" and "c + 1 < INFINITY" by (auto simp: rip_cost_def split: if_splits)
    then have "unat c < 16" "unat (c + 1) < 16" by (simp_all add: INFINITY_def word_less_nat_alt)
    moreover have "unat (c + 1) = Suc (unat c)"
      using \<open>unat c < 16\<close> unat_add_of_nat [of c 1] by simp
    ultimately show ?thesis using \<open>c < INFINITY\<close> by (simp add: rip_cost_inc word_less_nat_alt)
  qed
  from assms show a: "hopAddr hop \<noteq> a" by (auto simp: adv_cost_def rip_cost_def INFINITY_def)
  from c [OF assms] a show "unat (hopCost hop) < 15" "unat (rip_cost (adv_cost a hop)) = Suc (unat (hopCost hop))"
    by (simp_all add: adv_cost_def word_less_nat_alt)
qed

lemma relax_route:
  assumes "rip_relax (linkIp T x y) (rip_cost (adv_cost a hop)) cur = Some hop'"
    and "x \<in> set (nbrs T y)" and "hopCost hop < INFINITY \<Longrightarrow> reach T (unat (hopCost hop)) x p"
    and "\<And>h. cur = Some h \<Longrightarrow> route_ok T y p h"
  shows "route_ok T y p hop'"
proof (cases "rip_cost (adv_cost a hop) < INFINITY \<and> hop' = \<lparr>hopAddr = linkIp T x y, hopCost = rip_cost (adv_cost a hop)\<rparr>")
  case True
  note o = offer_below [OF conjunct1 [OF True]]
  then have "hopCost hop < INFINITY" by (simp add: word_less_nat_alt INFINITY_def)
  with True o assms(2,3) show ?thesis by (auto simp: route_ok_def rip_cost_pos)
next
  case False
  with assms(1) have "cur = Some hop'"
    by (auto simp: rip_relax_def split: if_splits option.splits)
  with assms(4) show ?thesis by simp
qed

lemma relax_local:
  assumes "route_ok T y p h" "hopCost h = 0" "x \<in> set (nbrs T y)"
  shows "rip_relax (linkIp T x y) (rip_cost c) (Some h) = Some h"
  using assms by (intro rip_relax_local) (auto simp: route_ok_def nbr_ips_def)

text \<open>One delivery, seen from outside: only the receiver changes, by relaxation with the offers.\<close>

definition received :: "topology \<Rightarrow> (nat \<Rightarrow> Device) \<Rightarrow> nat \<Rightarrow> nat \<Rightarrow> RoutingTable \<Rightarrow> (nat \<Rightarrow> Device) \<Rightarrow> bool" where
  "received T N x y t N' \<longleftrightarrow> x \<in> set (nbrs T y) \<and> advert_of (Table (N x)) t \<and> (\<forall>z. z \<noteq> y \<longrightarrow> N' z = N z) \<and>
     good_table (Table (N' y)) \<and>
     (\<forall>p. mget (Table (N' y)) p =
        (case mget t p of None \<Rightarrow> mget (Table (N y)) p
         | Some hop \<Rightarrow> rip_relax (linkIp T x y) (rip_cost (adv_cost (linkIp T y x) hop)) (mget (Table (N y)) p)))"

lemma receivedD:
  assumes "received T N x y t N'"
  shows "x \<in> set (nbrs T y)" "z \<noteq> y \<Longrightarrow> N' z = N z" "good_table (Table (N' y))"
    "mget (Table (N' y)) p =
      (case mget t p of None \<Rightarrow> mget (Table (N y)) p
       | Some hop \<Rightarrow> rip_relax (linkIp T x y) (rip_cost (adv_cost (linkIp T y x) hop)) (mget (Table (N y)) p))"
    "mget t p = Some hop \<Longrightarrow> hopCost hop < INFINITY \<Longrightarrow> mget (Table (N x)) p = Some hop"
    "mget t p = Some hop \<Longrightarrow> mget (Table (N x)) p = Some h \<Longrightarrow> hop = h"
proof -
  have t: "mget t p = Some hop \<longrightarrow> mget (Table (N x)) p = Some hop \<or> mget (Table (N x)) p = None \<and> hopCost hop = INFINITY"
    using assms unfolding received_def advert_of_def by blast
  then show "mget t p = Some hop \<Longrightarrow> hopCost hop < INFINITY \<Longrightarrow> mget (Table (N x)) p = Some hop"
    "mget t p = Some hop \<Longrightarrow> mget (Table (N x)) p = Some h \<Longrightarrow> hop = h" by auto
qed (use assms in \<open>simp_all add: received_def\<close>)

lemma net_step_cases:
  assumes "net_step T E N e N'" "sound T N"
  obtains x y t where "e = Full x y \<and> t = Table (N x) \<or> e = Partial x y" "received T N x y t N'"
  using assms(1)
proof cases
  case (full x y)
  note a = advert_full [OF soundD(1) [OF assms(2)]]
  have "received T N x y (Table (N x)) N'"
    using delivers_entry [OF full(2) a soundD(1) [OF assms(2)]] a by (simp add: received_def)
  with full(1) that show thesis by blast
next
  case (partial x t y)
  have "received T N x y t N'"
    using delivers_entry [OF partial(3,2) soundD(1) [OF assms(2)]] partial(2) by (simp add: received_def)
  with partial(1) that show thesis by blast
qed

lemma step_sound:
  assumes "net_step T E N e N'" "sound T N"
  shows "sound T N'"
proof -
  obtain x y t where r: "received T N x y t N'" by (rule net_step_cases [OF assms])
  note x = receivedD(1) [OF r] and same = receivedD(2) [OF r] and good = receivedD(3) [OF r] and entry = receivedD(4) [OF r]
  have offer: "reach T (unat (hopCost hop)) x p" if "mget t p = Some hop" "hopCost hop < INFINITY" for p hop
    by (rule route_reach [OF soundD(2) [OF assms(2) receivedD(5) [OF r that]]])
  have "route_ok T y p hop'" if e: "mget (Table (N' y)) p = Some hop'" for p hop'
  proof (cases "mget t p")
    case None
    with e entry soundD(2) [OF assms(2)] show ?thesis by simp
  next
    case (Some hop)
    with e entry have "rip_relax (linkIp T x y) (rip_cost (adv_cost (linkIp T y x) hop)) (mget (Table (N y)) p) = Some hop'"
      by simp
    from relax_route [OF this x offer [OF Some] soundD(2) [OF assms(2)]] show ?thesis .
  qed
  moreover have "\<exists>hop. mget (Table (N' y)) p = Some hop \<and> hopCost hop = 0" if p: "p \<in> set (locals T y)" for p
  proof -
    obtain h where h: "mget (Table (N y)) p = Some h" "hopCost h = 0" using soundD(3) [OF assms(2) p] by blast
    with relax_local [OF soundD(2) [OF assms(2) h(1)] h(2) x] entry [of p]
    have "mget (Table (N' y)) p = Some h" by (simp split: option.split)
    with h(2) show ?thesis by blast
  qed
  moreover have "N' r = N r \<or> r = y" for r using same by blast
  ultimately show ?thesis using good assms(2) unfolding sound_def by metis
qed

lemma run_sound: "net_run T E N es N' \<Longrightarrow> sound T N \<Longrightarrow> sound T N'"
  by (induction rule: net_run.induct) (auto intro: step_sound)

section \<open>Exact routes stay, and spread\<close>

definition exact :: "(nat \<Rightarrow> Device) \<Rightarrow> nat \<Rightarrow> nat \<Rightarrow> Prefix \<Rightarrow> bool" where
  "exact N n r p \<longleftrightarrow> (\<exists>hop. mget (Table (N r)) p = Some hop \<and> unat (hopCost hop) = n)"

text \<open>Every prefix at most \<open>n\<close> links away is known at its distance.\<close>

definition settled :: "topology \<Rightarrow> nat \<Rightarrow> (nat \<Rightarrow> Device) \<Rightarrow> bool" where
  "settled T n N \<longleftrightarrow> (\<forall>r p m. m \<le> n \<longrightarrow> m < 16 \<longrightarrow> apart T m r p \<longrightarrow> exact N m r p)"

lemma settledE:
  assumes "settled T n N" "m \<le> n" "m < 16" "apart T m r p"
  obtains hop where "mget (Table (N r)) p = Some hop" "unat (hopCost hop) = m"
  using assms unfolding settled_def exact_def by blast

lemma settled_0: "sound T N \<Longrightarrow> settled T 0 N"
  using soundD(3) [of T N] by (fastforce simp: settled_def exact_def apart_0)

lemma exact_next_hop:
  assumes "sound T N" "apart T (Suc k) y p" "mget (Table (N y)) p = Some h" "unat (hopCost h) = Suc k"
  obtains z where "z \<in> set (nbrs T y)" "hopAddr h = linkIp T z y" "apart T k z p"
proof -
  from assms(4) have "hopCost h \<noteq> 0" by auto
  with soundD(2) [OF assms(1,3)] assms(4) obtain z where
    "z \<in> set (nbrs T y)" "hopAddr h = linkIp T z y" "reach T k z p"
    by (auto simp: route_ok_def)
  with apart_nbr [OF assms(2)] that show thesis by blast
qed

text \<open>A router on a shortest path offers its route at its cost: the route does not lead back.\<close>

lemma exact_offer:
  assumes "topology_ok T" "sound T N" "apart T (Suc k) y p" "x \<in> set (nbrs T y)" "Suc k < 16"
    and "mget (Table (N x)) p = Some h" "unat (hopCost h) = k"
  shows "rip_cost (adv_cost (linkIp T y x) h) < INFINITY" "unat (rip_cost (adv_cost (linkIp T y x) h)) = Suc k"
proof -
  have y: "y \<in> set (nbrs T x)" and inj: "inj_on (\<lambda>z. linkIp T z x) (set (nbrs T x))"
    using assms(1,4) by (auto simp: topology_ok_def)
  have "hopAddr h \<noteq> linkIp T y x"
  proof (cases "hopCost h = 0")
    case True
    with soundD(2) [OF assms(2,6)] y show ?thesis by (auto simp: route_ok_def nbr_ips_def)
  next
    case False
    with soundD(2) [OF assms(2,6)] assms(7) obtain z where
      z: "z \<in> set (nbrs T x)" "hopAddr h = linkIp T z x" "reach T (k - 1) z p"
      by (auto simp: route_ok_def)
    have "\<not> reach T (k - 1) y p" using assms(3) by (simp add: apart_iff)
    with z have "z \<noteq> y" by auto
    with inj y z show ?thesis by (auto dest: inj_onD)
  qed
  then have "rip_cost (adv_cost (linkIp T y x) h) = hopCost h + 1" and c: "hopCost h < 15"
    using assms(5,7) by (simp_all add: adv_cost_def rip_cost_def INFINITY_def word_less_nat_alt)
  moreover have "unat (hopCost h + 1) = Suc k"
    using assms(5,7) unat_add_of_nat [of "hopCost h" 1] by simp
  ultimately show "rip_cost (adv_cost (linkIp T y x) h) < INFINITY" "unat (rip_cost (adv_cost (linkIp T y x) h)) = Suc k"
    using assms(5) by (simp_all add: INFINITY_def word_less_nat_alt)
qed

text \<open>An offer never goes below the distance, so an exact route is only touched by its own next hop.\<close>

lemma exact_relax:
  assumes "sound T N" "apart T m y p" "received T N x y t N'" "mget t p = Some hop"
    and "unat (hopCost h) = m" "hopAddr h \<noteq> linkIp T x y"
  shows "rip_relax (linkIp T x y) (rip_cost (adv_cost a hop)) (Some h) = Some h"
proof -
  have "\<not> rip_cost (adv_cost a hop) < hopCost h" if c: "rip_cost (adv_cost a hop) < INFINITY"
  proof -
    note o = offer_below [OF c]
    then have "hopCost hop < INFINITY" by (simp add: word_less_nat_alt INFINITY_def)
    note hop = receivedD(5) [OF assms(3,4) this]
    from apart_nbr_le [OF assms(2) receivedD(1) [OF assms(3)] route_reach [OF soundD(2) [OF assms(1) hop]]] o(3) assms(5)
    show ?thesis by (simp add: word_less_nat_alt)
  qed
  with assms(6) show ?thesis by (auto simp: rip_relax_def)
qed

lemma exact_stable:
  assumes "topology_ok T" "sound T N" "net_step T E N e N'" "apart T m r p" "m < 16" "exact N m r p"
    and settled: "\<And>k z. m = Suc k \<Longrightarrow> apart T k z p \<Longrightarrow> exact N k z p"
  shows "exact N' m r p"
proof -
  obtain x y t where rc: "received T N x y t N'" by (rule net_step_cases [OF assms(3,2)])
  note x = receivedD(1) [OF rc] and same = receivedD(2) [OF rc] and entry = receivedD(4) [OF rc]
  from assms(6) obtain h where h: "mget (Table (N r)) p = Some h" "unat (hopCost h) = m" by (auto simp: exact_def)
  have keep: "rip_relax (linkIp T x y) (rip_cost (adv_cost (linkIp T y x) hop)) (Some h) = Some h"
    if r: "r = y" and hop: "mget t p = Some hop" for hop
  proof (cases m)
    case 0
    with h relax_local [OF soundD(2) [OF assms(2), of y p h] _ x] r show ?thesis by (simp add: unat_eq_0)
  next
    case (Suc k)
    obtain z where z: "z \<in> set (nbrs T y)" "hopAddr h = linkIp T z y" "apart T k z p"
      using exact_next_hop [OF assms(2), of k y p h] assms(4) h r Suc by auto
    show ?thesis
    proof (cases "z = x")
      case True
      with settled [OF Suc z(3)] obtain h' where h': "mget (Table (N x)) p = Some h'" "unat (hopCost h') = k"
        by (auto simp: exact_def)
      with receivedD(6) [OF rc hop] have "hop = h'" by blast
      have ap: "apart T (Suc k) y p" and lt: "Suc k < 16" using assms(4,5) r Suc by auto
      note o = exact_offer [OF assms(1,2) ap x lt h']
      have "rip_cost (adv_cost (linkIp T y x) h') = hopCost h"
        using o(2) h(2) Suc by (simp add: word_unat_eq_iff)
      with o(1) \<open>hop = h'\<close> show ?thesis by (simp add: rip_relax_def)
    next
      case False
      have "inj_on (\<lambda>x. linkIp T x y) (set (nbrs T y))" using assms(1) by (simp add: topology_ok_def)
      with False x z have "hopAddr h \<noteq> linkIp T x y" by (auto dest: inj_onD)
      with exact_relax [OF assms(2) _ rc hop h(2)] assms(4) r show ?thesis by simp
    qed
  qed
  show ?thesis
  proof (cases "r = y")
    case True
    with keep entry h show ?thesis by (cases "mget t p") (auto simp: exact_def)
  next
    case False
    with same assms(6) show ?thesis by (simp add: exact_def)
  qed
qed

lemma exact_spreads:
  assumes "topology_ok T" "sound T N" "net_step T E N (Full x y) N'" "apart T (Suc k) y p" "apart T k x p"
    and "Suc k < 16" "exact N k x p"
  shows "exact N' (Suc k) y p"
proof -
  obtain x' y' t where "Full x y = Full x' y' \<and> t = Table (N x') \<or> Full x y = Partial x' y'" "received T N x' y' t N'"
    by (rule net_step_cases [OF assms(3,2)])
  then have rc: "received T N x y (Table (N x)) N'" by auto
  note x = receivedD(1) [OF rc]
  from assms(7) obtain h where h: "mget (Table (N x)) p = Some h" "unat (hopCost h) = k" by (auto simp: exact_def)
  let ?c = "rip_cost (adv_cost (linkIp T y x) h)"
  note o = exact_offer [OF assms(1,2,4) x assms(6) h]
  have e: "mget (Table (N' y)) p = rip_relax (linkIp T x y) ?c (mget (Table (N y)) p)"
    using receivedD(4) [OF rc, of p] h(1) by simp
  show ?thesis
  proof (cases "mget (Table (N y)) p")
    case None
    with e o show ?thesis by (simp add: exact_def rip_relax_def)
  next
    case (Some g)
    have "Suc k \<le> unat (hopCost g)"
      using apart_le [OF assms(4) route_reach [OF soundD(2) [OF assms(2) Some]]] .
    with o(2) have "\<not> hopCost g < ?c" by (simp add: word_less_nat_alt)
    with Some e o show ?thesis
      by (auto simp: exact_def rip_relax_def word_less_nat_alt not_less split: if_splits)
  qed
qed

section \<open>Convergence\<close>

lemma settled_stable:
  assumes "topology_ok T" "sound T N" "net_step T E N e N'" "settled T n N"
  shows "settled T n N'"
  unfolding settled_def
proof (intro allI impI)
  fix r p m assume m: "m \<le> n" "m < 16" "apart T m r p"
  have "exact N m r p" using assms(4) m by (simp add: settled_def)
  then show "exact N' m r p"
    by (rule exact_stable [OF assms(1-3) m(3,2)]) (use assms(4) m in \<open>auto simp: settled_def\<close>)
qed

lemma exact_run:
  "net_run T E N es N' \<Longrightarrow> topology_ok T \<Longrightarrow> sound T N \<Longrightarrow> settled T n N \<Longrightarrow> apart T (Suc n) y p \<Longrightarrow> Suc n < 16 \<Longrightarrow>
   exact N (Suc n) y p \<Longrightarrow> exact N' (Suc n) y p"
proof (induction rule: net_run.induct)
  case (go N e N1 es N2)
  have "exact N1 (Suc n) y p"
    by (rule exact_stable [OF go(4,5,1,7,8,9)]) (use go(6,8) in \<open>auto simp: settled_def\<close>)
  with go step_sound settled_stable show ?case by blast
qed

lemma settled_run: "net_run T E N es N' \<Longrightarrow> topology_ok T \<Longrightarrow> sound T N \<Longrightarrow> settled T n N \<Longrightarrow> settled T n N'"
  by (induction rule: net_run.induct) (auto intro: settled_stable step_sound)

text \<open>A round is a sequence in which every router tells each neighbour its whole table.\<close>

definition full_round :: "topology \<Rightarrow> exchange list \<Rightarrow> bool" where
  "full_round T es \<longleftrightarrow> (\<forall>y. \<forall>x \<in> set (nbrs T y). Full x y \<in> set es)"

lemma round_settles:
  assumes "topology_ok T" "sound T N" "net_run T E N es N'" "settled T n N" "full_round T es"
  shows "settled T (Suc n) N'"
  unfolding settled_def
proof (intro allI impI)
  fix y p m assume m: "m \<le> Suc n" "m < 16" "apart T m y p"
  show "exact N' m y p"
  proof (cases "m = Suc n")
    case False
    with m settled_run [OF assms(3,1,2,4)] show ?thesis by (simp add: settled_def)
  next
    case True
    with m(3) obtain x where x: "x \<in> set (nbrs T y)" "apart T n x p" by (auto elim: apart_SucE)
    with assms(5) have "Full x y \<in> set es" by (simp add: full_round_def)
    then obtain es1 es2 where es: "es = es1 @ Full x y # es2" by (auto dest: split_list)
    with assms(3) obtain N1 N2 where run: "net_run T E N es1 N1" "net_step T E N1 (Full x y) N2" "net_run T E N2 es2 N'"
      by (auto simp: net_run_append net_run_Cons)
    note s1 = run_sound [OF run(1) assms(2)] and t1 = settled_run [OF run(1) assms(1,2,4)]
    have m': "apart T (Suc n) y p" "Suc n < 16" using m(2,3) True by simp_all
    have "exact N1 n x p" using t1 x(2) m(2) True by (simp add: settled_def)
    note e2 = exact_spreads [OF assms(1) s1 run(2) m'(1) x(2) m'(2) this]
    from exact_run [OF run(3) assms(1) step_sound [OF run(2) s1] settled_stable [OF assms(1) s1 run(2) t1] m' e2] True
    show ?thesis by simp
  qed
qed

lemma rounds_settle:
  "net_run T E N (concat rounds) N' \<Longrightarrow> topology_ok T \<Longrightarrow> sound T N \<Longrightarrow> settled T n N \<Longrightarrow>
   \<forall>es \<in> set rounds. full_round T es \<Longrightarrow> settled T (n + length rounds) N'"
proof (induction rounds arbitrary: N n)
  case (Cons es rounds)
  then obtain N1 where run: "net_run T E N es N1" "net_run T E N1 (concat rounds) N'"
    by (auto simp: net_run_append)
  from Cons.prems(5) have es: "full_round T es" "\<forall>es \<in> set rounds. full_round T es" by simp_all
  from Cons.IH [OF run(2) Cons.prems(2) run_sound [OF run(1) Cons.prems(3)]
      round_settles [OF Cons.prems(2,3) run(1) Cons.prems(4) es(1)] es(2)]
  show ?case by simp
qed simp

text \<open>The start: a table of local prefixes only, each with the router's own address.\<close>

definition fresh_net :: "topology \<Rightarrow> (nat \<Rightarrow> Device) \<Rightarrow> bool" where
  "fresh_net T N \<longleftrightarrow> (\<forall>r. good_table (Table (N r)) \<and>
     (\<forall>p hop. mget (Table (N r)) p = Some hop \<longrightarrow>
        p \<in> set (locals T r) \<and> hopCost hop = 0 \<and> hopAddr hop \<notin> nbr_ips T r) \<and>
     (\<forall>p \<in> set (locals T r). mget (Table (N r)) p \<noteq> None))"

lemma fresh_sound: "fresh_net T N \<Longrightarrow> sound T N"
  unfolding fresh_net_def sound_def route_ok_def by (metis option.exhaust)

text \<open>The rounds can be carried out as long as no table outgrows a message.\<close>

lemma sound_length:
  assumes "sound T N" "\<forall>r. set (locals T r) \<subseteq> P" "finite P"
  shows "length (Table (N r)) \<le> card P"
proof -
  have in_P: "reach T n r p \<Longrightarrow> p \<in> P" for n r p
    using assms(2) by (induction n arbitrary: r) (auto simp: list_ex_iff)
  have "fst ` set (Table (N r)) \<subseteq> P"
  proof
    fix p assume "p \<in> fst ` set (Table (N r))"
    then obtain hop where "mget (Table (N r)) p = Some hop" unfolding keys_eq_dom by auto
    then show "p \<in> P" by (rule in_P [OF route_reach [OF soundD(2) [OF assms(1)]]])
  qed
  moreover have "distinct (map fst (Table (N r)))"
    using soundD(1) [OF assms(1)] by (simp add: good_table_def wf_map_def)
  then have "length (Table (N r)) = card (fst ` set (Table (N r)))"
    using distinct_card [of "map fst (Table (N r))"] by simp
  ultimately show ?thesis using card_mono [OF assms(3)] by simp
qed

lemma full_possible:
  assumes "env_total E" "\<forall>r. device_ok (N r)" "sound T N" "x \<in> set (nbrs T y)" "length (Table (N x)) \<le> 64"
  shows "\<exists>N'. net_step T E N (Full x y) N' \<and> (\<forall>r. device_ok (N' r))"
proof -
  from advertise_message [OF good_table_keys [OF soundD(1) [OF assms(3)]] assms(5), of "linkIp T y x" "[]"]
  obtain m bytes where m: "CreateRipPacket Response (linkIp T y x) (Table (N x)) = Some (Inr m)"
    "Marshal (Some m) = Ok bytes" "ParseHeader (Some \<lparr>elems = bytes, spare = []\<rparr>) = Ok m" by blast
  let ?p = "exRipPacket (linkIp T x y) bytes"
  have data: "Data ?p = \<lparr>elems = bytes, spare = []\<rparr>" "ipSrc (Header ?p) = linkIp T x y"
    by (simp_all add: exRipPacket_def slice_of_def)
  obtain d es where r: "RipHandler E (N y) ?p = Some (d, es)"
    using RipHandler_total [OF assms(1) _ soundD(1) [OF assms(3)], of y ?p] assms(2) m(3) data(1) by auto
  then have "delivers T E N x y (Table (N x)) (N(y := d))"
    unfolding delivers_def using assms(4,5) m(1,2) data by blast
  moreover have "device_ok d" using RipHandler_frame [OF r] assms(2) by (simp add: device_ok_def)
  ultimately show ?thesis using net_step.full assms(2) by (metis fun_upd_apply)
qed

lemma run_possible:
  assumes "env_total E" "\<forall>r. set (locals T r) \<subseteq> P" "finite P" "card P \<le> 64"
  shows "\<forall>r. device_ok (N r) \<Longrightarrow> sound T N \<Longrightarrow> \<forall>e \<in> set es. \<exists>x y. e = Full x y \<and> x \<in> set (nbrs T y) \<Longrightarrow>
    \<exists>N'. net_run T E N es N'"
proof (induction es arbitrary: N)
  case (Cons e es)
  then obtain x y where e: "e = Full x y" "x \<in> set (nbrs T y)" by auto
  have "length (Table (N x)) \<le> 64"
    using sound_length [OF Cons.prems(2) assms(2,3)] assms(4) by (rule order_trans)
  from full_possible [OF assms(1) Cons.prems(1,2) e(2) this] obtain N1 where
    N1: "net_step T E N e N1" "\<forall>r. device_ok (N1 r)" unfolding e(1) by blast
  with Cons.IH [OF N1(2) step_sound [OF N1(1) Cons.prems(2)]] Cons.prems(3) show ?case
    by (auto intro: net_run.go)
qed (auto intro: net_run.stop)

text \<open>
  C1: RIP finds the shortest routes, in any network of these routers.  Start with local
  routes only, and let the routers deliver responses to each other in any order: broadcasts,
  triggered updates, withdrawals.  No table ever holds a route that is shorter than its
  distance.  After \<open>k\<close> rounds, in each of which every router has told every neighbour its
  table, each prefix that is \<open>n \<le> k\<close> links away (15 at most) has a route at cost exactly
  \<open>n\<close>, whose next hop is a neighbour one link closer, so packets for it do not loop.
\<close>

theorem rip_converges:
  assumes "topology_ok T" and "fresh_net T N" and "net_run T E N (concat rounds) N'"
    and "\<forall>es \<in> set rounds. full_round T es"
  shows "(\<forall>r p hop. mget (Table (N' r)) p = Some hop \<longrightarrow> reach T (unat (hopCost hop)) r p) \<and>
    (\<forall>r p n. n \<le> length rounds \<and> n < 16 \<and> apart T n r p \<longrightarrow>
       (\<exists>hop. mget (Table (N' r)) p = Some hop \<and> unat (hopCost hop) = n \<and>
          (0 < n \<longrightarrow> (\<exists>x \<in> set (nbrs T r). hopAddr hop = linkIp T x r \<and> apart T (n - 1) x p))))"
proof -
  have start: "sound T N" by (rule fresh_sound [OF assms(2)])
  have ok: "sound T N'" and ready: "settled T (length rounds) N'"
    using run_sound [OF assms(3) start] rounds_settle [OF assms(3,1) start settled_0 [OF start] assms(4)] by simp_all
  have "\<exists>hop. mget (Table (N' r)) p = Some hop \<and> unat (hopCost hop) = n \<and>
      (0 < n \<longrightarrow> (\<exists>x \<in> set (nbrs T r). hopAddr hop = linkIp T x r \<and> apart T (n - 1) x p))"
    if n: "n \<le> length rounds" "n < 16" "apart T n r p" for r p n
  proof -
    obtain hop where hop: "mget (Table (N' r)) p = Some hop" "unat (hopCost hop) = n"
      using ready n by (rule settledE)
    have "\<exists>x \<in> set (nbrs T r). hopAddr hop = linkIp T x r \<and> apart T (n - 1) x p" if pos: "0 < n"
    proof -
      obtain k where k: "n = Suc k" using pos by (cases n) auto
      with exact_next_hop [OF ok _ hop(1), of k] n(3) hop(2) show ?thesis by auto
    qed
    with hop show ?thesis by (intro exI [of _ hop]) simp
  qed
  then show ?thesis using route_reach soundD(2) [OF ok] by blast
qed

text \<open>Three routers in a line: after two rounds the ends know each other's prefix.\<close>

definition exPrefix :: "nat \<Rightarrow> Prefix" where
  "exPrefix r = (if r = 0 then pfx4 0x0A000000 24 else if r = 1 then pfx4 0x0A010000 24 else pfx4 0x0A020000 24)"

definition exLine :: topology where
  "exLine =
     \<lparr>nbrs = (\<lambda>r. if r = 0 then [1] else if r = 1 then [0, 2] else if r = 2 then [1] else []),
      linkIp = (\<lambda>x y. V4 (if x = 0 then 1 else if x = 1 then 2 else 3)),
      locals = (\<lambda>r. if r < 3 then [exPrefix r] else [])\<rparr>"

definition exNet :: "nat \<Rightarrow> Device" where
  "exNet r = exDevice\<lparr>Table := (if r < 3 then [(exPrefix r, \<lparr>hopAddr = V4 100, hopCost = 0\<rparr>)] else [])\<rparr>"

definition exTell :: "exchange list" where
  "exTell = [Full 0 1, Full 1 0, Full 1 2, Full 2 1]"

lemma exLine_ok: "topology_ok exLine" "fresh_net exLine exNet" "full_round exLine exTell"
  by (auto simp: topology_ok_def exLine_def inj_on_def fresh_net_def exNet_def good_table_def wf_map_def
      ipv4_prefix_def exPrefix_def pfx4_def INFINITY_def nbr_ips_def full_round_def exTell_def split: if_splits)

lemma exNet_run: "\<exists>N'. net_run exLine exEnv exNet (concat [exTell, exTell]) N'"
proof (rule run_possible [of exEnv exLine "exPrefix ` {..<3}"])
  show "env_total exEnv" by (rule exDevice_ok)
  show "\<forall>r. set (locals exLine r) \<subseteq> exPrefix ` {..<3}"
    by (auto simp: exLine_def)
  show "card (exPrefix ` {..<3}) \<le> 64"
    using card_image_le [of "{..<3 :: nat}" exPrefix] by simp
  show "\<forall>r. device_ok (exNet r)" using exDevice_ok(2) by (simp add: exNet_def)
  show "sound exLine exNet" by (rule fresh_sound [OF exLine_ok(2)])
qed (auto simp: exTell_def exLine_def)

lemma exApart: "apart exLine 2 2 (exPrefix 0)"
proof -
  have ne: "exPrefix 0 \<noteq> exPrefix 1" "exPrefix 0 \<noteq> exPrefix 2" by (simp_all add: exPrefix_def pfx4_def)
  have "reach exLine (Suc (Suc 0)) 2 (exPrefix 0)" by (simp add: exLine_def)
  moreover have "\<not> reach exLine 0 2 (exPrefix 0)" "\<not> reach exLine (Suc 0) 2 (exPrefix 0)"
    using ne by (simp_all add: exLine_def)
  ultimately show ?thesis by (auto simp: apart_iff numeral_2_eq_2 less_Suc_eq simp del: reach.simps)
qed

theorem rip_converges_witness:
  "\<exists>N' hop. net_run exLine exEnv exNet (concat [exTell, exTell]) N' \<and>
     mget (Table (N' 2)) (exPrefix 0) = Some hop \<and> unat (hopCost hop) = 2 \<and> hopAddr hop = V4 2"
proof -
  obtain N' where r: "net_run exLine exEnv exNet (concat [exTell, exTell]) N'" using exNet_run by blast
  have "\<forall>es \<in> set [exTell, exTell]. full_round exLine es" using exLine_ok(3) by simp
  from conjunct2 [OF rip_converges [OF exLine_ok(1,2) r this], rule_format, of 2 2 "exPrefix 0"] exApart
  obtain hop x where "mget (Table (N' 2)) (exPrefix 0) = Some hop" "unat (hopCost hop) = 2"
    "x \<in> set (nbrs exLine 2)" "hopAddr hop = linkIp exLine x 2" by auto
  with r show ?thesis by (auto simp: exLine_def)
qed

section \<open>A lost neighbour is withdrawn from the next router\<close>

lemma relax_withdrawn:
  assumes "hopCost hop = INFINITY" "hopAddr hopB = src" "0 < hopCost hopB"
  shows "rip_relax src (rip_cost (adv_cost a hop)) (Some hopB) = None"
  using assms by (simp add: rip_relax_def adv_cost_def rip_cost_def)

text \<open>The table as the router tells it when it has given up \<open>ip\<close>.\<close>

definition told :: "Addr \<Rightarrow> RoutingTable \<Rightarrow> RoutingTable" where
  "told ip table = map (\<lambda>(p, hop). (p, if hopAddr hop = ip then hop\<lparr>hopCost := INFINITY\<rparr> else hop)) table"

lemma told_facts:
  assumes "good_table table" "length table \<le> 64"
  shows "wf_map (told ip table)" "\<forall>(p, hop) \<in> set (told ip table). ipv4_prefix p" "length (told ip table) \<le> 64"
    "mget table p = Some hop \<Longrightarrow> hopAddr hop = ip \<Longrightarrow> mget (told ip table) p = Some (hop\<lparr>hopCost := INFINITY\<rparr>)"
proof -
  have "map fst (told ip table) = map fst table" by (induction table) (auto simp: told_def)
  then show "wf_map (told ip table)" using assms(1) by (simp add: good_table_def wf_map_def)
  show "\<forall>(p, hop) \<in> set (told ip table). ipv4_prefix p" using good_table_keys [OF assms(1)] by (auto simp: told_def)
qed (use assms(2) in \<open>simp_all add: told_def map_of_map\<close>)

text \<open>
  C8: a route that is lost is lost downstream too.  When a router gives a neighbour up, it
  tells all its others; and each of them that handles the message deletes its route for a
  prefix that the router reached over the lost neighbour, if that route goes to the router.
  One for such a prefix that goes elsewhere stays.
\<close>

theorem loss_propagates:
  assumes "good_table (Table d)" and "length (Table d) \<le> 64" and "distinct (RipNeighbors d)"
    and "ip \<in> set (RipNeighbors d)" and "timeout_expire E d ip = Some (d', es)"
  shows "set (RipNeighbors d') = set (RipNeighbors d) - {ip} \<and>
    send_rip_all E d' Response (RipNeighbors d') (told ip (Table d)) = Some es \<and>
    (\<forall>addrB m bytes sp packet addrA F dB dB' fs.
       CreateRipPacket Response addrB (told ip (Table d)) = Some (Inr m) \<and> Marshal (Some m) = Ok bytes \<and>
       Data packet = \<lparr>elems = bytes, spare = sp\<rparr> \<and> ipSrc (Header packet) = addrA \<and>
       RipHandler F dB packet = Some (dB', fs) \<longrightarrow>
       (\<forall>p hop hopB. mget (Table d) p = Some hop \<and> mget (Table dB) p = Some hopB \<and> hopAddr hop = ip \<longrightarrow>
          mget (Table dB') p = (if hopAddr hopB = addrA \<and> 0 < hopCost hopB then None else Some hopB)))"
proof -
  note t = told_facts [OF assms(1,2)]
  have wf: "wf_map (Table d)" using assms(1) by (simp add: good_table_def)
  obtain neis del table where d': "d' = d\<lparr>RipNeighbors := neis, ripChannels := mdel ip (ripChannels d),
      Table := fold mdel del (Table d)\<rparr>" and n: "set neis = set (RipNeighbors d) - {ip}" and "distinct neis"
    and "\<forall>p. mget (fold mdel del (Table d)) p =
      (case mget (Table d) p of None \<Rightarrow> None | Some hop \<Rightarrow> if hopAddr hop = ip then None else Some hop)"
    and table: "table = map (\<lambda>(p, hop). (p, if hopAddr hop = ip then hop\<lparr>hopCost := INFINITY\<rparr> else hop)) (Table d)"
    and "send_rip_all E d' Response neis table = Some es"
    by (rule timeout_expire_state [OF wf assms(3-5)]) (rule that; assumption)
  then have sent: "send_rip_all E d' Response neis (told ip (Table d)) = Some es" by (simp add: told_def)
  have downstream: "mget (Table dB') p = (if hopAddr hopB = addrA \<and> 0 < hopCost hopB then None else Some hopB)"
    if m: "CreateRipPacket Response addrB (told ip (Table d)) = Some (Inr m)" "Marshal (Some m) = Ok bytes"
      "Data packet = \<lparr>elems = bytes, spare = sp\<rparr>" "ipSrc (Header packet) = addrA"
      and run: "RipHandler F dB packet = Some (dB', fs)"
      and hop: "mget (Table d) p = Some hop" "mget (Table dB) p = Some hopB" "hopAddr hop = ip"
    for addrB m bytes sp packet addrA F dB dB' fs p hop hopB
  proof -
    from advertise_message [OF t(2,3), of addrB ip sp] m(1-3)
    have parse: "ParseHeader (Some (Data packet)) = Ok m" "Command m = Response" and
      hosts: "map (\<lambda>r. (rip_key r, Cost r)) (Hosts m) = map (\<lambda>(p, hop). (p, adv_cost addrB hop)) (told ip (Table d))"
      by auto
    have "mget (Table dB') p = rip_relax addrA (rip_cost (adv_cost addrB (hop\<lparr>hopCost := INFINITY\<rparr>))) (Some hopB)"
      using RipHandler_table [OF run] exchange_entry [OF t(1,2) hosts, of addrA "Table dB" p]
      by (simp add: parse m(4) t(4) [OF hop(1,3)] hop(2))
    then show ?thesis
      by (simp add: rip_relax_def adv_cost_def rip_cost_def)
  qed
  have "RipNeighbors d' = neis" by (simp add: d')
  with n sent show ?thesis
    by (intro conjI allI impI; (elim conjE)?) (simp, simp, (rule downstream; assumption))
qed

text \<open>The middle router of a line gives its neighbour up, and an end router forgets the route over it.\<close>

definition exMiddle :: Device where
  "exMiddle = exDevice\<lparr>Table := [(exPrefix 0, \<lparr>hopAddr = V4 0x0A0A0102, hopCost = 1\<rparr>)]\<rparr>"

definition exEnd :: Device where
  "exEnd = exDevice\<lparr>Table := [(exPrefix 0, \<lparr>hopAddr = V4 2, hopCost = 2\<rparr>)]\<rparr>"

theorem loss_propagates_witness:
  "\<exists>d' es m bytes dB fs. timeout_expire exEnv exMiddle (V4 0x0A0A0102) = Some (d', es) \<and>
     CreateRipPacket Response (V4 3) (told (V4 0x0A0A0102) (Table exMiddle)) = Some (Inr m) \<and> Marshal (Some m) = Ok bytes \<and>
     RipHandler exEnv exEnd (exRipPacket (V4 2) bytes) = Some (dB, fs) \<and> mget (Table dB) (exPrefix 0) = None"
proof -
  have g: "good_table (Table exMiddle)" "length (Table exMiddle) \<le> 64" "good_table (Table exEnd)"
    by (auto simp: exMiddle_def exEnd_def good_table_def wf_map_def ipv4_prefix_def exPrefix_def pfx4_def INFINITY_def
        split: if_splits)
  have n: "distinct (RipNeighbors exMiddle)" "V4 0x0A0A0102 \<in> set (RipNeighbors exMiddle)"
    by (simp_all add: exMiddle_def exDevice_def)
  obtain d' es where t: "timeout_expire exEnv exMiddle (V4 0x0A0A0102) = Some (d', es)"
    by (simp add: timeout_expire_def exMiddle_def exDevice_def remove_at_def)
  from advertise_message [OF told_facts(2,3) [OF g(1,2)], of "V4 3" "V4 0x0A0A0102" "[]"] obtain m bytes where
    m: "CreateRipPacket Response (V4 3) (told (V4 0x0A0A0102) (Table exMiddle)) = Some (Inr m)" "Marshal (Some m) = Ok bytes"
    "ParseHeader (Some \<lparr>elems = bytes, spare = []\<rparr>) = Ok m" by blast
  let ?p = "exRipPacket (V4 2) bytes"
  have data: "Data ?p = \<lparr>elems = bytes, spare = []\<rparr>" "ipSrc (Header ?p) = V4 2"
    by (simp_all add: exRipPacket_def slice_of_def)
  have "device_ok exEnd" using exDevice_ok(2) by (simp add: exEnd_def)
  from RipHandler_total [OF exDevice_ok(1) this g(3), of ?p] m(3) data(1)
  obtain dB fs where r: "RipHandler exEnv exEnd ?p = Some (dB, fs)" by auto
  have hop: "mget (Table exMiddle) (exPrefix 0) = Some \<lparr>hopAddr = V4 0x0A0A0102, hopCost = 1\<rparr>"
    "mget (Table exEnd) (exPrefix 0) = Some \<lparr>hopAddr = V4 2, hopCost = 2\<rparr>" by (simp_all add: exMiddle_def exEnd_def)
  have "mget (Table dB) (exPrefix 0) = (if V4 2 = V4 2 \<and> 0 < (2 :: u32) then None else Some \<lparr>hopAddr = V4 2, hopCost = 2\<rparr>)"
    using loss_propagates [OF g(1,2) n t, THEN conjunct2, THEN conjunct2, rule_format,
        where addrB = "V4 3" and m = m and bytes = bytes and sp = "[]" and packet = ?p and addrA = "V4 2" and
          F = exEnv and dB = exEnd and dB' = dB and fs = fs and p = "exPrefix 0" and
          hop = "\<lparr>hopAddr = V4 0x0A0A0102, hopCost = 1\<rparr>" and hopB = "\<lparr>hopAddr = V4 2, hopCost = 2\<rparr>"]
      m(1,2) data r hop by simp
  then have "mget (Table dB) (exPrefix 0) = None" by simp
  with t m(1,2) r show ?thesis by blast
qed

end
