(* ===== verification/ConfigParser.thy ===== *)
theory ConfigParser
  imports LnxConfig GoText "HOL-Library.Monad_Syntax"
begin

text \<open>
  The parser of \<^verbatim>\<open>pkg/lnxconfig/lnxconfig.go\<close>, one definition per directive and the
  loop over the lines of the file.  The lemmas show what each directive adds to the
  configuration, that a parsed configuration is consistent, which line an error names, and
  which lines end the process.
\<close>

section \<open>Errors\<close>

text \<open>
  \<open>AtLine\<close> is the prefix \<^verbatim>\<open>Parse error on line ...\<close>; an error of a library function is
  \<open>LibraryError\<close>.
\<close>

datatype ConfigError =
  CannotOpen | AtLine nat ConfigError | Message string | LibraryError |
  NoMatchingPrefix Prefix | NotANeighbor Addr

type_synonym parse_result = "(ConfigError, IPConfig) result"
type_synonym ParseFunc = "nat \<Rightarrow> string \<Rightarrow> IPConfig \<Rightarrow> parse_result"

definition newErrString :: "nat \<Rightarrow> string \<Rightarrow> ConfigError" where
  "newErrString line msg = AtLine line (Message msg)"

definition newErr :: "nat \<Rightarrow> ConfigError \<Rightarrow> ConfigError" where
  "newErr line err = AtLine line err"

section \<open>The directives\<close>

fun addOriginatingPrefix_loop :: "InterfaceConfig list \<Rightarrow> IPConfig \<Rightarrow> Prefix \<Rightarrow> parse_result" where
  "addOriginatingPrefix_loop [] config prefix = Err (NoMatchingPrefix prefix)"
| "addOriginatingPrefix_loop (iface # ifaces) config prefix =
     (if AssignedPrefix iface = prefix
      then Ok (config\<lparr>OriginatingPrefixes := OriginatingPrefixes config @ [prefix]\<rparr>)
      else addOriginatingPrefix_loop ifaces config prefix)"

definition addOriginatingPrefix :: "IPConfig \<Rightarrow> Prefix \<Rightarrow> parse_result" where
  "addOriginatingPrefix config prefix = addOriginatingPrefix_loop (cfgInterfaces config) config prefix"

fun addRipNeighbor_loop :: "NeighborConfig list \<Rightarrow> IPConfig \<Rightarrow> Addr \<Rightarrow> parse_result" where
  "addRipNeighbor_loop [] config neighbor = Err (NotANeighbor neighbor)"
| "addRipNeighbor_loop (iface # ifaces) config neighbor =
     (if DestAddr iface = neighbor
      then Ok (config\<lparr>cfgRipNeighbors := cfgRipNeighbors config @ [neighbor]\<rparr>)
      else addRipNeighbor_loop ifaces config neighbor)"

definition addRipNeighbor :: "IPConfig \<Rightarrow> Addr \<Rightarrow> parse_result" where
  "addRipNeighbor config neighbor = addRipNeighbor_loop (cfgNeighbors config) config neighbor"

text \<open>
  An index out of range is \<open>Panic\<close>.  The test is written with \<^verbatim>\<open>&&\<close>: with fewer than two
  tokens it looks at the first of them.
\<close>

definition parseRip :: ParseFunc where
  "parseRip ln line config =
     (let tokens = split_on CHR '' '' line
      in if length tokens < 2 then Err (newErrString ln ''Usage:  rip [cmd] ...'')
         else
           let cmd = tokens ! 1;
               ripTokens = drop 2 tokens
           in if cmd = ''originate''
              then
                if length ripTokens < 2 \<and> ripTokens = [] then Panic
                else if length ripTokens < 2 \<and> ripTokens ! 0 \<noteq> ''prefix''
                then Err (newErrString ln ''Usage:  rip originate prefix <prefix>'')
                else if length ripTokens < 2 then Panic
                else (case ParsePrefix (ripTokens ! 1) of
                        None \<Rightarrow> Err (newErr ln LibraryError)
                      | Some ripPrefix \<Rightarrow> addOriginatingPrefix config (Masked ripPrefix))
              else if cmd = ''advertise-to''
              then
                if length ripTokens < 1
                then Err (newErrString ln ''Usage:  rip advertise-to <neighbor IP>'')
                else (case ParseAddr (ripTokens ! 0) of
                        None \<Rightarrow> Err (newErr ln LibraryError)
                      | Some addr \<Rightarrow> addRipNeighbor config addr)
              else Err (newErrString ln (''Unrecognized RIP command '' @ cmd)))"

definition parseRouting :: ParseFunc where
  "parseRouting ln line config =
     (let tokens = split_on CHR '' '' line
      in if length tokens < 2
         then Err (newErrString ln ''routing directive must have format:  routing <type>'')
         else
           let rt = tokens ! 1
           in if rt = ''static'' then Ok (config\<lparr>cfgRoutingMode := RoutingTypeStatic\<rparr>)
              else if rt = ''rip'' then Ok (config\<lparr>cfgRoutingMode := RoutingTypeRIP\<rparr>)
              else Err (newErrString ln (''Invalid routing type:  '' @ rt)))"

text \<open>What a scan has stored in its \<open>i\<close>-th operand.\<close>

definition operand :: "string list \<Rightarrow> nat \<Rightarrow> string" where
  "operand ws i = (if i < length ws then ws ! i else [])"

definition parseRoute :: ParseFunc where
  "parseRoute ln line config =
     (case Fscanf ''route %s via %s'' line of
        None \<Rightarrow> Err LibraryError
      | Some ws \<Rightarrow>
          if length ws \<noteq> 2
          then Err (newErrString ln ''route directive must have format  route <prefix> via <addr>'')
          else (case ParsePrefix (operand ws 0) of
                  None \<Rightarrow> Err LibraryError
                | Some prefix \<Rightarrow>
                    (case ParseAddr (operand ws 1) of
                       None \<Rightarrow> Err LibraryError
                     | Some addr \<Rightarrow> Ok (config\<lparr>StaticRoutes := mput prefix addr (StaticRoutes config)\<rparr>))))"

definition parseInterface :: ParseFunc where
  "parseInterface ln line config =
     (case Fscanf ''interface %s %s %s'' line of
        None \<Rightarrow> Err LibraryError
      | Some ws \<Rightarrow>
          if length ws \<noteq> 3
          then Err (newErrString ln ''interface directive must have format:  interface <name> <prefix> <bindAddr>'')
          else (case ParsePrefix (operand ws 1) of
                  None \<Rightarrow> Err LibraryError
                | Some prefix \<Rightarrow>
                    (case ParseAddrPort (operand ws 2) of
                       None \<Rightarrow> Err LibraryError
                     | Some addrPort \<Rightarrow>
                         let iface = \<lparr>icName = operand ws 0, AssignedIP = pfxAddr prefix,
                                      AssignedPrefix = Masked prefix, icUDPAddr = addrPort\<rparr>
                         in Ok (config\<lparr>cfgInterfaces := cfgInterfaces config @ [iface]\<rparr>))))"

text \<open>Here the error of a wrong count is made and dropped.\<close>

definition parseNeighbor :: ParseFunc where
  "parseNeighbor ln line config =
     (case Fscanf ''neighbor %s at %s via %s'' line of
        None \<Rightarrow> Err LibraryError
      | Some ws \<Rightarrow>
          (case ParseAddr (operand ws 0) of
             None \<Rightarrow> Err LibraryError
           | Some destAddr \<Rightarrow>
               (case ParseAddrPort (operand ws 1) of
                  None \<Rightarrow> Err LibraryError
                | Some udpAddr \<Rightarrow>
                    let neighbor = \<lparr>DestAddr = destAddr, ncUDPAddr = udpAddr, ncInterfaceName = operand ws 2\<rparr>
                    in Ok (config\<lparr>cfgNeighbors := cfgNeighbors config @ [neighbor]\<rparr>))))"

definition parseCommands :: "(string \<times> ParseFunc) list" where
  "parseCommands =
     [(''interface'', parseInterface), (''neighbor'', parseNeighbor), (''routing'', parseRouting),
      (''route'', parseRoute), (''rip'', parseRip)]"

section \<open>The file\<close>

fun parse_lines :: "nat \<Rightarrow> string list \<Rightarrow> IPConfig \<Rightarrow> parse_result" where
  "parse_lines ln [] config = Ok config"
| "parse_lines ln (line # lines) config =
     (let ln = Suc ln;
          head = hd (split_on CHR '' '' line)
      in if length head = 0 \<or> head = ''#'' \<or> head ! 0 = CHR ''#'' then parse_lines ln lines config
         else (case mget parseCommands head of
                 None \<Rightarrow> Err (newErrString ln (''Unrecognized token '' @ head))
               | Some pf \<Rightarrow>
                   (case pf ln line config of
                      Ok config \<Rightarrow> parse_lines ln lines config
                    | Err err \<Rightarrow> Err (newErr ln err)
                    | Panic \<Rightarrow> Panic)))"

definition emptyConfig :: IPConfig where
  "emptyConfig =
     \<lparr>cfgInterfaces = [], cfgNeighbors = [], OriginatingPrefixes = [], cfgRoutingMode = RoutingTypeNone,
      cfgRipNeighbors = [], StaticRoutes = []\<rparr>"

text \<open>The argument is the content of the file, \<open>None\<close> when it cannot be opened.\<close>

definition ParseConfig :: "string option \<Rightarrow> parse_result" where
  "ParseConfig configFile =
     (case configFile of
        None \<Rightarrow> Err CannotOpen
      | Some fd \<Rightarrow> parse_lines 0 (scan_lines fd) emptyConfig)"

declare parse_lines.simps(2) [simp del]

section \<open>One line\<close>

text \<open>A line as the loop treats it: skipped, or given to the function of its first token.\<close>

definition skipped :: "string \<Rightarrow> bool" where
  "skipped line \<longleftrightarrow> (let head = hd (split_on CHR '' '' line) in head = [] \<or> hd head = CHR ''#'')"

definition parse_line :: ParseFunc where
  "parse_line ln line config =
     (if skipped line then Ok config
      else case mget parseCommands (hd (split_on CHR '' '' line)) of
             None \<Rightarrow> Err (newErrString ln (''Unrecognized token '' @ hd (split_on CHR '' '' line)))
           | Some pf \<Rightarrow> (case pf ln line config of Err err \<Rightarrow> Err (newErr ln err) | r \<Rightarrow> r))"

lemma parse_lines_Cons:
  "parse_lines ln (line # lines) config = rbind (parse_line (Suc ln) line config) (parse_lines (Suc ln) lines)"
proof (cases "hd (split_on CHR '' '' line)")
  case Nil
  then show ?thesis by (simp add: parse_lines.simps parse_line_def skipped_def)
next
  case (Cons c cs)
  then show ?thesis
    by (auto simp: parse_lines.simps parse_line_def skipped_def split: option.splits result.splits)
qed

lemma parse_lines_append:
  "parse_lines ln (xs @ ys) config = rbind (parse_lines ln xs config) (parse_lines (ln + length xs) ys)"
proof (induction xs arbitrary: ln config)
  case Nil
  then show ?case by simp
next
  case (Cons x xs)
  then show ?case by (cases "parse_line (Suc ln) x config") (simp_all add: parse_lines_Cons)
qed

lemma parse_line_Err: "parse_line ln line config = Err e \<Longrightarrow> \<exists>e'. e = AtLine ln e'"
  by (auto simp: parse_line_def newErrString_def newErr_def split: if_splits option.splits result.splits)

text \<open>A result other than a configuration comes from the first line that does not give one.\<close>

lemma parse_lines_stops:
  assumes "parse_lines ln lines config = r" "\<forall>c. r \<noteq> Ok c"
  shows "\<exists>n c. n < length lines \<and> parse_lines ln (take n lines) config = Ok c \<and>
    parse_line (Suc (ln + n)) (lines ! n) c = r"
  using assms
proof (induction lines arbitrary: ln config)
  case Nil
  then show ?case by auto
next
  case (Cons line lines)
  show ?case
  proof (cases "parse_line (Suc ln) line config")
    case (Ok c)
    with Cons.prems have "parse_lines (Suc ln) lines c = r" by (simp add: parse_lines_Cons)
    from Cons.IH [OF this Cons.prems(2)] obtain n c' where
      "n < length lines" "parse_lines (Suc ln) (take n lines) c = Ok c'"
      "parse_line (Suc (Suc ln + n)) (lines ! n) c' = r" by blast
    with Ok show ?thesis by (intro exI [of _ "Suc n"] exI [of _ c']) (simp add: parse_lines_Cons)
  qed (use Cons.prems in \<open>auto simp: parse_lines_Cons intro: exI [of _ 0]\<close>)
qed

section \<open>What a parsed configuration satisfies\<close>

definition iface_ok :: "InterfaceConfig \<Rightarrow> bool" where
  "iface_ok i \<longleftrightarrow> Prefix_IsValid (AssignedPrefix i) \<and> Masked (AssignedPrefix i) = AssignedPrefix i \<and>
     Contains (AssignedPrefix i) (AssignedIP i) \<and> is_word (icName i)"

definition config_ok :: "IPConfig \<Rightarrow> bool" where
  "config_ok c \<longleftrightarrow> list_all iface_ok (cfgInterfaces c) \<and>
     set (OriginatingPrefixes c) \<subseteq> AssignedPrefix ` set (cfgInterfaces c) \<and>
     set (cfgRipNeighbors c) \<subseteq> DestAddr ` set (cfgNeighbors c) \<and>
     list_all (\<lambda>n. is_word (ncInterfaceName n) \<and> Addr_IsValid (DestAddr n)) (cfgNeighbors c) \<and>
     wf_map (StaticRoutes c) \<and> (\<forall>(p, a) \<in> set (StaticRoutes c). Prefix_IsValid p \<and> Addr_IsValid a)"

lemma Contains_own: "Prefix_IsValid p \<Longrightarrow> \<not> hasZone (pfxAddr p) \<Longrightarrow> Contains (Masked p) (pfxAddr p)"
  unfolding Contains_of_Masked by (cases "pfxAddr p") (simp_all add: Contains_def Prefix_IsValid_def)

lemma ParseAddr_valid: "ParseAddr s = Some a \<Longrightarrow> Addr_IsValid a"
  by (auto simp: ParseAddr_def parseIPv6_def Let_def split: option.splits if_splits)

lemma scan_interface: "Fscanf ''interface %s %s %s'' inp = Some ws \<Longrightarrow> \<exists>a b c. ws = [a, b, c]"
  using Fscanf_length [of "''interface %s %s %s''" inp ws] by (auto simp: length_Suc_conv numeral_eq_Suc)

lemma scan_neighbor: "Fscanf ''neighbor %s at %s via %s'' inp = Some ws \<Longrightarrow> \<exists>a b c. ws = [a, b, c]"
  using Fscanf_length [of "''neighbor %s at %s via %s''" inp ws] by (auto simp: length_Suc_conv numeral_eq_Suc)

lemma scan_route: "Fscanf ''route %s via %s'' inp = Some ws \<Longrightarrow> \<exists>a b. ws = [a, b]"
  using Fscanf_length [of "''route %s via %s''" inp ws] by (auto simp: length_Suc_conv numeral_eq_Suc)

lemma addOriginatingPrefix_iff:
  "addOriginatingPrefix c p =
     (if p \<in> AssignedPrefix ` set (cfgInterfaces c)
      then Ok (c\<lparr>OriginatingPrefixes := OriginatingPrefixes c @ [p]\<rparr>) else Err (NoMatchingPrefix p))"
proof -
  have "addOriginatingPrefix_loop is c p =
     (if p \<in> AssignedPrefix ` set is
      then Ok (c\<lparr>OriginatingPrefixes := OriginatingPrefixes c @ [p]\<rparr>) else Err (NoMatchingPrefix p))" for "is"
    by (induction "is") auto
  then show ?thesis by (simp add: addOriginatingPrefix_def)
qed

lemma addRipNeighbor_iff:
  "addRipNeighbor c a =
     (if a \<in> DestAddr ` set (cfgNeighbors c)
      then Ok (c\<lparr>cfgRipNeighbors := cfgRipNeighbors c @ [a]\<rparr>) else Err (NotANeighbor a))"
proof -
  have "addRipNeighbor_loop ns c a =
     (if a \<in> DestAddr ` set ns
      then Ok (c\<lparr>cfgRipNeighbors := cfgRipNeighbors c @ [a]\<rparr>) else Err (NotANeighbor a))" for ns
    by (induction ns) auto
  then show ?thesis by (simp add: addRipNeighbor_def)
qed

lemma parseInterface_ok:
  assumes "parseInterface ln line c = Ok c'" "config_ok c" shows "config_ok c'"
proof -
  from assms(1) obtain ws p u where w: "Fscanf ''interface %s %s %s'' line = Some ws" and
    p: "ParsePrefix (operand ws 1) = Some p" and
    c': "c' = c\<lparr>cfgInterfaces := cfgInterfaces c @ [\<lparr>icName = operand ws 0, AssignedIP = pfxAddr p,
           AssignedPrefix = Masked p, icUDPAddr = u\<rparr>]\<rparr>"
    by (auto simp: parseInterface_def Let_def split: option.splits if_splits)
  have "is_word (operand ws 0)"
    using scan_interface [OF w] Fscanf_words [OF w] by (auto simp: operand_def)
  with p ParsePrefix_valid [OF p] assms(2) show ?thesis
    by (auto simp: c' config_ok_def iface_ok_def Masked_valid Contains_own)
qed

lemma parseNeighbor_ok:
  assumes "parseNeighbor ln line c = Ok c'" "config_ok c" shows "config_ok c'"
proof -
  from assms(1) obtain ws a u where w: "Fscanf ''neighbor %s at %s via %s'' line = Some ws" and
    a: "ParseAddr (operand ws 0) = Some a" and
    c': "c' = c\<lparr>cfgNeighbors := cfgNeighbors c @ [\<lparr>DestAddr = a, ncUDPAddr = u, ncInterfaceName = operand ws 2\<rparr>]\<rparr>"
    by (auto simp: parseNeighbor_def Let_def split: option.splits if_splits)
  have "is_word (operand ws 2)"
    using scan_neighbor [OF w] Fscanf_words [OF w] by (auto simp: operand_def)
  with ParseAddr_valid [OF a] assms(2) show ?thesis
    by (auto simp: c' config_ok_def)
qed

lemma parseRoute_ok:
  assumes "parseRoute ln line c = Ok c'" "config_ok c" shows "config_ok c'"
proof -
  from assms(1) obtain ws p a where p: "ParsePrefix (operand ws 0) = Some p" and
    a: "ParseAddr (operand ws 1) = Some a" and
    c': "c' = c\<lparr>StaticRoutes := mput p a (StaticRoutes c)\<rparr>"
    by (auto simp: parseRoute_def split: option.splits if_splits)
  from assms(2) have wf: "wf_map (StaticRoutes c)" by (simp add: config_ok_def)
  then have m: "(q, b) = (p, a) \<or> (q, b) \<in> set (StaticRoutes c)" if "(q, b) \<in> set (mput p a (StaticRoutes c))" for q b
    using that by (simp add: wf_map_mem gomap_simps split: if_splits)
  have "\<forall>(q, b) \<in> set (mput p a (StaticRoutes c)). Prefix_IsValid q \<and> Addr_IsValid b"
    using ParsePrefix_valid [OF p] ParseAddr_valid [OF a] assms(2) m by (fastforce simp: config_ok_def)
  with assms(2) wf show ?thesis
    by (simp add: c' config_ok_def)
qed

lemma parseRouting_ok: "parseRouting ln line c = Ok c' \<Longrightarrow> config_ok c \<Longrightarrow> config_ok c'"
  by (auto simp: parseRouting_def Let_def config_ok_def split: if_splits)

lemma parseRip_ok: "parseRip ln line c = Ok c' \<Longrightarrow> config_ok c \<Longrightarrow> config_ok c'"
  by (auto simp: parseRip_def Let_def addOriginatingPrefix_iff addRipNeighbor_iff config_ok_def
      split: if_splits option.splits)

lemmas directive_ok = parseInterface_ok parseNeighbor_ok parseRoute_ok parseRouting_ok parseRip_ok

lemma parse_line_ok: "parse_line ln line c = Ok c' \<Longrightarrow> config_ok c \<Longrightarrow> config_ok c'"
  by (auto simp: parse_line_def parseCommands_def split: if_splits option.splits result.splits
      dest: directive_ok)

lemma parse_lines_ok: "parse_lines ln lines c = Ok c' \<Longrightarrow> config_ok c \<Longrightarrow> config_ok c'"
  by (induction lines arbitrary: ln c) (auto simp: parse_lines_Cons rbind_Ok_iff dest: parse_line_ok)

lemma config_ok_empty: "config_ok emptyConfig"
  by (simp add: config_ok_def emptyConfig_def)

section \<open>Panics\<close>

lemma directive_panic:
  "parseInterface ln line c \<noteq> Panic" "parseNeighbor ln line c \<noteq> Panic" "parseRoute ln line c \<noteq> Panic"
  "parseRouting ln line c \<noteq> Panic"
  by (simp_all add: parseInterface_def parseNeighbor_def parseRoute_def parseRouting_def Let_def split: option.splits)

lemma parseRip_panic:
  "parseRip ln line c = Panic \<longleftrightarrow>
   (\<exists>t. split_on CHR '' '' line \<in> {[t, ''originate''], [t, ''originate'', ''prefix'']})"
proof -
  let ?ts = "split_on CHR '' '' line"
  consider "?ts = []" | t where "?ts = [t]" | t u where "?ts = [t, u]" | t u v where "?ts = [t, u, v]"
    | t u v w r where "?ts = t # u # v # w # r"
    by (metis list.exhaust)
  then show ?thesis
    by cases (simp_all add: parseRip_def Let_def addOriginatingPrefix_iff addRipNeighbor_iff split: option.splits)
qed

lemma parse_line_panic:
  "parse_line ln line c = Panic \<longleftrightarrow>
   split_on CHR '' '' line \<in> {[''rip'', ''originate''], [''rip'', ''originate'', ''prefix'']}"
proof (cases "\<not> skipped line \<and> hd (split_on CHR '' '' line) = ''rip''")
  case True
  then obtain ts where ts: "split_on CHR '' '' line = ''rip'' # ts"
    by (cases "split_on CHR '' '' line") simp_all
  with True have "parse_line ln line c = Panic \<longleftrightarrow> parseRip ln line c = Panic"
    by (simp add: parse_line_def parseCommands_def split: result.splits)
  then show ?thesis by (auto simp: parseRip_panic ts)
next
  case False
  then have "parse_line ln line c \<noteq> Panic"
    by (auto simp: parse_line_def parseCommands_def directive_panic split: option.splits result.splits if_splits)
  moreover from False have "split_on CHR '' '' line \<notin> {[''rip'', ''originate''], [''rip'', ''originate'', ''prefix'']}"
    by (auto simp: skipped_def)
  ultimately show ?thesis by blast
qed

lemma parse_lines_at:
  assumes "n < length lines" "parse_lines ln (take n lines) config = Ok c"
  shows "parse_lines ln lines config =
    rbind (parse_line (Suc (ln + n)) (lines ! n) c) (parse_lines (Suc (ln + n)) (drop (Suc n) lines))"
proof -
  have "lines = take n lines @ lines ! n # drop (Suc n) lines"
    using assms(1) by (simp add: id_take_nth_drop)
  then have "parse_lines ln lines config = parse_lines ln (take n lines @ lines ! n # drop (Suc n) lines) config"
    by simp
  also have "\<dots> = rbind (parse_line (Suc (ln + n)) (lines ! n) c) (parse_lines (Suc (ln + n)) (drop (Suc n) lines))"
    using assms by (simp add: parse_lines_append parse_lines_Cons)
  finally show ?thesis .
qed

section \<open>Directives and their meaning\<close>

text \<open>
  The directives of an IPv4 configuration, the line each is written as, when it may follow
  a configuration, and what it adds.
\<close>

datatype directive =
  DInterface string u32 nat u32 u16 | DNeighbor u32 u32 u16 string | DRouting bool |
  DOriginate u32 nat | DAdvertise u32 | DRoute u32 nat u32 | DComment string

fun render :: "directive \<Rightarrow> string" where
  "render (DInterface name a b u p) =
     ''interface '' @ name @ '' '' @ show_prefix4 a b @ '' '' @ show_addrport4 u p"
| "render (DNeighbor a u p name) =
     ''neighbor '' @ show_v4 a @ '' at '' @ show_addrport4 u p @ '' via '' @ name"
| "render (DRouting isRip) = ''routing '' @ (if isRip then ''rip'' else ''static'')"
| "render (DOriginate a b) = ''rip originate prefix '' @ show_prefix4 a b"
| "render (DAdvertise a) = ''rip advertise-to '' @ show_v4 a"
| "render (DRoute a b g) = ''route '' @ show_prefix4 a b @ '' via '' @ show_v4 g"
| "render (DComment s) = ''#'' @ s"

definition pfx :: "u32 \<Rightarrow> nat \<Rightarrow> Prefix" where
  "pfx a b = \<lparr>pfxAddr = V4 a, pfxBits = int b\<rparr>"

fun adds :: "directive \<Rightarrow> IPConfig \<Rightarrow> IPConfig" where
  "adds (DInterface name a b u p) c =
     c\<lparr>cfgInterfaces := cfgInterfaces c @ [\<lparr>icName = name, AssignedIP = V4 a,
        AssignedPrefix = Masked (pfx a b), icUDPAddr = AddrPortFrom (V4 u) p\<rparr>]\<rparr>"
| "adds (DNeighbor a u p name) c =
     c\<lparr>cfgNeighbors := cfgNeighbors c @ [\<lparr>DestAddr = V4 a, ncUDPAddr = AddrPortFrom (V4 u) p,
        ncInterfaceName = name\<rparr>]\<rparr>"
| "adds (DRouting isRip) c = c\<lparr>cfgRoutingMode := (if isRip then RoutingTypeRIP else RoutingTypeStatic)\<rparr>"
| "adds (DOriginate a b) c = c\<lparr>OriginatingPrefixes := OriginatingPrefixes c @ [Masked (pfx a b)]\<rparr>"
| "adds (DAdvertise a) c = c\<lparr>cfgRipNeighbors := cfgRipNeighbors c @ [V4 a]\<rparr>"
| "adds (DRoute a b g) c = c\<lparr>StaticRoutes := mput (pfx a b) (V4 g) (StaticRoutes c)\<rparr>"
| "adds (DComment s) c = c"

definition short_word :: "string \<Rightarrow> bool" where
  "short_word s \<longleftrightarrow> is_word s \<and> length s \<le> 60000"

fun may_follow :: "directive \<Rightarrow> IPConfig \<Rightarrow> bool" where
  "may_follow (DInterface name a b u p) c = (short_word name \<and> b \<le> 32)"
| "may_follow (DNeighbor a u p name) c = short_word name"
| "may_follow (DRouting isRip) c = True"
| "may_follow (DOriginate a b) c = (b \<le> 32 \<and> Masked (pfx a b) \<in> AssignedPrefix ` set (cfgInterfaces c))"
| "may_follow (DAdvertise a) c = (V4 a \<in> DestAddr ` set (cfgNeighbors c))"
| "may_follow (DRoute a b g) c = (b \<le> 32)"
| "may_follow (DComment s) c = (CHR 0x0A \<notin> set s \<and> CHR 0x0D \<notin> set s \<and> length s \<le> 60000)"

fun well_ordered :: "directive list \<Rightarrow> IPConfig \<Rightarrow> bool" where
  "well_ordered [] c = True"
| "well_ordered (d # ds) c = (may_follow d c \<and> well_ordered ds (adds d c))"

lemma Fscanf_space_word:
  assumes "is_word s" "rest = [] \<or> isSpace (hd rest)"
  shows "Fscanf (CHR '' '' # CHR ''%'' # CHR ''s'' # fs) (CHR '' '' # s @ rest) = map_option ((#) s) (Fscanf fs rest)"
  using assms by (simp add: Fscanf_space word_span(1) Fscanf_word)

lemma Fscanf_space_word_last:
  "is_word s \<Longrightarrow> Fscanf '' %s'' (CHR '' '' # s) = Some [s]"
  using Fscanf_space_word [of s "[]" "[]"] by (simp add: Fscanf.simps(1))

lemma Fscanf_space_literal:
  "\<not> isSpace x \<Longrightarrow> Fscanf (CHR '' '' # fs) (CHR '' '' # x # inp) = Fscanf fs (x # inp)"
  by (simp add: Fscanf_space)

lemmas scan_simps = Fscanf_space_word Fscanf_space_word_last Fscanf_space_literal Fscanf_literal

lemma isSpace_simps [simp]: "isSpace CHR '' ''" "\<not> isSpace CHR ''a''" "\<not> isSpace CHR ''v''"
  by (simp_all add: isSpace_def)

lemma word_token: "is_word s \<Longrightarrow> split_on CHR '' '' s = [s]"
  by (rule split_on_token) (auto simp: is_word_def list_all_iff)

lemma parse_render: "may_follow d c \<Longrightarrow> parse_line ln (render d) c = Ok (adds d c)"
proof (cases d)
  case (DInterface name a b u p)
  assume m: "may_follow d c"
  with DInterface have "Fscanf ''interface %s %s %s'' (render d) = Some [name, show_prefix4 a b, show_addrport4 u p]"
    by (simp add: scan_simps short_word_def)
  with DInterface m show ?thesis
    by (simp add: parse_line_def skipped_def parseCommands_def parseInterface_def operand_def pfx_def
        split: list.splits)
next
  case (DNeighbor a u p name)
  assume m: "may_follow d c"
  with DNeighbor have "Fscanf ''neighbor %s at %s via %s'' (render d) = Some [show_v4 a, show_addrport4 u p, name]"
    by (simp add: scan_simps short_word_def)
  with DNeighbor m show ?thesis
    by (simp add: parse_line_def skipped_def parseCommands_def parseNeighbor_def operand_def split: list.splits)
next
  case (DRoute a b g)
  assume m: "may_follow d c"
  with DRoute have "Fscanf ''route %s via %s'' (render d) = Some [show_prefix4 a b, show_v4 g]"
    by (simp add: scan_simps)
  with DRoute m show ?thesis
    by (simp add: parse_line_def skipped_def parseCommands_def parseRoute_def operand_def pfx_def split: list.splits)
next
  case (DOriginate a b)
  then show "may_follow d c \<Longrightarrow> ?thesis"
    by (simp add: parse_line_def skipped_def parseCommands_def parseRip_def word_token addOriginatingPrefix_iff pfx_def)
next
  case (DAdvertise a)
  then show "may_follow d c \<Longrightarrow> ?thesis"
    by (simp add: parse_line_def skipped_def parseCommands_def parseRip_def word_token addRipNeighbor_iff)
next
  case (DRouting r)
  then show "may_follow d c \<Longrightarrow> ?thesis"
    by (simp add: parse_line_def skipped_def parseCommands_def parseRouting_def)
next
  case (DComment s)
  then show "may_follow d c \<Longrightarrow> ?thesis"
    by (simp add: parse_line_def skipped_def split: list.splits)
qed

section \<open>The text of a file\<close>

lemma length_show_nat: "0 < k \<Longrightarrow> n < 10 ^ k \<Longrightarrow> length (show_nat n) \<le> k"
proof (induction n arbitrary: k rule: show_nat.induct)
  case (1 n)
  show ?case
  proof (cases "n < 10")
    case True
    with "1.prems" show ?thesis by (simp add: show_nat.simps)
  next
    case False
    with "1.prems" obtain j where k: "k = Suc j" "0 < j" by (cases k; cases "k - 1") auto
    with "1.prems" have "n div 10 < 10 ^ j" by (simp add: div_less_iff_less_mult mult.commute)
    with "1.IH" [OF False k(2)] k False show ?thesis by (subst show_nat.simps) simp
  qed
qed

lemma length_show_v4: "length (show_v4 w) \<le> 15"
proof -
  have "unat w div 16777216 < 256" using unat_u32_bound [of w] by simp
  then show ?thesis
    using length_show_nat [of 3 "unat w div 16777216"] length_show_nat [of 3 "unat w div 65536 mod 256"] length_show_nat [of 3 "unat w div 256 mod 256"]
    length_show_nat [of 3 "unat w mod 256"]
    by (simp add: show_v4_def Let_def less_trans [OF mod_less_divisor])
qed

lemma length_show_prefix4: "b \<le> 32 \<Longrightarrow> length (show_prefix4 a b) \<le> 18"
  using length_show_v4 [of a] length_show_nat [of 2 b] by (simp add: show_prefix4_def)

lemma length_show_addrport4: "length (show_addrport4 u p) \<le> 21"
  using length_show_v4 [of u] length_show_nat [of 5 "unat p"] unat_u16_bound [of p]
  by (simp add: show_addrport4_def)

lemma word_no_break: "is_word s \<Longrightarrow> CHR 0x0A \<notin> set s \<and> CHR 0x0D \<notin> set s"
  by (auto simp: is_word_def list_all_iff isSpace_def)

lemma render_line:
  assumes "may_follow d c"
  shows "CHR 0x0A \<notin> set (render d)" "CHR 0x0D \<notin> set (render d)" "length (render d) < 65536"
proof -
  note lens = length_show_v4 length_show_prefix4 length_show_addrport4
  show "length (render d) < 65536"
  proof (cases d)
    case (DInterface name a b u p)
    with assms lens(2) [of b a] lens(3) [of u p] show ?thesis by (simp add: short_word_def)
  next
    case (DNeighbor a u p name)
    with assms lens(1) [of a] lens(3) [of u p] show ?thesis by (simp add: short_word_def)
  next
    case (DOriginate a b)
    with assms lens(2) [of b a] show ?thesis by simp
  next
    case (DAdvertise a)
    with lens(1) [of a] show ?thesis by simp
  next
    case (DRoute a b g)
    with assms lens(2) [of b a] lens(1) [of g] show ?thesis by simp
  qed (use assms in simp_all)
  show "CHR 0x0A \<notin> set (render d)" "CHR 0x0D \<notin> set (render d)"
    using assms by (cases d; simp add: word_no_break short_word_def)+
qed

definition file_of :: "string list \<Rightarrow> string" where
  "file_of lines = concat (map (\<lambda>l. l @ [CHR 0x0A]) lines)"

lemma split_file: "\<forall>l \<in> set lines. CHR 0x0A \<notin> set l \<Longrightarrow> split_on CHR 0x0A (file_of lines) = lines @ [[]]"
  by (induction lines) (simp_all add: file_of_def split_on_append)

lemma scan_file:
  assumes "\<forall>l \<in> set lines. CHR 0x0A \<notin> set l \<and> CHR 0x0D \<notin> set l \<and> length l < 65536"
  shows "scan_lines (file_of lines) = lines"
proof -
  have "drop_cr l = l" if "l \<in> set lines" for l
  proof (cases "l = []")
    case False
    with assms that last_in_set [of l] have "last l \<noteq> CHR 0x0D" by metis
    then show ?thesis by (simp add: drop_cr_def)
  qed (simp add: drop_cr_def)
  then have "map drop_cr lines = lines" by (rule map_idI)
  moreover from assms have "takeWhile (\<lambda>l. length l < 65536) lines = lines"
    by (simp add: takeWhile_eq_all_conv)
  moreover have "scan_lines (file_of lines) = map drop_cr (takeWhile (\<lambda>l. length l < 65536) lines)"
    using assms by (simp add: scan_lines_def split_file)
  ultimately show ?thesis by (simp only:)
qed

lemma well_ordered_lines:
  "well_ordered ds c \<Longrightarrow> l \<in> set (map render ds) \<Longrightarrow>
   CHR 0x0A \<notin> set l \<and> CHR 0x0D \<notin> set l \<and> length l < 65536"
  by (induction ds arbitrary: c) (auto dest: render_line)

lemma parse_rendered: "well_ordered ds c \<Longrightarrow> parse_lines ln (map render ds) c = Ok (fold adds ds c)"
  by (induction ds arbitrary: ln c) (simp_all add: parse_lines_Cons parse_render)

section \<open>Properties\<close>

text \<open>
  C17: a file made of directives, each of which may follow what is before it, is parsed to
  exactly the configuration the directives mean, in their order: printing and parsing round
  trip, whatever addresses, prefix lengths, ports and interface names it has.
\<close>

theorem ParseConfig_directives:
  assumes "well_ordered ds emptyConfig"
  shows "ParseConfig (Some (file_of (map render ds))) = Ok (fold adds ds emptyConfig)"
  using scan_file [of "map render ds"] well_ordered_lines [OF assms] parse_rendered [OF assms]
  by (simp add: ParseConfig_def)

definition exDirectives :: "directive list" where
  "exDirectives =
     [DComment '' a router'', DInterface ''if0'' 0x0A010001 24 0x7F000001 5000,
      DNeighbor 0x0A01000A 0x7F000001 6001 ''if0'', DRouting True, DOriginate 0x0A010001 24,
      DAdvertise 0x0A01000A, DRoute 0 0 0x0A01000A]"

lemma exDirectives_ok: "well_ordered exDirectives emptyConfig"
  by (simp add: exDirectives_def emptyConfig_def short_word_def is_word_def isSpace_def)

theorem ParseConfig_directives_witness:
  "ParseConfig (Some (file_of (map render exDirectives))) = Ok (fold adds exDirectives emptyConfig)"
  using ParseConfig_directives [OF exDirectives_ok] .

text \<open>
  C28: a configuration that the parser returns is consistent, whatever the file: every
  interface has a masked, valid prefix that contains its address, originating prefixes are
  prefixes of interfaces, RIP neighbours are configured neighbours, and static routes have
  valid distinct prefixes and valid gateways.
\<close>

theorem ParseConfig_consistent:
  assumes "ParseConfig file = Ok config"
  shows "config_ok config"
  using assms parse_lines_ok config_ok_empty
  by (fastforce simp: ParseConfig_def split: option.splits)

theorem ParseConfig_consistent_witness:
  "config_ok (fold adds exDirectives emptyConfig)"
  using ParseConfig_consistent [of "Some (file_of (map render exDirectives))"]
    parse_rendered [OF exDirectives_ok] scan_file [of "map render exDirectives"]
    well_ordered_lines [OF exDirectives_ok]
  by (simp add: ParseConfig_def)

text \<open>
  C39: the line number of an error is that of the first line that does not parse: all
  lines before it were read without an error, and it is the line itself that gives the
  error, behind the prefix with its number.
\<close>

theorem ParseConfig_error_line:
  assumes "ParseConfig (Some file) = Err e"
  shows "\<exists>n c e'. n < length (scan_lines file) \<and> parse_lines 0 (take n (scan_lines file)) emptyConfig = Ok c \<and>
    parse_line (Suc n) (scan_lines file ! n) c = Err e \<and> e = AtLine (Suc n) e'"
proof -
  from assms have "parse_lines 0 (scan_lines file) emptyConfig = Err e" by (simp add: ParseConfig_def)
  from parse_lines_stops [OF this] obtain n c where
    "n < length (scan_lines file)" "parse_lines 0 (take n (scan_lines file)) emptyConfig = Ok c"
    "parse_line (Suc n) (scan_lines file ! n) c = Err e" by auto
  with parse_line_Err [OF this(3)] show ?thesis by blast
qed

theorem ParseConfig_error_line_witness:
  "\<exists>n c e'. n < length (scan_lines ''routing x'') \<and>
    parse_lines 0 (take n (scan_lines ''routing x'')) emptyConfig = Ok c \<and>
    parse_line (Suc n) (scan_lines ''routing x'' ! n) c = Err (AtLine 1 (newErrString 1 ''Invalid routing type:  x'')) \<and>
    AtLine 1 (newErrString 1 ''Invalid routing type:  x'') = AtLine (Suc n) e'"
  by (rule ParseConfig_error_line)
     (simp add: ParseConfig_def scan_lines_def drop_cr_def parse_lines.simps parseCommands_def parseRouting_def newErr_def)

text \<open>
  C40: which files end the process instead of giving an error: exactly those in which a
  line that is reached reads \<^verbatim>\<open>rip originate\<close> or \<^verbatim>\<open>rip originate prefix\<close> with
  nothing behind it.  The guard of that directive is meant to catch both.
\<close>

theorem ParseConfig_panics_iff:
  "ParseConfig (Some file) = Panic \<longleftrightarrow>
   (\<exists>n c. n < length (scan_lines file) \<and> parse_lines 0 (take n (scan_lines file)) emptyConfig = Ok c \<and>
     split_on CHR '' '' (scan_lines file ! n) \<in> {[''rip'', ''originate''], [''rip'', ''originate'', ''prefix'']})"
  (is "_ \<longleftrightarrow> ?R")
proof
  assume "ParseConfig (Some file) = Panic"
  then have "parse_lines 0 (scan_lines file) emptyConfig = Panic" by (simp add: ParseConfig_def)
  from parse_lines_stops [OF this] show ?R by (auto simp: parse_line_panic)
next
  assume ?R
  then obtain n c where n: "n < length (scan_lines file)" "parse_lines 0 (take n (scan_lines file)) emptyConfig = Ok c"
    and "split_on CHR '' '' (scan_lines file ! n) \<in> {[''rip'', ''originate''], [''rip'', ''originate'', ''prefix'']}"
    by blast
  then have "parse_line (Suc (0 + n)) (scan_lines file ! n) c = Panic" by (simp only: parse_line_panic)
  with parse_lines_at [OF n] show "ParseConfig (Some file) = Panic" by (simp add: ParseConfig_def)
qed

end
