(* ===== verification/Startup.thy ===== *)
theory Startup
  imports Sockets ConfigParser
begin

text \<open>
  The start of a device from a configuration file: \<^verbatim>\<open>Initialize\<close> of
  \<^verbatim>\<open>protocol.go\<close> after \<^verbatim>\<open>ParseConfig\<close> of \<^verbatim>\<open>lnxconfig.go\<close>.
\<close>

section \<open>The three loops\<close>

definition route_iface :: "InterfaceConfig \<Rightarrow> RouteInterface" where
  "route_iface i =
     \<lparr>ifName = icName i, ifIp = AssignedIP i, ifPrefix = AssignedPrefix i, ifUdpPort = icUDPAddr i, ifIsUp = True\<rparr>"

abbreviation local_hop :: "InterfaceConfig \<Rightarrow> RoutingTable \<Rightarrow> RoutingTable" where
  "local_hop i \<equiv> mput (Masked (AssignedPrefix i)) \<lparr>hopAddr = AssignedIP i, hopCost = 0\<rparr>"

abbreviation static_hop :: "Prefix \<times> Addr \<Rightarrow> RoutingTable \<Rightarrow> RoutingTable" where
  "static_hop r \<equiv> mput (fst r) \<lparr>hopAddr = snd r, hopCost = 0\<rparr>"

lemma mput_new: "k \<notin> fst ` set m \<Longrightarrow> mput k v m = m @ [(k, v)]"
  by (induction m) auto

lemma init_interfaces_eq:
  "distinct (map icName is) \<Longrightarrow> icName ` set is \<inter> fst ` set (Interfaces d) = {} \<Longrightarrow>
   init_interfaces is d = d\<lparr>Interfaces := Interfaces d @ map (\<lambda>i. (icName i, route_iface i)) is,
     Table := fold local_hop is (Table d)\<rparr>"
proof (induction "is" arbitrary: d)
  case (Cons i "is")
  then have "mput (icName i) v (Interfaces d) = Interfaces d @ [(icName i, v)]" for v
    by (intro mput_new) auto
  moreover have "icName ` set is \<inter> fst ` set (Interfaces d @ [(icName i, v)]) = {}" for v :: RouteInterface
    using Cons.prems by auto
  ultimately show ?case
    using Cons.prems(1) by (simp add: Cons.IH route_iface_def)
qed simp

lemma init_routes_eq: "init_routes rs d = d\<lparr>Table := fold static_hop rs (Table d)\<rparr>"
  by (induction rs d rule: init_routes.induct) simp_all

lemma init_listeners_eq:
  assumes "\<forall>i \<in> set is. listenUDP (icUDPAddr i) = Some (l i)"
    and "distinct (map icName is)" and "icName ` set is \<inter> fst ` set ls = {}"
  shows "init_listeners listenUDP (map (\<lambda>i. (icName i, route_iface i)) is) ls =
    (Some (ls @ map (\<lambda>i. (icName i, l i)) is), map (\<lambda>i. GoListen (icName i)) is)"
  using assms
proof (induction "is" arbitrary: ls)
  case (Cons i "is")
  have "mput (icName i) (l i) ls = ls @ [(icName i, l i)]"
    using Cons.prems(3) by (intro mput_new) auto
  moreover have "icName ` set is \<inter> fst ` set (ls @ [(icName i, l i)]) = {}"
    using Cons.prems(2,3) by auto
  ultimately show ?case
    using Cons.prems(1,2) Cons.IH [of "ls @ [(icName i, l i)]"] by (simp add: route_iface_def)
qed simp

text \<open>A request carries no routes, so it is sent whatever the table holds.\<close>

lemma SendRip_request_total:
  assumes "env_total E" "device_ok d"
  shows "\<exists>r es. SendRip E d Request router table = Some (r, es)"
proof -
  let ?one = "[(pfx4 0 0, \<lparr>hopAddr = V4 0, hopCost = 0\<rparr>)]"
  have "CreateRipPacket Request router table = CreateRipPacket Request router ?one"
    by (simp add: CreateRipPacket_def)
  then have "table \<noteq> [] \<Longrightarrow> SendRip E d Request router table = SendRip E d Request router ?one"
    by (simp add: SendRip_def)
  moreover have "\<exists>r es. SendRip E d Request router ?one = Some (r, es)"
    using assms by (intro SendRip_total) (auto simp: ipv4_prefix_def pfx4_def)
  ultimately show ?thesis by (cases "table = []") (auto simp: SendRip_def)
qed

lemma init_rip_total:
  assumes "env_total E" "device_ok d"
  shows "\<exists>cs es. init_rip E routers d = Some (d\<lparr>ripChannels := cs\<rparr>, es) \<and>
    fst ` set cs \<subseteq> fst ` set (ripChannels d) \<union> set routers"
  using assms(2)
proof (induction routers arbitrary: d)
  case Nil
  then show ?case by (intro exI [of _ "ripChannels d"]) simp
next
  case (Cons router routers)
  obtain r es where s: "SendRip E d Request router (Table d) = Some (r, es)"
    using SendRip_request_total [OF assms(1) Cons.prems] by blast
  let ?cs = "case r of Inl e \<Rightarrow> ripChannels d | Inr _ \<Rightarrow> mput router 0 (ripChannels d)"
  have k: "fst ` set ?cs \<subseteq> insert router (fst ` set (ripChannels d))"
    by (auto simp: keys_eq_dom gomap_simps split: sum.split if_splits)
  obtain cs es' where "init_rip E routers (d\<lparr>ripChannels := ?cs\<rparr>) = Some (d\<lparr>ripChannels := cs\<rparr>, es')"
    "fst ` set cs \<subseteq> fst ` set ?cs \<union> set routers"
    using Cons.IH [of "d\<lparr>ripChannels := ?cs\<rparr>"] Cons.prems by auto
  moreover from this(2) k have "fst ` set cs \<subseteq> fst ` set (ripChannels d) \<union> set (router # routers)" by auto
  ultimately show ?case
    using s by (cases r) (auto intro!: exI [of _ cs])
qed

section \<open>The routing table after start-up\<close>

lemma mget_local:
  "mget (fold local_hop is t) p = Some hop \<Longrightarrow>
   mget t p = Some hop \<or> (\<exists>i \<in> set is. Masked (AssignedPrefix i) = p \<and> hop = \<lparr>hopAddr = AssignedIP i, hopCost = 0\<rparr>)"
  by (induction "is" arbitrary: t) (fastforce simp: gomap_simps split: if_splits)+

lemma local_kept: "p \<in> dom (mget t) \<Longrightarrow> p \<in> dom (mget (fold local_hop is t))"
proof (induction "is" arbitrary: t)
  case (Cons i "is")
  then have "p \<in> dom (mget (local_hop i t))" by (auto simp: gomap_simps)
  with Cons.IH show ?case by simp
qed simp

lemma local_there: "i \<in> set is \<Longrightarrow> Masked (AssignedPrefix i) \<in> dom (mget (fold local_hop is t))"
proof (induction "is" arbitrary: t)
  case (Cons j "is")
  show ?case
  proof (cases "i \<in> set is")
    case False
    with Cons.prems have "i = j" by simp
    have "Masked (AssignedPrefix i) \<in> dom (mget (local_hop i t))" by (simp add: gomap_simps dom_def)
    with local_kept \<open>i = j\<close> show ?thesis by simp
  qed (use Cons.IH in simp)
qed simp

lemma wf_fold_put: "wf_map t \<Longrightarrow> wf_map (fold (\<lambda>x. mput (k x) (v x)) xs t)"
  by (induction xs arbitrary: t) auto

lemma mget_static:
  assumes "wf_map rs"
  shows "mget (fold static_hop rs t) p =
    (case mget rs p of Some a \<Rightarrow> Some \<lparr>hopAddr = a, hopCost = 0\<rparr> | None \<Rightarrow> mget t p)"
  using assms
proof (induction rs arbitrary: t)
  case (Cons r rs)
  then have "mget rs (fst r) = None" "wf_map rs" by (auto simp: wf_map_def map_of_eq_None_iff)
  with Cons.IH show ?case by (auto simp: gomap_simps split: option.split)
qed simp

section \<open>From the configuration to the device\<close>

lemma Initialize_ok:
  assumes "ParseConfig file = Ok cfg"
    and "''if0'' \<in> icName ` set (cfgInterfaces cfg)"
    and "ncInterfaceName ` set (cfgNeighbors cfg) \<subseteq> icName ` set (cfgInterfaces cfg)"
    and "distinct (map icName (cfgInterfaces cfg))"
    and "\<forall>p \<in> AssignedPrefix ` set (cfgInterfaces cfg) \<union> fst ` set (StaticRoutes cfg). ipv4_prefix p"
    and "\<forall>i \<in> set (cfgInterfaces cfg). listenUDP (icUDPAddr i) = Some (l i)" and "env_total E"
  shows "\<exists>d es. Initialize E listenUDP cfg = Some (Some d, es) \<and> device_ok d \<and> good_table (Table d) \<and>
    Interfaces d = map (\<lambda>i. (icName i, \<lparr>ifName = icName i, ifIp = AssignedIP i, ifPrefix = AssignedPrefix i,
        ifUdpPort = icUDPAddr i, ifIsUp = True\<rparr>)) (cfgInterfaces cfg) \<and>
    Listeners d = map (\<lambda>i. (icName i, l i)) (cfgInterfaces cfg) \<and>
    (\<forall>(p, a) \<in> set (StaticRoutes cfg). mget (Table d) p = Some \<lparr>hopAddr = a, hopCost = 0\<rparr>) \<and>
    (\<forall>i \<in> set (cfgInterfaces cfg). mget (Table d) (AssignedPrefix i) \<noteq> None) \<and>
    (\<forall>p hop. mget (Table d) p = Some hop \<longrightarrow> hopCost hop = 0 \<and>
       ((p, hopAddr hop) \<in> set (StaticRoutes cfg) \<or>
        (\<exists>i \<in> set (cfgInterfaces cfg). p = AssignedPrefix i \<and> hopAddr hop = AssignedIP i))) \<and>
    Handlers d = (if cfgRoutingMode cfg = RoutingTypeNone then [(testProtocol, HTest), (IpProtoTcp, HTcp)]
      else [(testProtocol, HTest), (ripProtocol, HRip)]) \<and>
    RipNeighbors d = cfgRipNeighbors cfg \<and>
    fst ` set (ripChannels d) \<subseteq> (if cfgRoutingMode cfg = RoutingTypeNone then {} else set (cfgRipNeighbors cfg)) \<and>
    (\<exists>req. es = map (\<lambda>i. GoListen (icName i)) (cfgInterfaces cfg) @
       (if cfgRoutingMode cfg = RoutingTypeNone then [] else req @ [GoRip]))"
proof -
  let ?ifs = "cfgInterfaces cfg" and ?rs = "StaticRoutes cfg" and ?router = "cfgRoutingMode cfg \<noteq> RoutingTypeNone"
  have ok: "config_ok cfg"
    using assms(1) parse_lines_ok config_ok_empty by (fastforce simp: ParseConfig_def split: option.splits)
  let ?table = "fold static_hop ?rs (fold local_hop ?ifs [])"
  let ?d = "\<lparr>Table = ?table, Neighbours = map (\<lambda>nei. \<lparr>neiInterfaceName = ncInterfaceName nei, neiIp = DestAddr nei,
        neiUdpPort = ncUDPAddr nei\<rparr>) (cfgNeighbors cfg),
      Interfaces = map (\<lambda>i. (icName i, route_iface i)) ?ifs, IsRouter = ?router, devRoutingMode = cfgRoutingMode cfg,
      RipNeighbors = cfgRipNeighbors cfg, ripChannels = [],
      Handlers = (if ?router then [(testProtocol, HTest), (ripProtocol, HRip)]
        else [(testProtocol, HTest), (IpProtoTcp, HTcp)]),
      Listeners = map (\<lambda>i. (icName i, l i)) ?ifs, ListenTable = [], ConnTable = [], connStore = [], lnStore = []\<rparr>"
  have wf: "wf_map ?table" by (intro wf_fold_put) simp
  have masked: "Masked (AssignedPrefix i) = AssignedPrefix i" if "i \<in> set ?ifs" for i
    using ok that by (auto simp: config_ok_def list_all_iff iface_ok_def)
  have wr: "wf_map ?rs" using ok by (simp add: config_ok_def)
  have entry: "hopCost hop = 0 \<and> ((p, hopAddr hop) \<in> set ?rs \<or> (\<exists>i \<in> set ?ifs. p = AssignedPrefix i \<and> hopAddr hop = AssignedIP i))"
    if "mget ?table p = Some hop" for p hop
    using that mget_local [of ?ifs "[]" p hop] masked mget_mem [of ?rs p]
    by (auto simp: mget_static [OF wr] split: option.splits)
  have local: "mget ?table (AssignedPrefix i) \<noteq> None" if "i \<in> set ?ifs" for i
    using local_there [OF that, of "[]"] masked [OF that] by (auto simp: mget_static [OF wr] split: option.splits)
  have static: "mget ?table p = Some \<lparr>hopAddr = a, hopCost = 0\<rparr>" if "(p, a) \<in> set ?rs" for p a
    using that by (simp add: mget_static [OF wr] wf_map_mem [OF wr])
  have good: "good_table ?table"
    unfolding good_table_def
  proof (intro conjI allI impI wf)
    fix p hop assume "mget ?table p = Some hop"
    from entry [OF this] assms(5) show "ipv4_prefix p" "hopCost hop < INFINITY"
      by (force, simp add: INFINITY_def)
  qed
  have dev: "device_ok ?d"
  proof -
    have "mget (map (\<lambda>i. (icName i, route_iface i)) ?ifs) n \<noteq> None \<longleftrightarrow> n \<in> icName ` set ?ifs" for n
      by (simp add: map_of_eq_None_iff image_image)
    with assms(2,3) show ?thesis by (auto simp: device_ok_def)
  qed
  have lis: "init_listeners listenUDP (map (\<lambda>i. (icName i, route_iface i)) ?ifs) [] =
      (Some (map (\<lambda>i. (icName i, l i)) ?ifs), map (\<lambda>i. GoListen (icName i)) ?ifs)"
    using init_listeners_eq [OF assms(6,4), of "[]"] by simp
  obtain cs req where rip: "init_rip E (cfgRipNeighbors cfg) ?d = Some (?d\<lparr>ripChannels := cs\<rparr>, req)"
    "fst ` set cs \<subseteq> set (cfgRipNeighbors cfg)"
    using init_rip_total [OF assms(7) dev, of "cfgRipNeighbors cfg"] by auto
  have "Initialize E listenUDP cfg = Some (Some (?d\<lparr>ripChannels := if ?router then cs else []\<rparr>),
      map (\<lambda>i. GoListen (icName i)) ?ifs @ (if ?router then req @ [GoRip] else []))"
    using rip(1) by (cases ?router) (simp_all add: Initialize_def Let_def init_interfaces_eq [OF assms(4)] init_routes_eq
        RegisterRecvHandler_def lis testProtocol_def ripProtocol_def IpProtoTcp_def)
  then show ?thesis
  proof (intro exI conjI)
    show "device_ok (?d\<lparr>ripChannels := if ?router then cs else []\<rparr>)"
      using dev by (simp add: device_ok_def)
    show "\<forall>p hop. mget (Table (?d\<lparr>ripChannels := if ?router then cs else []\<rparr>)) p = Some hop \<longrightarrow> hopCost hop = 0 \<and>
       ((p, hopAddr hop) \<in> set ?rs \<or> (\<exists>i \<in> set ?ifs. p = AssignedPrefix i \<and> hopAddr hop = AssignedIP i))"
      using entry by simp
    show "\<forall>(p, a) \<in> set ?rs. mget (Table (?d\<lparr>ripChannels := if ?router then cs else []\<rparr>)) p = Some \<lparr>hopAddr = a, hopCost = 0\<rparr>"
      using static by auto
    show "\<forall>i \<in> set ?ifs. mget (Table (?d\<lparr>ripChannels := if ?router then cs else []\<rparr>)) (AssignedPrefix i) \<noteq> None"
      using local by simp
    show "map (\<lambda>i. GoListen (icName i)) ?ifs @ (if ?router then req @ [GoRip] else []) =
        map (\<lambda>i. GoListen (icName i)) ?ifs @ (if cfgRoutingMode cfg = RoutingTypeNone then [] else req @ [GoRip])"
      by simp
  qed (use good rip(2) in \<open>simp_all add: route_iface_def\<close>)
qed


definition exConfig :: IPConfig where
  "exConfig = fold adds exDirectives emptyConfig"

lemma exConfig_parsed: "ParseConfig (Some (file_of (map render exDirectives))) = Ok exConfig"
  using parse_rendered [OF exDirectives_ok] scan_file [of "map render exDirectives"]
    well_ordered_lines [OF exDirectives_ok]
  by (simp add: ParseConfig_def exConfig_def)

lemma exConfig_simps:
  "map icName (cfgInterfaces exConfig) = [''if0'']" "map ncInterfaceName (cfgNeighbors exConfig) = [''if0'']"
  "\<forall>p \<in> AssignedPrefix ` set (cfgInterfaces exConfig) \<union> fst ` set (StaticRoutes exConfig). ipv4_prefix p"
  by (simp_all add: exConfig_def exDirectives_def emptyConfig_def ipv4_prefix_def Masked_def pfx_def Prefix_IsValid_def)


end
