(* ===== verification/SocketIds.thy ===== *)
theory SocketIds
  imports Sockets GoText
begin

text \<open>
  The numbers under which the command line of \<^verbatim>\<open>pkg/utils/utils.go\<close> shows sockets:
  the two maps of \<^verbatim>\<open>SocketIds\<close> and \<^verbatim>\<open>updataSocketIds\<close>, which brings them up to
  date with the tables of the device, and the look-ups by number.
\<close>

section \<open>The maps\<close>

record SocketIds =
  IdToSocketKey :: "(u64 \<times> SocketKey) list"
  SocketKeyToId :: "(SocketKey \<times> u64) list"

text \<open>The interface \<^verbatim>\<open>protocol.Socket\<close>: a listener or a connection, by reference.\<close>

datatype Socket = SListener nat | SConn nat

fun put_listener :: "SocketKey \<times> nat \<Rightarrow> (SocketKey \<times> Socket) list \<Rightarrow> (SocketKey \<times> Socket) list" where
  "put_listener (sk, r) allSockets = mput sk (SListener r) allSockets"

fun put_conn :: "SocketKey \<times> nat \<Rightarrow> (SocketKey \<times> Socket) list \<Rightarrow> (SocketKey \<times> Socket) list" where
  "put_conn (sk, r) allSockets = mput sk (SConn r) allSockets"

definition addAllSocketsToMap :: "Device \<Rightarrow> (SocketKey \<times> Socket) list \<Rightarrow> (SocketKey \<times> Socket) list" where
  "addAllSocketsToMap d allSockets =
     fold put_conn (ConnTable d) (fold put_listener (ListenTable d) allSockets)"

text \<open>
  The first loop.  What it deletes from the old maps does not matter: both are replaced at
  the end.
\<close>

type_synonym id_maps = "(u64 \<times> SocketKey) list \<times> (SocketKey \<times> u64) list"

fun keep_ids :: "(SocketKey \<times> Socket) list \<Rightarrow> (SocketKey \<times> u64) list \<Rightarrow> id_maps \<Rightarrow> id_maps" where
  "keep_ids allSockets [] maps = maps"
| "keep_ids allSockets ((sk, sid) # ids) (newIdToSocketKey, newSocketKeyToId) =
     keep_ids allSockets ids
       (if mget allSockets sk = None then (newIdToSocketKey, newSocketKeyToId)
        else (mput sid sk newIdToSocketKey, mput sk sid newSocketKeyToId))"

text \<open>The inner loop \<^verbatim>\<open>for newOk\<close>; \<open>None\<close> is a loop that does not end.\<close>

partial_function (option) free_id :: "(u64 \<times> SocketKey) list \<Rightarrow> u64 \<Rightarrow> u64 option" where
  "free_id newIdToSocketKey count =
     (if mget newIdToSocketKey count = None then Some count else free_id newIdToSocketKey (count + 1))"

fun add_ids :: "(SocketKey \<times> Socket) list \<Rightarrow> u64 \<Rightarrow> id_maps \<Rightarrow> id_maps option" where
  "add_ids [] count maps = Some maps"
| "add_ids ((sk, socket) # sockets) count (newIdToSocketKey, newSocketKeyToId) =
     (if mget newSocketKeyToId sk \<noteq> None
      then add_ids sockets (count + 1) (newIdToSocketKey, newSocketKeyToId)
      else do {
        sid \<leftarrow> free_id newIdToSocketKey count;
        add_ids sockets (sid + 1) (mput sid sk newIdToSocketKey, mput sk sid newSocketKeyToId)
      })"

definition updataSocketIds :: "Device \<Rightarrow> SocketIds \<Rightarrow> SocketIds option" where
  "updataSocketIds d socketIds =
     do {
       let allSockets = addAllSocketsToMap d [];
       (i, k) \<leftarrow> add_ids allSockets 0 (keep_ids allSockets (SocketKeyToId socketIds) ([], []));
       Some \<lparr>IdToSocketKey = i, SocketKeyToId = k\<rparr>
     }"

section \<open>Look-ups\<close>

datatype LookupError = ErrNumber | ErrSocketNotFound

text \<open>The conversion \<^verbatim>\<open>uint(socketId)\<close> wraps a negative number.\<close>

definition lookupKey :: "string \<Rightarrow> SocketIds \<Rightarrow> LookupError + SocketKey" where
  "lookupKey idStr socketIds =
     (case Atoi idStr of
        None \<Rightarrow> Inl ErrNumber
      | Some socketId \<Rightarrow>
          (case mget (IdToSocketKey socketIds) (word_of_int socketId) of
             None \<Rightarrow> Inl ErrSocketNotFound
           | Some socketKey \<Rightarrow> Inr socketKey))"

definition getSocket :: "string \<Rightarrow> Device \<Rightarrow> SocketIds \<Rightarrow> LookupError + nat" where
  "getSocket idStr d socketIds =
     (case lookupKey idStr socketIds of
        Inl e \<Rightarrow> Inl e
      | Inr socketKey \<Rightarrow>
          (case mget (ConnTable d) socketKey of None \<Rightarrow> Inl ErrSocketNotFound | Some r \<Rightarrow> Inr r))"

definition getListenSocket :: "string \<Rightarrow> Device \<Rightarrow> SocketIds \<Rightarrow> LookupError + nat" where
  "getListenSocket idStr d socketIds =
     (case lookupKey idStr socketIds of
        Inl e \<Rightarrow> Inl e
      | Inr socketKey \<Rightarrow>
          (case mget (ListenTable d) socketKey of None \<Rightarrow> Inl ErrSocketNotFound | Some r \<Rightarrow> Inr r))"

section \<open>All sockets\<close>

text \<open>Both loops over a table are keyed updates.\<close>

interpretation puts: keyed_update fst "\<lambda>kr _. Some (SListener (snd kr))" put_listener
  by unfold_locales (auto simp: gomap_simps)

interpretation putc: keyed_update fst "\<lambda>kr _. Some (SConn (snd kr))" put_conn
  by unfold_locales (auto simp: gomap_simps)

definition socket_keys :: "Device \<Rightarrow> SocketKey set" where
  "socket_keys d = fst ` set (ListenTable d) \<union> fst ` set (ConnTable d)"

lemma addAll_wf: "wf_map m \<Longrightarrow> wf_map (addAllSocketsToMap d m)"
  by (simp add: addAllSocketsToMap_def puts.loop_wf putc.loop_wf)

lemma fold_last: "xs \<noteq> [] \<Longrightarrow> fold (\<lambda>x _. Some (f x)) xs v = Some (f (last xs))"
  by (induction xs arbitrary: v) auto

lemma fold_Some: "fold (\<lambda>x _. Some (f x)) xs v = None \<longleftrightarrow> xs = [] \<and> v = None"
  by (cases "xs = []") (simp_all add: fold_last)

lemma addAll_keys: "fst ` set (addAllSocketsToMap d []) = socket_keys d"
proof -
  have "mget (addAllSocketsToMap d []) k = None \<longleftrightarrow> k \<notin> socket_keys d" for k
    by (auto simp: addAllSocketsToMap_def puts.loop_get putc.loop_get fold_Some filter_empty_conv
        socket_keys_def image_iff)
  then show ?thesis unfolding keys_eq_dom by (auto simp: dom_def)
qed

lemma addAll_size: "length (addAllSocketsToMap d []) \<le> length (ListenTable d) + length (ConnTable d)"
proof -
  have "length (addAllSocketsToMap d []) = card (fst ` set (addAllSocketsToMap d []))"
    using addAll_wf [of "[]" d] distinct_card [of "map fst (addAllSocketsToMap d [])"]
    by (simp add: wf_map_def)
  also have "\<dots> \<le> card (fst ` set (ListenTable d)) + card (fst ` set (ConnTable d))"
    unfolding addAll_keys socket_keys_def by (rule card_Un_le)
  also have "\<dots> \<le> length (ListenTable d) + length (ConnTable d)"
    using card_image_le [of "set (ListenTable d)" fst] card_image_le [of "set (ConnTable d)" fst]
      card_length [of "ListenTable d"] card_length [of "ConnTable d"]
    by (meson List.finite_set add_mono le_trans)
  finally show ?thesis .
qed

section \<open>Consistent maps\<close>

definition maps_ok :: "id_maps \<Rightarrow> bool" where
  "maps_ok m \<longleftrightarrow> wf_map (fst m) \<and> wf_map (snd m) \<and>
     (\<forall>sid sk. mget (fst m) sid = Some sk \<longleftrightarrow> mget (snd m) sk = Some sid)"

definition ids_ok :: "SocketIds \<Rightarrow> bool" where
  "ids_ok ids \<longleftrightarrow> maps_ok (IdToSocketKey ids, SocketKeyToId ids)"

lemma maps_ok_Nil [simp]: "maps_ok ([], [])"
  by (simp add: maps_ok_def)

lemma maps_ok_put:
  assumes "maps_ok (i, k)" "mget i sid = None" "mget k sk = None"
  shows "maps_ok (mput sid sk i, mput sk sid k)"
proof -
  have inv: "mget i s = Some x \<longleftrightarrow> mget k x = Some s" for s x
    using assms(1) by (simp add: maps_ok_def)
  with assms(2) have "mget k x \<noteq> Some sid" for x by (metis option.distinct(1))
  moreover from inv assms(3) have "mget i s \<noteq> Some sk" for s by simp
  ultimately show ?thesis
    using assms(1) inv by (simp add: maps_ok_def gomap_simps)
qed

lemma maps_ok_card:
  assumes "maps_ok (i, k)"
  shows "card (dom (mget i)) \<le> card (dom (mget k))"
proof -
  have "dom (mget i) \<subseteq> (\<lambda>sk. the (mget k sk)) ` dom (mget k)"
  proof
    fix sid assume "sid \<in> dom (mget i)"
    then obtain sk where "mget i sid = Some sk" by blast
    with assms have "mget k sk = Some sid" by (simp add: maps_ok_def)
    then show "sid \<in> (\<lambda>sk. the (mget k sk)) ` dom (mget k)" by (force simp: dom_def image_iff)
  qed
  then show ?thesis by (rule surj_card_le [OF finite_dom_map_of])
qed

text \<open>The search for a free number ends as long as not every number is taken.\<close>

lemma free_id_at:
  "mget m (count + of_nat n) = None \<Longrightarrow> (\<forall>j < n. mget m (count + of_nat j) \<noteq> None) \<Longrightarrow>
   free_id m count = Some (count + of_nat n)"
proof (induction n arbitrary: count)
  case 0
  then show ?case by (subst free_id.simps) simp
next
  case (Suc n)
  have "free_id m (count + 1) = Some (count + 1 + of_nat n)"
  proof (rule Suc.IH)
    show "mget m (count + 1 + of_nat n) = None" using Suc.prems(1) by (simp add: add_ac)
    show "\<forall>j < n. mget m (count + 1 + of_nat j) \<noteq> None"
      using Suc.prems(2) by (metis Suc_less_eq add.assoc of_nat_Suc add.commute)
  qed
  moreover have "mget m (count + of_nat 0) \<noteq> None" using Suc.prems(2) by blast
  then obtain y where "mget m count = Some y" by auto
  ultimately show ?case by (subst free_id.simps) (simp add: add_ac)
qed

lemma free_id_total:
  assumes "card (dom (mget m)) < 2 ^ 64"
  shows "\<exists>sid. free_id m count = Some sid \<and> mget m sid = None"
proof -
  have "\<exists>n. mget m (count + of_nat n) = None"
  proof (rule ccontr)
    assume "\<not> (\<exists>n. mget m (count + of_nat n) = None)"
    then have all: "mget m (count + of_nat n) \<noteq> None" for n by auto
    have "mget m w \<noteq> None" for w
      using all [of "unat (w - count)"] by simp
    then have "dom (mget m) = UNIV" by auto
    then have "card (dom (mget m)) = 2 ^ 64" by (simp add: card_word)
    then show False using assms by simp
  qed
  then obtain n where "mget m (count + of_nat n) = None" "\<forall>j < n. mget m (count + of_nat j) \<noteq> None"
    using exists_least_iff [of "\<lambda>n. mget m (count + of_nat n) = None"] by auto
  then have "free_id m count = Some (count + of_nat n)" by (rule free_id_at)
  then show ?thesis using \<open>mget m (count + of_nat n) = None\<close> by simp
qed

section \<open>Bringing the maps up to date\<close>

lemma keep_ids_ok:
  assumes "maps_ok (i, k)" "distinct (map fst ids)" "distinct (map snd ids)"
    and "\<forall>(sk, sid) \<in> set ids. mget k sk = None \<and> mget i sid = None"
  shows "maps_ok (keep_ids all ids (i, k)) \<and>
    mget (snd (keep_ids all ids (i, k))) sk =
      (if mget all sk \<noteq> None \<and> mget ids sk \<noteq> None then mget ids sk else mget k sk)"
  using assms
proof (induction ids arbitrary: i k)
  case Nil
  then show ?case by simp
next
  case (Cons x ids)
  obtain a s where x: "x = (a, s)" by (cases x)
  have fresh: "a \<notin> fst ` set ids" "s \<notin> snd ` set ids" using Cons.prems(2,3) by (simp_all add: x)
  show ?case
  proof (cases "mget all a = None")
    case True
    with Cons show ?thesis by (auto simp: x)
  next
    case False
    let ?i = "mput s a i" and ?k = "mput a s k"
    have "maps_ok (?i, ?k)"
      using Cons.prems(1,4) by (intro maps_ok_put) (simp_all add: x)
    moreover have "\<forall>(sk, sid) \<in> set ids. mget ?k sk = None \<and> mget ?i sid = None"
      using Cons.prems(4) fresh by (force simp: x gomap_simps)
    ultimately have IH: "maps_ok (keep_ids all ids (?i, ?k)) \<and>
        mget (snd (keep_ids all ids (?i, ?k))) sk =
          (if mget all sk \<noteq> None \<and> mget ids sk \<noteq> None then mget ids sk else mget ?k sk)"
      using Cons.prems(2,3) by (intro Cons.IH) (simp_all add: x)
    from fresh(1) have "mget ids a = None" by (simp add: map_of_eq_None_iff)
    with IH False show ?thesis by (auto simp: x gomap_simps)
  qed
qed

lemma add_ids_ok:
  assumes "maps_ok (i, k)" "distinct (map fst all)" "card (dom (mget k) \<union> fst ` set all) < 2 ^ 64"
  shows "\<exists>i' k'. add_ids all count (i, k) = Some (i', k') \<and> maps_ok (i', k') \<and>
    dom (mget k') = dom (mget k) \<union> fst ` set all \<and> map_of k \<subseteq>\<^sub>m map_of k'"
  using assms
proof (induction all arbitrary: i k count)
  case Nil
  then show ?case by simp
next
  case (Cons x all)
  obtain sk v where x: "x = (sk, v)" by (cases x)
  show ?case
  proof (cases "mget k sk")
    case (Some sid)
    then have "dom (mget k) \<union> fst ` set (x # all) = dom (mget k) \<union> fst ` set all" by (auto simp: x)
    with Cons Some show ?thesis by (simp add: x)
  next
    case None
    have "card (dom (mget k)) \<le> card (dom (mget k) \<union> fst ` set (x # all))"
      by (intro card_mono) (auto simp: finite_dom_map_of)
    with maps_ok_card [OF Cons.prems(1)] Cons.prems(3) have "card (dom (mget i)) < 2 ^ 64" by linarith
    from free_id_total [OF this] obtain sid where sid: "free_id i count = Some sid" "mget i sid = None" by blast
    let ?i = "mput sid sk i" and ?k = "mput sk sid k"
    have ok: "maps_ok (?i, ?k)" using Cons.prems(1) sid(2) None by (rule maps_ok_put)
    have d: "dom (mget ?k) \<union> fst ` set all = dom (mget k) \<union> fst ` set (x # all)"
      by (auto simp: x gomap_simps dom_def)
    obtain i' k' where r: "add_ids all (sid + 1) (?i, ?k) = Some (i', k')" "maps_ok (i', k')"
      "dom (mget k') = dom (mget ?k) \<union> fst ` set all" "map_of ?k \<subseteq>\<^sub>m map_of k'"
    proof -
      have "distinct (map fst all)" using Cons.prems(2) by simp
      moreover have "card (dom (mget ?k) \<union> fst ` set all) < 2 ^ 64" using Cons.prems(3) by (simp only: d)
      ultimately show thesis using Cons.IH [OF ok] that d by blast
    qed
    have "map_of k \<subseteq>\<^sub>m map_of ?k" using None by (auto simp: map_le_def gomap_simps)
    with r(4) have "map_of k \<subseteq>\<^sub>m map_of k'" by (rule map_le_trans [rotated])
    with r d None sid(1) show ?thesis by (simp add: x)
  qed
qed

lemma updataSocketIds_consistent_aux:
  assumes "ids_ok ids" and "length (ListenTable d) + length (ConnTable d) < 2 ^ 64"
  shows "\<exists>ids'. updataSocketIds d ids = Some ids' \<and> ids_ok ids' \<and>
    dom (mget (SocketKeyToId ids')) = socket_keys d \<and>
    (\<forall>sk \<in> socket_keys d. \<forall>sid. mget (SocketKeyToId ids) sk = Some sid \<longrightarrow>
       mget (SocketKeyToId ids') sk = Some sid)"
proof -
  let ?all = "addAllSocketsToMap d []" and ?old = "SocketKeyToId ids"
  have inv: "mget (IdToSocketKey ids) s = Some x \<longleftrightarrow> mget ?old x = Some s" for s x
    using assms(1) by (simp add: ids_ok_def maps_ok_def)
  have wf: "wf_map ?old" using assms(1) by (simp add: ids_ok_def maps_ok_def)
  have "inj_on snd (set ?old)"
  proof (rule inj_onI)
    fix p q assume "p \<in> set ?old" "q \<in> set ?old" "snd p = snd q"
    with wf inv show "p = q" by (metis option.inject prod.collapse wf_map_mem)
  qed
  moreover have "distinct ?old" using wf by (auto simp: wf_map_def distinct_map)
  ultimately have ds: "distinct (map snd ?old)" by (simp add: distinct_map)
  obtain i k where keep: "keep_ids ?all ?old ([], []) = (i, k)" by (cases "keep_ids ?all ?old ([], [])")
  have k: "maps_ok (i, k)" "mget k sk = (if mget ?all sk \<noteq> None \<and> mget ?old sk \<noteq> None then mget ?old sk else None)" for sk
    using keep_ids_ok [of "[]" "[]" ?old ?all sk] wf ds keep by (simp_all add: wf_map_def)
  have all: "mget ?all sk \<noteq> None \<longleftrightarrow> sk \<in> socket_keys d" for sk
    using addAll_keys [of d] keys_eq_dom [of ?all] by auto
  have dk: "dom (mget k) \<union> fst ` set ?all = socket_keys d"
    using all by (auto simp: addAll_keys k(2) split: if_splits)
  have da: "distinct (map fst ?all)" using addAll_wf [of "[]" d] by (simp add: wf_map_def)
  have "card (socket_keys d) \<le> length ?all"
    using card_length [of "map fst ?all"] by (simp add: addAll_keys)
  with addAll_size [of d] assms(2) have "card (dom (mget k) \<union> fst ` set ?all) < 2 ^ 64"
    unfolding dk by linarith
  from add_ids_ok [OF k(1) da this, of 0] obtain i' k' where
    r: "add_ids ?all 0 (i, k) = Some (i', k')" "maps_ok (i', k')" "dom (mget k') = socket_keys d"
      "map_of k \<subseteq>\<^sub>m map_of k'" unfolding dk by blast
  have "mget k' sk = Some sid" if "sk \<in> socket_keys d" "mget ?old sk = Some sid" for sk sid
  proof -
    from that all have "mget k sk = Some sid" by (simp add: k(2))
    with r(4) show ?thesis by (metis domI map_le_def)
  qed
  with r keep show ?thesis by (auto simp: updataSocketIds_def ids_ok_def)
qed

text \<open>
  C22: the socket numbers stay a bijection.  From consistent maps, \<^verbatim>\<open>updataSocketIds\<close>
  returns (its search for a free number ends), the new maps are inverse to each other,
  they number exactly the sockets in the two tables of the device, and a socket that had a
  number keeps it.
\<close>

theorem updataSocketIds_consistent:
  assumes "ids_ok ids" and "length (ListenTable d) + length (ConnTable d) < 2 ^ 64"
  shows "\<exists>ids'. updataSocketIds d ids = Some ids' \<and> ids_ok ids' \<and>
    dom (mget (SocketKeyToId ids')) = socket_keys d \<and>
    (\<forall>sk \<in> socket_keys d. \<forall>sid. mget (SocketKeyToId ids) sk = Some sid \<longrightarrow>
       mget (SocketKeyToId ids') sk = Some sid)"
  using updataSocketIds_consistent_aux [OF assms] .

theorem updataSocketIds_consistent_witness:
  "\<exists>ids'. updataSocketIds exDevice \<lparr>IdToSocketKey = [], SocketKeyToId = []\<rparr> = Some ids' \<and> ids_ok ids' \<and>
    dom (mget (SocketKeyToId ids')) = socket_keys exDevice \<and>
    (\<forall>sk \<in> socket_keys exDevice. \<forall>sid. mget (SocketKeyToId \<lparr>IdToSocketKey = [], SocketKeyToId = []\<rparr>) sk = Some sid \<longrightarrow>
       mget (SocketKeyToId ids') sk = Some sid)"
  by (rule updataSocketIds_consistent) (simp_all add: ids_ok_def exDevice_def)

end
