(* ===== verification/Repl.thy ===== *)
theory Repl
  imports SocketIds Streams "HOL-Library.List_Lexorder" "HOL-Library.Char_ord"
begin

text \<open>
  The command line of \<^verbatim>\<open>pkg/utils/utils.go\<close>: one definition per command, and the
  loop that reads a line and runs its command.  What is printed is a list of items (the
  layout in columns is left to the terminal), and a goroutine a command starts is one of
  them.  A command that waits for a connection to open says so and goes on in a second
  definition; \<open>None\<close> is a panic, or a wait in a call on the socket.
\<close>

section \<open>State and results\<close>

datatype repl_error =
  NumberError | AddrError | LookupErr LookupError | SocketErr SocketError |
  CloseErr CloseError | FileError

datatype goroutine = GoListenPort "string list" | GoSendFile "string list"

datatype item =
  Line string
| Columns "string list"
| ErrorLine "repl_error option"
| NotFound string
| SentBytes int
| WroteBytes int
| ReadBytes nat "byte list"
| SentTotal int
| CreatedListen u64
| CreatedSocket u64
| NewConnection u64 u64
| IfaceRow string Addr int string
| NeighbourRow string Addr AddrPort
| RouteRow string Prefix "Addr + string" u32
| SocketRow u64 AddrPort AddrPort string
| RipLine u16 u16
| RipRow u32 Prefix
| Started goroutine

record rst =
  rdev :: Device
  rids :: SocketIds
  rout :: "item list"
  reff :: "effect list"

text \<open>
  What a command takes from outside: the libraries, what the calls on a socket observe, the
  random numbers drawn, what other goroutines do between the rounds of a write, and the
  files of the system.
\<close>

record renv =
  rE :: env
  rObs :: obs
  rRndPort :: u32
  rRnd :: u32
  rOthers :: "(cst \<Rightarrow> cst) list"
  rFiles :: "string \<Rightarrow> byte list option"

datatype cmd_result = Done rst | WaitConnect nat rst | Exited

type_synonym Command = "renv \<Rightarrow> string list \<Rightarrow> rst \<Rightarrow> cmd_result option"

definition say :: "item \<Rightarrow> rst \<Rightarrow> rst" where
  "say x s = s\<lparr>rout := rout s @ [x]\<rparr>"

definition bytes_of :: "string \<Rightarrow> byte list" where
  "bytes_of s = map of_char s"

text \<open>A method of the connection with a reference, and the update of the numbers.\<close>

definition callConn :: "(cst \<Rightarrow> ('r \<times> cst) option) \<Rightarrow> nat \<Rightarrow> renv \<Rightarrow> rst \<Rightarrow> ('r \<times> rst) option" where
  "callConn f r R s =
     do {
       (x, d, es) \<leftarrow> onConn f r (rObs R) (rdev s);
       Some (x, s\<lparr>rdev := d, reff := reff s @ es\<rparr>)
     }"

definition updateIds :: "rst \<Rightarrow> rst option" where
  "updateIds s = map_option (\<lambda>i. s\<lparr>rids := i\<rparr>) (updataSocketIds (rdev s) (rids s))"

definition idOf :: "rst \<Rightarrow> SocketKey \<Rightarrow> u64" where
  "idOf s sk = (case mget (SocketKeyToId (rids s)) sk of None \<Rightarrow> 0 | Some i \<Rightarrow> i)"

definition connKey :: "Device \<Rightarrow> nat \<Rightarrow> SocketKey option" where
  "connKey d r = map_option SocketKeyFromConn (mget (connStore d) r)"

section \<open>Interfaces, neighbours and routes\<close>

definition Exit :: Command where
  "Exit R args s = Some Exited"

definition ListInterfaces :: Command where
  "ListInterfaces R args s =
     Some (Done (s\<lparr>rout := rout s @ Columns [''Name'', ''Addr/Prefix'', ''State''] #
       map (\<lambda>(name, intf). IfaceRow name (ifIp intf) (pfxBits (ifPrefix intf)) (if ifIsUp intf then ''up'' else ''down''))
         (Interfaces (rdev s))\<rparr>))"

definition ListNeighbours :: Command where
  "ListNeighbours R args s =
     Some (Done (s\<lparr>rout := rout s @ Columns [''Iface'', ''VIP'', ''UDPAddr''] #
       map (\<lambda>n. NeighbourRow (neiInterfaceName n) (neiIp n) (neiUdpPort n)) (Neighbours (rdev s))\<rparr>))"

fun local_names :: "Prefix \<Rightarrow> (string \<times> RouteInterface) list \<Rightarrow> string \<Rightarrow> string" where
  "local_names pre [] addr = addr"
| "local_names pre ((iface, intf) # interfaces) addr =
     local_names pre interfaces (if ifPrefix intf = pre then addr @ iface else addr)"

definition route_row :: "Device \<Rightarrow> Prefix \<times> Hop \<Rightarrow> item" where
  "route_row d ph =
     (case ph of (pre, hop) \<Rightarrow>
        if pfxBits pre = 0 then RouteRow ''S'' pre (Inl (hopAddr hop)) (hopCost hop)
        else if hopCost hop = 0
        then RouteRow ''L'' pre (Inr (local_names pre (Interfaces d) ''LOCAL:'')) (hopCost hop)
        else RouteRow ''R'' pre (Inl (hopAddr hop)) (hopCost hop))"

definition ListRoutes :: Command where
  "ListRoutes R args s =
     Some (Done (s\<lparr>rout := rout s @ Columns [''T'', ''Prefix'', ''Next hop'', ''Cost''] #
       map (route_row (rdev s)) (Table (rdev s))\<rparr>))"

definition setInterface :: "bool \<Rightarrow> string \<Rightarrow> Device \<Rightarrow> Device" where
  "setInterface up name d =
     (case mget (Interfaces d) name of
        None \<Rightarrow> d
      | Some intf \<Rightarrow> d\<lparr>Interfaces := mput name (intf\<lparr>ifIsUp := up\<rparr>) (Interfaces d)\<rparr>)"

definition UpInterface :: Command where
  "UpInterface R args s =
     (case args of
        [] \<Rightarrow> Some (Done (say (Line ''up <ifname>'') s))
      | name # _ \<Rightarrow> Some (Done (s\<lparr>rdev := setInterface True name (rdev s)\<rparr>)))"

definition DownInterface :: Command where
  "DownInterface R args s =
     (case args of
        [] \<Rightarrow> Some (Done (say (Line ''up <ifname>'') s))
      | name # _ \<Rightarrow> Some (Done (s\<lparr>rdev := setInterface False name (rdev s)\<rparr>)))"

section \<open>Packets\<close>

definition SendMessage :: Command where
  "SendMessage R args s =
     (if length args < 2 then Some (Done (say (Line ''send <addr> <message>'') s))
      else case ParseAddr (args ! 0) of
        None \<Rightarrow> Some (Done (say (ErrorLine (Some AddrError)) s))
      | Some addrIp \<Rightarrow>
          do {
            (r, es) \<leftarrow> SendIP (rE R) (rdev s) addrIp 0 (slice_of (bytes_of (args ! 1)));
            Some (Done (say (SentBytes (case r of Inl _ \<Rightarrow> 0 | Inr n \<Rightarrow> n)) (s\<lparr>reff := reff s @ es\<rparr>)))
          })"

definition header_items :: "RipHeader \<Rightarrow> item list" where
  "header_items h =
     (case PrintHeader h of
        ((command, num), rows) \<Rightarrow> Line [] # RipLine command num # map (\<lambda>(cost, test). RipRow cost test) rows)"

definition SendTestRip :: Command where
  "SendTestRip R args s =
     (if length args < 1 then Some (Done (say (Line ''usage: a <port>'') s))
      else case ParseAddr (args ! 0) of
        None \<Rightarrow> Some (Done (say (SentBytes 0) s))
      | Some addrIp \<Rightarrow>
          do {
            hr \<leftarrow> CreateRipPacket 2 addrIp (Table (rdev s));
            case hr of
              Inl e \<Rightarrow> Some (Done (say (SentBytes 0) s))
            | Inr h \<Rightarrow>
                let s = s\<lparr>rout := rout s @ header_items h\<rparr>
                in (case Marshal (Some h) of
                   Panic \<Rightarrow> None
                 | Err e \<Rightarrow> Some (Done (say (SentBytes 0) s))
                 | Ok bs \<Rightarrow>
                     do {
                       (r, es) \<leftarrow> SendIP (rE R) (rdev s) addrIp 200 (slice_of bs);
                       Some (Done (say (SentBytes (case r of Inl _ \<Rightarrow> 0 | Inr n \<Rightarrow> n)) (s\<lparr>reff := reff s @ es\<rparr>)))
                     })
          })"

section \<open>Listening and connecting\<close>

definition ListenPort :: Command where
  "ListenPort R args s = Some (Done (say (Started (GoListenPort args)) s))"

text \<open>
  The goroutine up to its loop, with the listener it goes on to accept from; and one round
  of the loop after \<^verbatim>\<open>VAccept\<close> has returned the connection \<open>r\<close> (an error only starts the
  next round).
\<close>

definition listenPort :: "string list \<Rightarrow> rst \<Rightarrow> ((nat \<times> u64) option \<times> rst) option" where
  "listenPort args s =
     (if length args < 1 then Some (None, say (Line ''a <port>'') s)
      else case Atoi (args ! 0) of
        None \<Rightarrow> Some (None, say (ErrorLine (Some NumberError)) s)
      | Some port \<Rightarrow>
          (case VListen (word_of_int port) (rdev s) of
             (Inl e, d) \<Rightarrow> Some (None, say (ErrorLine (Some (SocketErr e))) (s\<lparr>rdev := d\<rparr>))
           | (Inr r, d) \<Rightarrow>
               do {
                 s \<leftarrow> updateIds (s\<lparr>rdev := d\<rparr>);
                 lis \<leftarrow> mget (lnStore d) r;
                 let sid = idOf s (SocketKeyFromListener lis);
                 Some (Some (r, sid), say (CreatedListen sid) s)
               }))"

definition listenPort_accepted :: "u64 \<Rightarrow> nat \<Rightarrow> rst \<Rightarrow> rst option" where
  "listenPort_accepted sid r s =
     do {
       s \<leftarrow> updateIds s;
       sk \<leftarrow> connKey (rdev s) r;
       Some (say (NewConnection sid (idOf s sk)) s)
     }"

definition connect_start :: "Addr \<Rightarrow> int \<Rightarrow> renv \<Rightarrow> rst \<Rightarrow> cmd_result option" where
  "connect_start addrIp port R s =
     do {
       (r, d, es) \<leftarrow> VConnect_syn (rE R) (rObs R) (rRndPort R) (rRnd R) addrIp (word_of_int port) (rdev s);
       let s = s\<lparr>rdev := d, reff := reff s @ es\<rparr>;
       case r of
         Inl e \<Rightarrow> Some (Done (say (ErrorLine (Some (SocketErr e))) s))
       | Inr r \<Rightarrow> Some (WaitConnect r s)
     }"

definition ConnectPort :: Command where
  "ConnectPort R args s =
     (if length args < 2 then Some (Done (say (Line ''usage: c <vip> <port>'') s))
      else case (ParseAddr (args ! 0), Atoi (args ! 1)) of
        (None, _) \<Rightarrow> Some (Done (say (ErrorLine (Some AddrError)) s))
      | (Some _, None) \<Rightarrow> Some (Done (say (ErrorLine (Some NumberError)) s))
      | (Some addrIp, Some port) \<Rightarrow> connect_start addrIp port R s)"

definition ConnectPort_finish :: "(nat \<Rightarrow> bool) \<Rightarrow> nat \<Rightarrow> renv \<Rightarrow> rst \<Rightarrow> rst option" where
  "ConnectPort_finish signalled r R s =
     do {
       (x, d) \<leftarrow> open_finish signalled r (rObs R) (rdev s);
       let s = s\<lparr>rdev := d\<rparr>;
       case x of
         Inl e \<Rightarrow> Some (say (ErrorLine (Some (SocketErr e))) s)
       | Inr r \<Rightarrow>
           do {
             s \<leftarrow> updateIds s;
             sk \<leftarrow> connKey (rdev s) r;
             Some (say (CreatedSocket (idOf s sk)) s)
           }
     }"

section \<open>The list of sockets\<close>

fun socket_row :: "Device \<Rightarrow> u64 \<Rightarrow> Socket \<Rightarrow> item option" where
  "socket_row d sid (SListener r) =
     map_option (\<lambda>lis. SocketRow sid (lnLocalAddr lis) (lnRemoteAddr lis) (GetSocketStatusStr (lnStatus lis)))
       (mget (lnStore d) r)"
| "socket_row d sid (SConn r) =
     map_option (\<lambda>c. SocketRow sid (localAddr c) (remoteAddr c) (GetSocketStatusStr (status c)))
       (mget (connStore d) r)"

text \<open>A key in neither table leaves a nil socket, on which the next call panics.\<close>

definition find_socket :: "Device \<Rightarrow> SocketKey \<Rightarrow> Socket option" where
  "find_socket d sk =
     (case mget (ListenTable d) sk of
        Some r \<Rightarrow> Some (SListener r)
      | None \<Rightarrow> map_option SConn (mget (ConnTable d) sk))"

definition socket_line :: "rst \<Rightarrow> u64 \<Rightarrow> item option" where
  "socket_line s sid =
     do {
       sk \<leftarrow> mget (IdToSocketKey (rids s)) sid;
       socket \<leftarrow> find_socket (rdev s) sk;
       socket_row (rdev s) sid socket
     }"

definition ListSockets :: Command where
  "ListSockets R args s =
     do {
       s \<leftarrow> updateIds s;
       let keys = sort (map fst (IdToSocketKey (rids s)));
       rows \<leftarrow> those (map (socket_line s) keys);
       Some (Done (s\<lparr>rout := rout s @ Columns [''SID'', ''LAddr'', ''LPort'', ''RAddr'', ''RPort'', ''Status''] # rows\<rparr>))
     }"

section \<open>Data\<close>

definition SendTcp_cmd :: Command where
  "SendTcp_cmd R args s =
     (if length args < 2 then Some (Done (say (Line ''usage: s <socket ID> <bytes>'') s))
      else case getSocket (args ! 0) (rdev s) (rids s) of
        Inl e \<Rightarrow> Some (Done (say (ErrorLine (Some (LookupErr e))) s))
      | Inr r \<Rightarrow>
          do {
            ((n, err), s) \<leftarrow> callConn (VWrite (rE R) (rOthers R) (slice_of (bytes_of (args ! 1)))) r R s;
            Some (Done (case err of
                          Some e \<Rightarrow> say (ErrorLine (Some (CloseErr e))) s
                        | None \<Rightarrow> say (WroteBytes n) s))
          })"

text \<open>A negative number of bytes panics in \<^verbatim>\<open>make\<close>.\<close>

definition ReceiveTcp :: Command where
  "ReceiveTcp R args s =
     (if length args < 2 then Some (Done (say (Line ''usage: r <socketID> <numbytes>'') s))
      else case getSocket (args ! 0) (rdev s) (rids s) of
        Inl e \<Rightarrow> Some (Done (say (ErrorLine (Some (LookupErr e))) s))
      | Inr r \<Rightarrow>
          (case Atoi (args ! 1) of
             None \<Rightarrow> Some (Done (say (ErrorLine (Some NumberError)) s))
           | Some numBytes \<Rightarrow>
               if numBytes < 0 then None
               else do {
                 ((n, err, buf), s) \<leftarrow> callConn
                   (\<lambda>s. map_option (\<lambda>(x, c). (x, s\<lparr>conn := c\<rparr>)) (VRead (nat numBytes) (conn s))) r R s;
                 Some (Done (case err of
                               Some e \<Rightarrow> say (ErrorLine (Some (CloseErr e))) s
                             | None \<Rightarrow> say (ReadBytes n buf) s))
               }))"

section \<open>Closing\<close>

text \<open>The second half, which runs after a connection was closed too; \<open>err\<close> is the first error.\<close>

definition close_listener :: "string \<Rightarrow> repl_error option \<Rightarrow> rst \<Rightarrow> cmd_result option" where
  "close_listener idStr err s =
     (case getListenSocket idStr (rdev s) (rids s) of
        Inr r \<Rightarrow>
          do {
            d \<leftarrow> VCloseListener r (rdev s);
            s \<leftarrow> updateIds (s\<lparr>rdev := d\<rparr>);
            Some (Done s)
          }
      | Inl _ \<Rightarrow> Some (Done (if err = None then s else say (ErrorLine err) s)))"

definition CloseSocket :: Command where
  "CloseSocket R args s =
     (if length args < 1 then Some (Done (say (Line ''usage: cl <socket ID>'') s))
      else case getSocket (args ! 0) (rdev s) (rids s) of
        Inl e \<Rightarrow> close_listener (args ! 0) (Some (LookupErr e)) s
      | Inr r \<Rightarrow>
          do {
            (err, s) \<leftarrow> callConn (VClose (rE R)) r R s;
            case err of
              Some e \<Rightarrow> Some (Done (say (ErrorLine (Some (CloseErr e))) s))
            | None \<Rightarrow> do { s \<leftarrow> updateIds s; close_listener (args ! 0) None s }
          })"

section \<open>Sending a file\<close>

definition SendFile :: Command where
  "SendFile R args s =
     Some (Done (if length args < 3 then say (Line ''usage: sf <file path> <addr> <port>'') s
                 else say (Started (GoSendFile args)) s))"

text \<open>
  The goroutine up to its wait in \<^verbatim>\<open>VConnect\<close>, and from there.  The last error it prints
  is the one of the write, which is nil.
\<close>

definition sendFile :: Command where
  "sendFile R args s =
     (case (ParseAddr (args ! 1), Atoi (args ! 2)) of
        (None, _) \<Rightarrow> Some (Done (say (ErrorLine (Some AddrError)) s))
      | (Some _, None) \<Rightarrow> Some (Done (say (ErrorLine (Some NumberError)) s))
      | (Some addrIp, Some port) \<Rightarrow> connect_start addrIp port R s)"

definition sendFile_finish :: "(nat \<Rightarrow> bool) \<Rightarrow> string list \<Rightarrow> nat \<Rightarrow> renv \<Rightarrow> rst \<Rightarrow> rst option" where
  "sendFile_finish signalled args r R s =
     do {
       (x, d) \<leftarrow> open_finish signalled r (rObs R) (rdev s);
       let s = s\<lparr>rdev := d\<rparr>;
       case x of
         Inl e \<Rightarrow> Some (say (ErrorLine (Some (SocketErr e))) s)
       | Inr r \<Rightarrow>
           (case rFiles R (args ! 0) of
              None \<Rightarrow> Some (say (ErrorLine (Some FileError)) s)
            | Some payload \<Rightarrow>
                do {
                  ((n, err), s) \<leftarrow> callConn (VWrite (rE R) (rOthers R) (slice_of payload)) r R
                    (say (Line ''sending'') s);
                  case err of
                    Some e \<Rightarrow> Some (say (ErrorLine (Some (CloseErr e))) s)
                  | None \<Rightarrow>
                      do {
                        (err, s) \<leftarrow> callConn (VClose (rE R)) r R (say (SentTotal n) (say (Line ''sent'') s));
                        Some (if err \<noteq> None then say (ErrorLine None) s else s)
                      }
                })
     }"

section \<open>The loop\<close>

text \<open>\<^verbatim>\<open>initialize\<close>; of the two entries for \<^verbatim>\<open>lr\<close> the second one stays.\<close>

definition commandMap :: "(string \<times> Command) list" where
  "commandMap =
     [(''exit'', Exit), (''li'', ListInterfaces), (''ln'', ListNeighbours), (''lr'', ListRoutes),
      (''up'', UpInterface), (''down'', DownInterface), (''send'', SendMessage), (''rip'', SendTestRip),
      (''a'', ListenPort), (''c'', ConnectPort), (''ls'', ListSockets), (''s'', SendTcp_cmd),
      (''r'', ReceiveTcp), (''cl'', CloseSocket), (''sf'', SendFile)]"

definition sortedKeys :: "string list" where
  "sortedKeys = sort (map fst commandMap)"

definition trim_newlines :: "string \<Rightarrow> string" where
  "trim_newlines text =
     rev (dropWhile (\<lambda>c. c = CHR 0x0A) (rev (dropWhile (\<lambda>c. c = CHR 0x0A) text)))"

text \<open>
  One round of the loop with the text that was read, which at the end of the input is
  empty: the error of the read is not looked at.
\<close>

definition repl_step :: "renv \<Rightarrow> string \<Rightarrow> rst \<Rightarrow> cmd_result option" where
  "repl_step R text s =
     (let text = trim_newlines text;
          args = split_on CHR '' '' text
      in if text = [] then Some (Done (s\<lparr>rout := rout s @ map Line sortedKeys\<rparr>))
         else case mget commandMap (hd args) of
                Some command \<Rightarrow> command R (tl args) s
              | None \<Rightarrow> Some (Done (say (NotFound (hd args)) s)))"

definition initIds :: SocketIds where
  "initIds = \<lparr>IdToSocketKey = [], SocketKeyToId = []\<rparr>"

section \<open>Interfaces that are down\<close>

lemma mput_self: "mget m k = Some v \<Longrightarrow> mput k v m = m"
  by (induction m) (auto split: if_splits)

lemma setInterface_get:
  "mget (Interfaces d) name = Some intf \<Longrightarrow>
   mget (Interfaces (setInterface up name d)) j =
     (if j = name then Some (intf\<lparr>ifIsUp := up\<rparr>) else mget (Interfaces d) j)"
  by (simp add: setInterface_def gomap_simps)

lemma setInterface_same [simp]:
  "Table (setInterface up name d) = Table d" "Neighbours (setInterface up name d) = Neighbours d"
  by (simp_all add: setInterface_def split: option.split)

lemma setInterface_findIp [simp]: "findIp (setInterface up name d) dst = findIp d dst"
  unfolding findIp_def getDstPrefix_def next_hop_def setInterface_same ..


definition exRepl :: rst where
  "exRepl = \<lparr>rdev = exDevice, rids = initIds, rout = [], reff = []\<rparr>"

definition exRenv :: renv where
  "exRenv = \<lparr>rE = exEnv, rObs = \<lparr>obNow = 0, obEarly = False, obHeard = False\<rparr>, rRndPort = 0, rRnd = 0,
     rOthers = [], rFiles = (\<lambda>_. None)\<rparr>"


section \<open>The list of sockets is complete\<close>

text \<open>The references in the tables are those of existing sockets.\<close>

definition tables_ok :: "Device \<Rightarrow> bool" where
  "tables_ok d \<longleftrightarrow>
     (\<forall>sk r. mget (ListenTable d) sk = Some r \<longrightarrow> mget (lnStore d) r \<noteq> None) \<and>
     (\<forall>sk r. mget (ConnTable d) sk = Some r \<longrightarrow> mget (connStore d) r \<noteq> None)"

fun row_id :: "item \<Rightarrow> u64" where
  "row_id (SocketRow sid l r st) = sid"
| "row_id _ = 0"

lemma find_socket_keys: "sk \<in> socket_keys d \<longleftrightarrow> find_socket d sk \<noteq> None"
  unfolding socket_keys_def keys_eq_dom by (auto simp: find_socket_def split: option.splits)

lemma socket_row_ok:
  "tables_ok d \<Longrightarrow> find_socket d sk = Some x \<Longrightarrow> \<exists>l r st. socket_row d sid x = Some (SocketRow sid l r st)"
  by (fastforce simp: tables_ok_def find_socket_def split: option.splits)

lemma those_Some: "(\<forall>x \<in> set xs. f x = Some (g x)) \<Longrightarrow> those (map f xs) = Some (map g xs)"
  by (induction xs) auto

lemma socket_line_ok:
  assumes "ids_ok (rids s)" "tables_ok (rdev s)" "dom (mget (SocketKeyToId (rids s))) = socket_keys (rdev s)"
    and "mget (IdToSocketKey (rids s)) sid \<noteq> None"
  shows "\<exists>l r st. socket_line s sid = Some (SocketRow sid l r st)"
proof -
  from assms(4) obtain sk where sk: "mget (IdToSocketKey (rids s)) sid = Some sk" by blast
  with assms(1) have "sk \<in> dom (mget (SocketKeyToId (rids s)))" by (auto simp: ids_ok_def maps_ok_def)
  with assms(3) obtain x where "find_socket (rdev s) sk = Some x" by (auto simp: find_socket_keys)
  with sk socket_row_ok [OF assms(2) this, of sid] show ?thesis by (simp add: socket_line_def)
qed

lemma ListSockets_complete_aux:
  assumes "ids_ok (rids s)" and "tables_ok (rdev s)"
    and "length (ListenTable (rdev s)) + length (ConnTable (rdev s)) < 2 ^ 64"
  shows "\<exists>s' header rows. ListSockets R args s = Some (Done s') \<and> rdev s' = rdev s \<and>
    rout s' = rout s @ header # rows \<and> sorted (map row_id rows) \<and> distinct (map row_id rows) \<and>
    set rows = {row. \<exists>sk \<in> socket_keys (rdev s). \<exists>sid socket. mget (SocketKeyToId (rids s')) sk = Some sid \<and>
      find_socket (rdev s) sk = Some socket \<and> socket_row (rdev s) sid socket = Some row}"
proof -
  obtain ids where u: "updataSocketIds (rdev s) (rids s) = Some ids" "ids_ok ids"
    "dom (mget (SocketKeyToId ids)) = socket_keys (rdev s)"
    using updataSocketIds_consistent_aux [OF assms(1,3)] by blast
  let ?s = "s\<lparr>rids := ids\<rparr>" and ?keys = "sort (map fst (IdToSocketKey ids))"
  define row where "row sid = the (socket_line ?s sid)" for sid
  have inv: "mget (IdToSocketKey ids) sid = Some sk \<longleftrightarrow> mget (SocketKeyToId ids) sk = Some sid" for sid sk
    using u(2) by (simp add: ids_ok_def maps_ok_def)
  have ks: "sid \<in> set ?keys \<longleftrightarrow> mget (IdToSocketKey ids) sid \<noteq> None" for sid
    using keys_eq_dom [of "IdToSocketKey ids"] by auto
  have l: "\<exists>l r st. socket_line ?s sid = Some (SocketRow sid l r st)" if "sid \<in> set ?keys" for sid
    using socket_line_ok [of ?s sid] u assms(2) that ks by simp
  then have l': "socket_line ?s sid = Some (row sid) \<and> row_id (row sid) = sid" if "sid \<in> set ?keys" for sid
    using that by (fastforce simp: row_def)
  then have rows: "those (map (socket_line ?s) ?keys) = Some (map row ?keys)"
    by (intro those_Some) blast
  have ids: "map row_id (map row ?keys) = ?keys"
    unfolding map_map by (rule map_idI) (simp only: comp_def l')
  have "distinct ?keys" using u(2) by (simp add: ids_ok_def maps_ok_def wf_map_def)
  moreover have "set (map row ?keys) = {row. \<exists>sk \<in> socket_keys (rdev s). \<exists>sid socket.
      mget (SocketKeyToId ids) sk = Some sid \<and> find_socket (rdev s) sk = Some socket \<and>
      socket_row (rdev s) sid socket = Some row}" (is "?A = ?B")
  proof (intro set_eqI iffI)
    fix x assume "x \<in> ?A"
    then obtain sid where sid: "sid \<in> set ?keys" "x = row sid" by auto
    with l' have "socket_line ?s sid = Some x" by blast
    then obtain sk socket where "mget (IdToSocketKey ids) sid = Some sk" "find_socket (rdev s) sk = Some socket"
      "socket_row (rdev s) sid socket = Some x" by (auto simp: socket_line_def bind_eq_Some_conv)
    then show "x \<in> ?B" using inv by (auto simp: find_socket_keys intro!: bexI [of _ sk])
  next
    fix x assume "x \<in> ?B"
    then obtain sk sid socket where "mget (SocketKeyToId ids) sk = Some sid" "find_socket (rdev s) sk = Some socket"
      "socket_row (rdev s) sid socket = Some x" by blast
    then have "mget (IdToSocketKey ids) sid = Some sk" "find_socket (rdev s) sk = Some socket"
      "socket_row (rdev s) sid socket = Some x" using inv by blast+
    then have "socket_line ?s sid = Some x" "sid \<in> set ?keys" using ks by (simp_all add: socket_line_def)
    then show "x \<in> ?A" by (force simp: row_def)
  qed
  ultimately show ?thesis
    using u(1) rows ids by (auto simp: ListSockets_def updateIds_def)
qed



text \<open>
  A number that \<^verbatim>\<open>ls\<close> shows, typed back in decimal, finds the same socket, the
  connection for the commands on connections and the listener for \<^verbatim>\<open>cl\<close>.
\<close>

theorem socket_number_found:
  assumes "ids_ok ids" and "mget (SocketKeyToId ids) sk = Some sid" and "unat sid < 2 ^ 63"
  shows "getSocket (show_nat (unat sid)) d ids =
      (case mget (ConnTable d) sk of None \<Rightarrow> Inl ErrSocketNotFound | Some r \<Rightarrow> Inr r) \<and>
    getListenSocket (show_nat (unat sid)) d ids =
      (case mget (ListenTable d) sk of None \<Rightarrow> Inl ErrSocketNotFound | Some r \<Rightarrow> Inr r)"
proof -
  have "mget (IdToSocketKey ids) sid = Some sk"
    using assms(1,2) by (simp add: ids_ok_def maps_ok_def)
  then have "lookupKey (show_nat (unat sid)) ids = Inr sk"
    using Atoi_show [OF assms(3)] by (simp add: lookupKey_def)
  then show ?thesis by (simp add: getSocket_def getListenSocket_def)
qed

definition exIds :: SocketIds where
  "exIds = \<lparr>IdToSocketKey = [(3, listenKey 80)], SocketKeyToId = [(listenKey 80, 3)]\<rparr>"

theorem socket_number_found_witness:
  "getSocket (show_nat 3) (snd (VListen 80 exDevice)) exIds = Inl ErrSocketNotFound \<and>
   getListenSocket (show_nat 3) (snd (VListen 80 exDevice)) exIds = Inr 0"
proof -
  have ok: "ids_ok exIds" by (auto simp: ids_ok_def maps_ok_def exIds_def wf_map_def)
  have k: "mget (SocketKeyToId exIds) (listenKey 80) = Some 3" by (simp add: exIds_def)
  have b: "unat (3 :: u64) < 2 ^ 63" by simp
  have d: "mget (ListenTable (snd (VListen 80 exDevice))) (listenKey 80) = Some 0"
    "mget (ConnTable (snd (VListen 80 exDevice))) (listenKey 80) = None"
    by (simp_all add: VListen_def exDevice_def Let_def)
  show ?thesis
    using socket_number_found [OF ok k b, of "snd (VListen 80 exDevice)"] by (simp add: d)
qed

section \<open>What goes wrong\<close>

text \<open>At the end of the input every round prints the commands and changes nothing: it spins.\<close>

lemma repl_end_of_input:
  "repl_step R [] s = Some (Done (s\<lparr>rout := rout s @ map Line sortedKeys\<rparr>))"
  by (simp add: repl_step_def trim_newlines_def)

text \<open>A negative number of bytes to read ends the process.\<close>

lemma receive_negative_panics:
  "getSocket sk (rdev s) (rids s) = Inr r \<Longrightarrow> ReceiveTcp R [sk, ''-1''] s = None"
  by (simp add: ReceiveTcp_def Atoi_def dec_nat_def isDigit_def dec_val_def digit_val_def Let_def)

text \<open>A port beyond 65,535 is cut to its low 16 bits.\<close>

lemma port_truncated:
  "ConnectPort R [addr, ''65616''] s = ConnectPort R [addr, ''80''] s"
proof -
  have "Atoi ''65616'' = Some 65616" "Atoi ''80'' = Some 80"
    by (simp_all add: Atoi_def dec_nat_def isDigit_def dec_val_def digit_val_def Let_def)
  moreover have "connect_start a 65616 R s = connect_start a 80 R s" for a
  proof -
    have "(word_of_int 65616 :: u16) = word_of_int 80" by simp
    then show ?thesis unfolding connect_start_def by (simp only:)
  qed
  ultimately show ?thesis by (simp add: ConnectPort_def split: option.split)
qed

text \<open>A static route is listed as a local one, without the name of an interface.\<close>

lemma static_route_listed_local:
  "pfxBits pre \<noteq> 0 \<Longrightarrow> \<forall>(n, i) \<in> set (Interfaces d). ifPrefix i \<noteq> pre \<Longrightarrow>
   route_row d (pre, \<lparr>hopAddr = gw, hopCost = 0\<rparr>) = RouteRow ''L'' pre (Inr ''LOCAL:'') 0"
proof -
  have "\<forall>(n, i) \<in> set ifs. ifPrefix i \<noteq> pre \<Longrightarrow> local_names pre ifs x = x" for ifs x
    by (induction ifs arbitrary: x) auto
  then show "pfxBits pre \<noteq> 0 \<Longrightarrow> \<forall>(n, i) \<in> set (Interfaces d). ifPrefix i \<noteq> pre \<Longrightarrow>
    route_row d (pre, \<lparr>hopAddr = gw, hopCost = 0\<rparr>) = RouteRow ''L'' pre (Inr ''LOCAL:'') 0"
    by (simp add: route_row_def)
qed

end
