(* ===== verification/RouterRun.thy ===== *)
theory RouterRun
  imports Startup Dispatch Repl
begin

text \<open>
  The life of a device: every sequence of packets, timeouts, broadcasts, commands and socket
  calls after its start.  The lemmas are about the routing part of the state, which all of
  them share.
\<close>

section \<open>Steps of a device\<close>

text \<open>What sockets and their goroutines leave alone.\<close>

definition same_routing :: "Device \<Rightarrow> Device \<Rightarrow> bool" where
  "same_routing d d' \<longleftrightarrow> Table d' = Table d \<and> Neighbours d' = Neighbours d \<and> Interfaces d' = Interfaces d \<and>
     RipNeighbors d' = RipNeighbors d \<and> ripChannels d' = ripChannels d \<and> Handlers d' = Handlers d"

datatype dev_event =
  Received Packet | Token Addr | TokenTaken Addr | Expired Addr | Broadcast | Switched string bool | SocketCall

text \<open>
  \<^verbatim>\<open>Handler\<close>; the two ends of the channel of a neighbour's timeout, and its expiry, which
  needs the goroutine whose channel is registered; one round of \<^verbatim>\<open>Rip\<close>; the commands
  \<^verbatim>\<open>up\<close> and \<^verbatim>\<open>down\<close>; and any call on a socket.
\<close>

inductive device_step :: "env \<Rightarrow> Device \<Rightarrow> dev_event \<Rightarrow> Device \<Rightarrow> bool" for E where
  received: "Handler E w d p = Some (d', es) \<Longrightarrow> device_step E d (Received p) d'"
| token: "timeoutHandler d ip = Some d' \<Longrightarrow> device_step E d (Token ip) d'"
| token_taken: "mget (ripChannels d) ip = Some (Suc n) \<Longrightarrow>
    device_step E d (TokenTaken ip) (d\<lparr>ripChannels := mput ip n (ripChannels d)\<rparr>)"
| expired: "mget (ripChannels d) ip \<noteq> None \<Longrightarrow> timeout_expire E d ip = Some (d', es) \<Longrightarrow>
    device_step E d (Expired ip) d'"
| broadcast: "Rip_round E d = Some es \<Longrightarrow> device_step E d Broadcast d"
| switched: "device_step E d (Switched name up) (setInterface up name d)"
| socket_call: "same_routing d d' \<Longrightarrow> device_step E d SocketCall d'"

inductive device_run :: "env \<Rightarrow> Device \<Rightarrow> dev_event list \<Rightarrow> Device \<Rightarrow> bool" for E d where
  start: "device_run E d [] d"
| more: "device_run E d es d1 \<Longrightarrow> device_step E d1 e d2 \<Longrightarrow> device_run E d (es @ [e]) d2"

section \<open>Handlers and the routing part\<close>

lemma same_routing_refl [simp]: "same_routing d d"
  by (simp add: same_routing_def)

lemma tcpHandler_routing:
  "tcpHandler E w d p = Some (d', es) \<Longrightarrow> same_routing d d'"
  by (drule tcpHandler_change) (auto simp: tcp_change_def same_routing_def)

lemma RipHandler_neighbours:
  assumes "RipHandler E d p = Some (d', es)"
  shows "Interfaces d' = Interfaces d" "Neighbours d' = Neighbours d" "Handlers d' = Handlers d"
    "RipNeighbors d' = RipNeighbors d \<and> ripChannels d' = ripChannels d \<and>
       (Table d' = Table d \<or> ipSrc (Header p) \<in> set (RipNeighbors d)) \<or>
     ipSrc (Header p) \<notin> set (RipNeighbors d) \<and> RipNeighbors d' = RipNeighbors d @ [ipSrc (Header p)] \<and>
       ripChannels d' = mput (ipSrc (Header p)) 0 (ripChannels d)"
    "ListenTable d' = ListenTable d" "ConnTable d' = ConnTable d" "connStore d' = connStore d" "lnStore d' = lnStore d"
proof -
  obtain d1 es1 where a: "addNeighboursIfStale d p = (d1, es1)" by (cases "addNeighboursIfStale d p")
  have "\<exists>table. d' = d \<or> d' = d1\<lparr>Table := table\<rparr> \<or> d' = d1"
    using assms a by (auto simp: RipHandler_def Let_def split: result.splits if_splits prod.splits)
  then show "Interfaces d' = Interfaces d" "Neighbours d' = Neighbours d" "Handlers d' = Handlers d"
    "RipNeighbors d' = RipNeighbors d \<and> ripChannels d' = ripChannels d \<and>
       (Table d' = Table d \<or> ipSrc (Header p) \<in> set (RipNeighbors d)) \<or>
     ipSrc (Header p) \<notin> set (RipNeighbors d) \<and> RipNeighbors d' = RipNeighbors d @ [ipSrc (Header p)] \<and>
       ripChannels d' = mput (ipSrc (Header p)) 0 (ripChannels d)"
    "ListenTable d' = ListenTable d" "ConnTable d' = ConnTable d" "connStore d' = connStore d" "lnStore d' = lnStore d"
    using a by (auto simp: addNeighboursIfStale_def Let_def split: if_splits)
qed

section \<open>The invariant of the routing part\<close>

text \<open>
  \<open>A\<close> is a set of addresses that no RIP message comes from (the device's own), and \<open>L\<close> the
  local routes, which point at them.  The table is well formed; each RIP neighbour is there
  once and has the channel of its timeout; and every learned route leads to a neighbour.
\<close>

definition routing_ok :: "Addr set \<Rightarrow> (Prefix \<times> Hop) set \<Rightarrow> Device \<Rightarrow> bool" where
  "routing_ok A L d \<longleftrightarrow> device_ok d \<and> good_table (Table d) \<and> distinct (RipNeighbors d) \<and>
     (\<forall>a. mget (ripChannels d) a = None \<longleftrightarrow> a \<notin> set (RipNeighbors d)) \<and> A \<inter> set (RipNeighbors d) = {} \<and>
     (\<forall>p hop. mget (Table d) p = Some hop \<longrightarrow> 0 < hopCost hop \<longrightarrow> hopAddr hop \<in> set (RipNeighbors d)) \<and>
     (\<forall>(p, hop) \<in> L. mget (Table d) p = Some hop)"

lemma routing_okD:
  assumes "routing_ok A L d"
  shows "device_ok d" "good_table (Table d)" "distinct (RipNeighbors d)" "A \<inter> set (RipNeighbors d) = {}"
    "mget (ripChannels d) a = None \<longleftrightarrow> a \<notin> set (RipNeighbors d)" "wf_map (Table d)"
    "\<forall>(p, hop) \<in> set (Table d). ipv4_prefix p"
    "mget (Table d) p = Some hop \<Longrightarrow> 0 < hopCost hop \<Longrightarrow> hopAddr hop \<in> set (RipNeighbors d)"
    "(p, hop) \<in> L \<Longrightarrow> mget (Table d) p = Some hop"
  using assms good_table_keys by (auto simp: routing_ok_def good_table_def)

lemma routing_ok_same: "same_routing d d' \<Longrightarrow> routing_ok A L d \<Longrightarrow> routing_ok A L d'"
  by (simp add: routing_ok_def same_routing_def device_ok_def)

lemma rip_fold_hop:
  assumes "mget (fold (rip_step src) hosts table) p = Some hop"
  shows "hopAddr hop = src \<or> mget table p = Some hop"
proof -
  have "\<forall>hop. mget (fold (rip_step src) hosts table) p = Some hop \<longrightarrow> hopAddr hop = src \<or> mget table p = Some hop"
    by (rule rip.loop_pointwise [where P = "\<lambda>_ v. \<forall>hop. v = Some hop \<longrightarrow> hopAddr hop = src \<or> mget table p = Some hop"])
       (auto simp: rip_relax_def split: if_splits option.splits)
  with assms show ?thesis by simp
qed

lemma rip_fold_local:
  assumes "mget table p = Some hop" "hopCost hop = 0" "hopAddr hop \<noteq> src"
  shows "mget (fold (rip_step src) hosts table) p = Some hop"
  by (rule rip.loop_pointwise [where P = "\<lambda>_ v. v = Some hop"]) (simp_all add: assms rip_relax_local)

lemma RipHandler_routing:
  assumes ok: "routing_ok A L d" and run: "RipHandler E d p = Some (d', es)" and src: "ipSrc (Header p) \<notin> A"
    and L: "\<forall>(p, hop) \<in> L. hopCost hop = 0 \<and> hopAddr hop \<in> A"
  shows "routing_ok A L d'"
proof -
  let ?src = "ipSrc (Header p)"
  obtain hosts where t: "Table d' = fold (rip_step ?src) hosts (Table d)"
    using RipHandler_table [OF run] by (auto split: result.splits if_splits intro: that [of "[]"])
  have frame: "Interfaces d' = Interfaces d" "Neighbours d' = Neighbours d"
    using RipHandler_neighbours [OF run] by simp_all
  have chan: "mget (ripChannels d) a = None \<longleftrightarrow> a \<notin> set (RipNeighbors d)" and dist: "distinct (RipNeighbors d)" for a
    by (rule routing_okD [OF ok])+
  have neis: "set (RipNeighbors d') \<subseteq> insert ?src (set (RipNeighbors d))" "set (RipNeighbors d) \<subseteq> set (RipNeighbors d')"
    "distinct (RipNeighbors d')" "\<forall>a. mget (ripChannels d') a = None \<longleftrightarrow> a \<notin> set (RipNeighbors d')"
    "Table d' = Table d \<or> ?src \<in> set (RipNeighbors d')"
    using RipHandler_neighbours(4) [OF run] dist by (auto simp: chan gomap_simps split: if_splits)
  have "hopAddr hop \<in> set (RipNeighbors d')" if hop: "mget (Table d') q = Some hop" "0 < hopCost hop" for q hop
  proof (cases "mget (Table d) q = Some hop")
    case True
    with ok neis(2) hop(2) show ?thesis by (auto simp: routing_ok_def)
  next
    case False
    with hop(1) rip_fold_hop [of ?src hosts "Table d" q hop] neis(5) show ?thesis by (auto simp: t)
  qed
  moreover have "mget (Table d') q = Some hop" if "(q, hop) \<in> L" for q hop
    using that L ok src unfolding t by (intro rip_fold_local) (auto simp: routing_ok_def)
  moreover have "good_table (Table d')" using ok unfolding t by (simp add: routing_ok_def rip_fold_good)
  ultimately show ?thesis
    using ok frame neis src by (auto simp: routing_ok_def device_ok_def)
qed

lemma expire_routing:
  assumes ok: "routing_ok A L d" and run: "timeout_expire E d ip = Some (d', es)"
    and ip: "mget (ripChannels d) ip \<noteq> None" and L: "\<forall>(p, hop) \<in> L. hopCost hop = 0 \<and> hopAddr hop \<in> A"
  shows "routing_ok A L d'"
proof -
  have i: "ip \<in> set (RipNeighbors d)" using ip routing_okD(5) [OF ok] by simp
  have wf: "wf_map (Table d)" "distinct (RipNeighbors d)" using ok by (simp_all add: routing_ok_def good_table_def)
  obtain neis del told where d': "d' = d\<lparr>RipNeighbors := neis, ripChannels := mdel ip (ripChannels d),
      Table := fold mdel del (Table d)\<rparr>" and n: "set neis = set (RipNeighbors d) - {ip}" "distinct neis"
    and t: "\<forall>p. mget (fold mdel del (Table d)) p =
      (case mget (Table d) p of None \<Rightarrow> None | Some hop \<Rightarrow> if hopAddr hop = ip then None else Some hop)"
    and "told = map (\<lambda>(p, hop). (p, if hopAddr hop = ip then hop\<lparr>hopCost := INFINITY\<rparr> else hop)) (Table d)"
    and "send_rip_all E d' Response neis told = Some es"
    by (rule timeout_expire_state [OF wf i run]) (rule that; assumption)
  have keep: "mget (Table d') q = Some hop \<longleftrightarrow> mget (Table d) q = Some hop \<and> hopAddr hop \<noteq> ip" for q hop
    by (cases "mget (Table d) q") (auto simp: d' t)
  have "good_table (Table d')"
    using ok wf_map_fold_mdel [OF wf(1), of del] keep by (auto simp: routing_ok_def good_table_def d')
  moreover have "mget (ripChannels d') a = None \<longleftrightarrow> a \<notin> set (RipNeighbors d')" for a
    using n by (simp add: d' gomap_simps routing_okD(5) [OF ok])
  moreover have "ip \<notin> A" using ok i by (auto simp: routing_ok_def)
  ultimately show ?thesis
    using ok n L keep by (auto simp: routing_ok_def device_ok_def d')
qed

lemma routing_ok_channels:
  "routing_ok A L d \<Longrightarrow> (\<And>a. mget cs a = None \<longleftrightarrow> mget (ripChannels d) a = None) \<Longrightarrow>
   routing_ok A L (d\<lparr>ripChannels := cs\<rparr>)"
  by (simp add: routing_ok_def)

lemma timeoutHandler_routing:
  assumes "timeoutHandler d ip = Some d'" "routing_ok A L d"
  shows "routing_ok A L d'"
proof (cases "mget (ripChannels d) ip")
  case None
  with assms show ?thesis by (simp add: timeoutHandler_def)
next
  case (Some n)
  with assms(1) have "d' = d\<lparr>ripChannels := mput ip (Suc n) (ripChannels d)\<rparr>"
    by (simp add: timeoutHandler_def split: if_splits)
  with Some assms(2) show ?thesis by (auto simp: gomap_simps intro!: routing_ok_channels split: if_splits)
qed

lemma routing_ok_switch: "routing_ok A L d \<Longrightarrow> routing_ok A L (setInterface up name d)"
  by (auto simp: routing_ok_def device_ok_def setInterface_def gomap_simps split: option.split)

lemma run_handler_routing:
  assumes "routing_ok A L d" "run_handler h E w d p = Some (d', es)" "ipSrc (Header p) \<notin> A"
    and "\<forall>(p, hop) \<in> L. hopCost hop = 0 \<and> hopAddr hop \<in> A"
  shows "routing_ok A L d'"
proof (cases h)
  case HTest
  with assms(1,2) show ?thesis by (simp add: TestHandler_def)
next
  case HRip
  with assms(2) have "RipHandler E d p = Some (d', es)" by simp
  from RipHandler_routing [OF assms(1) this assms(3,4)] show ?thesis .
next
  case HTcp
  with assms(2) have "tcpHandler E w d p = Some (d', es)" by simp
  from routing_ok_same [OF tcpHandler_routing [OF this] assms(1)] show ?thesis .
qed

text \<open>What \<^verbatim>\<open>Handler\<close> does to the device: nothing, or a token and the handler of the protocol.\<close>

lemma Handler_cases:
  assumes "Handler E w d p = Some (d', es)"
  shows "d' = d \<or> (\<exists>d1. timeoutHandler d (ipSrc (Header p)) = Some d1 \<and>
    (d' = d1 \<or> (\<exists>h. run_handler h E w d1 p = Some (d', es))))"
proof (cases "hdrMarshal E (Header p)")
  case None
  with assms show ?thesis by (simp add: Handler_def)
next
  case (Some b)
  then obtain hb where hb: "\<not> ipLen (Header p) < 0" "reslice b 0 (nat (ipLen (Header p))) = Some hb"
    using assms by (simp add: Handler_def split: if_splits option.splits)
  show ?thesis
  proof (cases "ValidateChecksum E (elems hb) (word_of_int (ipChecksum (Header p))) \<and> isMyIp d (ipDst (Header p))")
    case False
    with assms Some hb have "d' = d" by (simp add: Handler_def split: if_splits)
    then show ?thesis by simp
  next
    case True
    with assms Some hb obtain d1 where t: "timeoutHandler d (ipSrc (Header p)) = Some d1" and
      h: "(case mget (Handlers d1) (word_of_int (ipProtocol (Header p))) of None \<Rightarrow> Some (d1, [])
         | Some handler \<Rightarrow> run_handler handler E w d1 p) = Some (d', es)"
      by (simp add: Handler_def bind_eq_Some_conv) blast
    from h have "d' = d1 \<or> (\<exists>h. run_handler h E w d1 p = Some (d', es))"
      by (cases "mget (Handlers d1) (word_of_int (ipProtocol (Header p)))") auto
    with t show ?thesis by blast
  qed
qed

lemma step_routing:
  assumes "device_step E d e d'" "routing_ok A L d" "\<forall>p. e = Received p \<longrightarrow> ipSrc (Header p) \<notin> A"
    and L: "\<forall>(p, hop) \<in> L. hopCost hop = 0 \<and> hopAddr hop \<in> A"
  shows "routing_ok A L d'"
  using assms(1-3)
proof (induction rule: device_step.induct)
  case (received w d p d' es)
  note ok = received(2) and src = received(3) [rule_format, OF refl]
  from Handler_cases [OF received(1)] show ?case
  proof (elim disjE exE conjE)
    fix d1 assume "timeoutHandler d (ipSrc (Header p)) = Some d1"
    note ok1 = timeoutHandler_routing [OF this ok]
    show ?case if "d' = d1" using ok1 that by simp
    show ?case if "run_handler h E w d1 p = Some (d', es)" for h
      by (rule run_handler_routing [OF ok1 that src L])
  qed (simp add: ok)
next
  case (token d ip d')
  from timeoutHandler_routing [OF token(1,2)] show ?case .
next
  case (token_taken d ip n)
  then show ?case by (intro routing_ok_channels) (auto simp: gomap_simps)
next
  case (expired d ip d' es)
  from expire_routing [OF expired(3,2,1) L] show ?case .
qed (auto intro: routing_ok_switch routing_ok_same)

lemma run_routing:
  "device_run E d es d' \<Longrightarrow> routing_ok A L d \<Longrightarrow> \<forall>p. Received p \<in> set es \<longrightarrow> ipSrc (Header p) \<notin> A \<Longrightarrow>
   \<forall>(p, hop) \<in> L. hopCost hop = 0 \<and> hopAddr hop \<in> A \<Longrightarrow> routing_ok A L d'"
proof (induction rule: device_run.induct)
  case (more es d1 e d2)
  then show ?case using step_routing [of E d1 e d2 A L] by simp
qed

section \<open>No timer and no broadcast panics\<close>

lemma expire_returns:
  assumes "env_total E" "routing_ok A L d" "mget (ripChannels d) ip \<noteq> None"
  shows "\<exists>r. timeout_expire E d ip = Some r"
proof -
  have i: "ip \<in> set (RipNeighbors d)" using assms(3) routing_okD(5) [OF assms(2)] by simp
  then obtain k where k: "index_of ip 0 (RipNeighbors d) = Some k"
    using index_of_None [of ip 0 "RipNeighbors d"] by auto
  from index_of_Some [OF k] remove_at_mset [of k "RipNeighbors d"] obtain neis where
    r: "remove_at (RipNeighbors d) k = Some neis" by auto
  obtain tmp del where t: "timeout_scan ip (Table d) ([], []) = (tmp, del)"
    by (cases "timeout_scan ip (Table d) ([], [])")
  have wf: "wf_map (Table d)" "\<forall>(p, hop) \<in> set (Table d). ipv4_prefix p"
    by (rule routing_okD [OF assms(2)])+
  from t have tmp: "\<forall>(p, hop) \<in> set tmp. ipv4_prefix p"
    using wf(2) by (auto simp: timeout_scan_table [OF wf(1)])
  let ?d = "d\<lparr>RipNeighbors := neis, ripChannels := mdel ip (ripChannels d), Table := fold mdel del (Table d)\<rparr>"
  have "device_ok ?d" using routing_okD(1) [OF assms(2)] by (simp add: device_ok_def)
  from send_rip_all_total [OF assms(1) this tmp] obtain es where
    "send_rip_all E ?d Response (RipNeighbors ?d) tmp = Some es" by blast
  with k r t assms(3) show ?thesis by (auto simp: timeout_expire_def Let_def)
qed

lemma broadcast_returns:
  "env_total E \<Longrightarrow> routing_ok A L d \<Longrightarrow> \<exists>es. Rip_round E d = Some es"
  unfolding Rip_round_def by (rule send_rip_all_total) (rule routing_okD | assumption)+

section \<open>From the configuration on\<close>

lemma start_routing:
  assumes "device_ok d" "good_table (Table d)" "distinct (RipNeighbors d)"
    and "\<forall>a. mget (ripChannels d) a = None \<longleftrightarrow> a \<notin> set (RipNeighbors d)" and "A \<inter> set (RipNeighbors d) = {}"
    and "\<forall>p hop. mget (Table d) p = Some hop \<longrightarrow> hopCost hop = 0"
  shows "routing_ok A {(p, hop). mget (Table d) p = Some hop \<and> hopAddr hop \<in> A} d"
  using assms by (auto simp: routing_ok_def)


text \<open>A router with one interface, which goes down before a broadcast.\<close>

definition exRouterFile :: "directive list" where
  "exRouterFile = [DInterface ''if0'' 0x0A010001 24 0x7F000001 5000, DRouting True]"

definition exRouterConfig :: IPConfig where
  "exRouterConfig = fold adds exRouterFile emptyConfig"

lemma exRouterConfig_parsed: "ParseConfig (Some (file_of (map render exRouterFile))) = Ok exRouterConfig"
proof -
  have ok: "well_ordered exRouterFile emptyConfig"
    by (simp add: exRouterFile_def emptyConfig_def short_word_def is_word_def isSpace_def)
  show ?thesis
    using parse_rendered [OF ok] scan_file [of "map render exRouterFile"] well_ordered_lines [OF ok]
    by (simp add: ParseConfig_def exRouterConfig_def)
qed

lemma exRouterConfig_simps:
  "map icName (cfgInterfaces exRouterConfig) = [''if0'']" "cfgNeighbors exRouterConfig = []"
  "cfgRipNeighbors exRouterConfig = []"
  "\<forall>p \<in> AssignedPrefix ` set (cfgInterfaces exRouterConfig) \<union> fst ` set (StaticRoutes exRouterConfig). ipv4_prefix p"
  by (simp_all add: exRouterConfig_def exRouterFile_def emptyConfig_def ipv4_prefix_def Masked_def pfx_def Prefix_IsValid_def)


section \<open>What goes wrong\<close>

text \<open>
  The expiry of a neighbour deletes the static routes through it too, and nothing puts them
  back when the neighbour returns.
\<close>

lemma static_route_expires:
  assumes "wf_map (Table d)" "distinct (RipNeighbors d)" "ip \<in> set (RipNeighbors d)"
    and "timeout_expire E d ip = Some (d', es)" and "mget (Table d) p = Some \<lparr>hopAddr = ip, hopCost = 0\<rparr>"
  shows "mget (Table d') p = None"
proof -
  obtain del neis told where "d' = d\<lparr>RipNeighbors := neis, ripChannels := mdel ip (ripChannels d), Table := fold mdel del (Table d)\<rparr>"
    and "\<forall>p. mget (fold mdel del (Table d)) p =
      (case mget (Table d) p of None \<Rightarrow> None | Some hop \<Rightarrow> if hopAddr hop = ip then None else Some hop)"
    and "set neis = set (RipNeighbors d) - {ip}" "distinct neis"
    and "told = map (\<lambda>(p, hop). (p, if hopAddr hop = ip then hop\<lparr>hopCost := INFINITY\<rparr> else hop)) (Table d)"
    and "send_rip_all E d' Response neis told = Some es"
    by (rule timeout_expire_state [OF assms(1-4)]) (rule that; assumption)
  with assms(5) show ?thesis by simp
qed

text \<open>
  A configured neighbour whose first request was not sent has no timeout, and never gets
  one: its messages find it among the neighbours and start none.  Its routes do not expire.
\<close>

lemma no_timeout_ever:
  assumes "a \<in> set (RipNeighbors d)" "mget (ripChannels d) a = None" "Handler E w d p = Some (d', es)"
  shows "a \<in> set (RipNeighbors d') \<and> mget (ripChannels d') a = None"
proof -
  have t: "RipNeighbors d1 = RipNeighbors d \<and> mget (ripChannels d1) a = None"
    if "timeoutHandler d ip = Some d1" for d1 ip
    using that assms(2) by (auto simp: timeoutHandler_def gomap_simps split: option.splits if_splits)
  have h: "a \<in> set (RipNeighbors d') \<and> mget (ripChannels d') a = None"
    if "run_handler h E w d1 p = Some (d', es)" "RipNeighbors d1 = RipNeighbors d" "mget (ripChannels d1) a = None" for h d1
  proof (cases h)
    case HTest
    with that assms(1) show ?thesis by (simp add: TestHandler_def)
  next
    case HTcp
    with that(1) have "same_routing d1 d'" by (auto dest: tcpHandler_routing)
    with that assms(1) show ?thesis by (simp add: same_routing_def)
  next
    case HRip
    with that(1) have "RipHandler E d1 p = Some (d', es)" by simp
    from RipHandler_neighbours(4) [OF this] that(2,3) assms(1) show ?thesis
      by (auto simp: gomap_simps)
  qed
  from Handler_cases [OF assms(3)] show ?thesis
  proof (elim disjE exE conjE)
    fix d1 assume "timeoutHandler d (ipSrc (Header p)) = Some d1"
    note d1 = t [OF this]
    show ?thesis if "d' = d1" using that d1 assms(1) by simp
    show ?thesis if "run_handler hd E w d1 p = Some (d', es)" for hd using h [OF that] d1 by simp
  qed (simp add: assms)
qed

end
