(* ===== verification/Session.thy ===== *)
theory Session
  imports RouterRun
begin

text \<open>
  A session at the prompt: \<^verbatim>\<open>Repl\<close> and \<^verbatim>\<open>repl\<close> of \<^verbatim>\<open>pkg/utils/utils.go\<close> over any number
  of lines, with the other goroutines of the device at work while the prompt waits.  Every
  command keeps the invariant of the prompt, so the loop goes on.
\<close>

section \<open>The loop\<close>

text \<open>
  One line and what happens around it: the environment of its command; what other goroutines
  do to the device while the prompt waits for the line, and while a connection it opens
  waits; and during which timer the signal that it is open comes.
\<close>

record round =
  rdEnv :: renv
  rdText :: string
  rdBefore :: "Device \<Rightarrow> Device"
  rdOpening :: "Device \<Rightarrow> Device"
  rdSignalled :: "nat \<Rightarrow> bool"

datatype session = AtPrompt rst | Quit

definition finish :: "round \<Rightarrow> cmd_result \<Rightarrow> session option" where
  "finish q x =
     (case x of
        Done s \<Rightarrow> Some (AtPrompt s)
      | WaitConnect r s \<Rightarrow>
          map_option AtPrompt (ConnectPort_finish (rdSignalled q) r (rdEnv q) (s\<lparr>rdev := rdOpening q (rdev s)\<rparr>))
      | Exited \<Rightarrow> Some Quit)"

definition repl_round :: "round \<Rightarrow> rst \<Rightarrow> session option" where
  "repl_round q s = Option.bind (repl_step (rdEnv q) (rdText q) (s\<lparr>rdev := rdBefore q (rdev s)\<rparr>)) (finish q)"

fun repl :: "round list \<Rightarrow> rst \<Rightarrow> session option" where
  "repl [] s = Some (AtPrompt s)"
| "repl (q # qs) s =
     do {
       x \<leftarrow> repl_round q s;
       case x of Quit \<Rightarrow> Some Quit | AtPrompt s \<Rightarrow> repl qs s
     }"

definition Repl_state :: "Device \<Rightarrow> rst" where
  "Repl_state d = \<lparr>rdev = d, rids = initIds, rout = [], reff = []\<rparr>"

definition typed :: "round \<Rightarrow> string" where
  "typed q = hd (split_on CHR '' '' (trim_newlines (rdText q)))"

section \<open>What a command may rely on\<close>

definition sockets :: "Device \<Rightarrow> nat" where
  "sockets d = length (ListenTable d) + length (ConnTable d)"

definition dev_ok :: "Device \<Rightarrow> bool" where
  "dev_ok d \<longleftrightarrow> device_ok d \<and> tables_ok d \<and> good_table (Table d)"

text \<open>A change that keeps the device well formed and opens at most \<open>k\<close> sockets.\<close>

definition dev_keeps :: "nat \<Rightarrow> Device \<Rightarrow> Device \<Rightarrow> bool" where
  "dev_keeps k d d' \<longleftrightarrow> (dev_ok d \<longrightarrow> dev_ok d') \<and> sockets d' \<le> sockets d + k \<and>
     (\<forall>r. mget (connStore d) r \<noteq> None \<longrightarrow> mget (connStore d') r \<noteq> None)"

definition prompt_ok :: "nat \<Rightarrow> rst \<Rightarrow> bool" where
  "prompt_ok n s \<longleftrightarrow> dev_ok (rdev s) \<and> ids_ok (rids s) \<and> sockets (rdev s) + n < 2 ^ 64"

fun result_ok :: "nat \<Rightarrow> cmd_result \<Rightarrow> bool" where
  "result_ok n (Done s) = prompt_ok n s"
| "result_ok n (WaitConnect r s) = (prompt_ok n s \<and> mget (connStore (rdev s)) r \<noteq> None)"
| "result_ok n Exited = False"

named_theorems keeps "Changes of the device that keep it well formed."

lemma dev_keeps_refl [keeps]: "dev_keeps k d d"
  by (simp add: dev_keeps_def)

lemma dev_keeps_trans: "dev_keeps j d d1 \<Longrightarrow> dev_keeps k d1 d2 \<Longrightarrow> dev_keeps (j + k) d d2"
  unfolding dev_keeps_def by force

lemma dev_keeps_le: "dev_keeps j d d' \<Longrightarrow> j \<le> k \<Longrightarrow> dev_keeps k d d'"
  by (auto simp: dev_keeps_def)

lemma length_mput_le: "length (mput k v m) \<le> Suc (length m)"
  by (induction m) auto

lemma tables_okD:
  assumes "tables_ok d"
  shows "mget (ListenTable d) sk = Some r \<Longrightarrow> \<exists>lis. mget (lnStore d) r = Some lis"
    "mget (ConnTable d) sk = Some r \<Longrightarrow> \<exists>c. mget (connStore d) r = Some c"
  using assms unfolding tables_ok_def by blast+

lemma keeps_switch [keeps]: "dev_keeps k d (setInterface up name d)"
  by (auto simp: dev_keeps_def dev_ok_def sockets_def device_ok_def tables_ok_def setInterface_def gomap_simps
      split: option.split)

lemma keeps_conn [keeps]: "dev_keeps k d (d\<lparr>connStore := mput r c (connStore d)\<rparr>)"
  by (auto simp: dev_keeps_def dev_ok_def sockets_def device_ok_def tables_ok_def gomap_simps)

lemma keeps_listener [keeps]: "dev_keeps k d (d\<lparr>lnStore := mput r lis (lnStore d)\<rparr>)"
  by (auto simp: dev_keeps_def dev_ok_def sockets_def device_ok_def tables_ok_def gomap_simps)

lemma keeps_del_conn [keeps]: "dev_keeps k d (d\<lparr>ConnTable := mdel sk (ConnTable d)\<rparr>)"
  using length_delete_le [of sk "ConnTable d"]
  by (auto simp: dev_keeps_def dev_ok_def sockets_def device_ok_def tables_ok_def gomap_simps)

lemma keeps_del_listener [keeps]: "dev_keeps k d (d\<lparr>ListenTable := mdel sk (ListenTable d)\<rparr>)"
  using length_delete_le [of sk "ListenTable d"]
  by (auto simp: dev_keeps_def dev_ok_def sockets_def device_ok_def tables_ok_def gomap_simps)

lemma keeps_end [keeps]:
  "dev_keeps k d (d\<lparr>ConnTable := mdel sk (ConnTable d), connStore := mput r c (connStore d)\<rparr>)"
proof -
  let ?d = "d\<lparr>ConnTable := mdel sk (ConnTable d)\<rparr>"
  have "dev_keeps (0 + 0) d (?d\<lparr>connStore := mput r c (connStore ?d)\<rparr>)"
    by (rule dev_keeps_trans [OF keeps_del_conn keeps_conn])
  then show ?thesis by (auto intro: dev_keeps_le)
qed

lemma prompt_okD:
  assumes "prompt_ok n s"
  shows "dev_ok (rdev s)" "device_ok (rdev s)" "tables_ok (rdev s)" "ids_ok (rids s)"
    "\<forall>(p, hop) \<in> set (Table (rdev s)). ipv4_prefix p"
    "length (ListenTable (rdev s)) + length (ConnTable (rdev s)) < 2 ^ 64"
  using assms good_table_keys by (auto simp: prompt_ok_def dev_ok_def sockets_def)

lemma prompt_ok_le: "prompt_ok n s \<Longrightarrow> m \<le> n \<Longrightarrow> prompt_ok m s"
  by (simp add: prompt_ok_def)

lemma prompt_ok_said [simp]:
  "prompt_ok n (s\<lparr>rout := o'\<rparr>) = prompt_ok n s" "prompt_ok n (s\<lparr>reff := es\<rparr>) = prompt_ok n s"
  "prompt_ok n (say x s) = prompt_ok n s"
  by (simp_all add: prompt_ok_def say_def)

lemma prompt_ok_dev:
  assumes "prompt_ok n s" "dev_keeps k (rdev s) d" "m + k \<le> n"
  shows "prompt_ok m (s\<lparr>rdev := d\<rparr>)"
proof -
  from assms(2,3) have "sockets d + m \<le> sockets (rdev s) + n" by (simp add: dev_keeps_def)
  with assms(1,2) show ?thesis by (simp add: prompt_ok_def dev_keeps_def)
qed

lemma keeps_new_conn [keeps]:
  "dev_keeps 1 d (d\<lparr>connStore := connStore d @ [(length (connStore d), c)],
     ConnTable := mput sk (length (connStore d)) (ConnTable d)\<rparr>)"
proof -
  have "mget (m @ [(r, c)]) i \<noteq> None \<longleftrightarrow> i = r \<or> mget m i \<noteq> None" for m r and i :: nat
    by (auto simp: map_of_append map_add_def split: option.splits)
  then show ?thesis
    using length_mput_le [of sk "length (connStore d)" "ConnTable d"]
    by (auto simp: dev_keeps_def dev_ok_def sockets_def device_ok_def tables_ok_def gomap_simps simp del: map_of_append)
qed

section \<open>The contract of a command\<close>

text \<open>
  A command returns, whatever its words, and leaves the prompt as it needs it for the next
  line; it uses up at most one socket.  The commands that keep it are all but \<^verbatim>\<open>exit\<close>,
  which ends the process, and \<^verbatim>\<open>s\<close> and \<^verbatim>\<open>r\<close>, which wait for the peer.
\<close>

locale prompt_command =
  fixes cmd :: "renv \<Rightarrow> string list \<Rightarrow> rst \<Rightarrow> cmd_result option"
  assumes returns: "env_total (rE R) \<Longrightarrow> prompt_ok (Suc n) s \<Longrightarrow> \<exists>x. cmd R args s = Some x \<and> result_ok n x"
begin

lemma finishes:
  assumes "env_total (rE (rdEnv q))" "prompt_ok (Suc (Suc n)) s"
    and "\<And>r s. prompt_ok (Suc n) s \<Longrightarrow> mget (connStore (rdev s)) r \<noteq> None \<Longrightarrow>
      \<exists>s'. finish q (WaitConnect r s) = Some (AtPrompt s') \<and> prompt_ok n s'"
  shows "\<exists>s'. Option.bind (cmd (rdEnv q) args s) (finish q) = Some (AtPrompt s') \<and> prompt_ok n s'"
proof -
  obtain x where x: "cmd (rdEnv q) args s = Some x" "result_ok (Suc n) x"
    using returns [OF assms(1,2)] by blast
  show ?thesis
    by (cases x) (use x assms(3) prompt_ok_le [of "Suc n" _ n] in \<open>auto simp: finish_def\<close>)
qed

end

section \<open>Commands that only look, switch or start a goroutine\<close>

lemma said_returns: "prompt_ok (Suc n) s \<Longrightarrow> prompt_ok n s"
  by (erule prompt_ok_le) simp

interpretation ListInterfaces: prompt_command ListInterfaces
  by unfold_locales (simp add: ListInterfaces_def said_returns)

interpretation ListNeighbours: prompt_command ListNeighbours
  by unfold_locales (simp add: ListNeighbours_def said_returns)

interpretation ListRoutes: prompt_command ListRoutes
  by unfold_locales (simp add: ListRoutes_def said_returns)

interpretation ListenPort: prompt_command ListenPort
  by unfold_locales (simp add: ListenPort_def said_returns)

interpretation SendFile: prompt_command SendFile
  by unfold_locales (simp add: SendFile_def said_returns)

interpretation UpInterface: prompt_command UpInterface
  by unfold_locales (auto simp: UpInterface_def said_returns split: list.split intro: prompt_ok_dev keeps_switch)

interpretation DownInterface: prompt_command DownInterface
  by unfold_locales (auto simp: DownInterface_def said_returns split: list.split intro: prompt_ok_dev keeps_switch)

section \<open>Packets\<close>

lemma prompt_SendIP:
  "env_total (rE R) \<Longrightarrow> prompt_ok n s \<Longrightarrow> \<exists>r es. SendIP (rE R) (rdev s) dst proto data = Some (r, es)"
  by (rule SendIP_total) (simp_all add: prompt_okD)

interpretation SendMessage: prompt_command SendMessage
proof unfold_locales
  fix R :: renv and n s args
  assume E: "env_total (rE R)" and ok: "prompt_ok (Suc n) s"
  show "\<exists>x. SendMessage R args s = Some x \<and> result_ok n x"
  proof (cases "ParseAddr (args ! 0)")
    case (Some a)
    obtain r es where "SendIP (rE R) (rdev s) a 0 (slice_of (bytes_of (args ! 1))) = Some (r, es)"
      using prompt_SendIP [OF E ok] by blast
    with Some ok show ?thesis by (simp add: SendMessage_def said_returns)
  qed (use ok in \<open>simp add: SendMessage_def said_returns\<close>)
qed

interpretation SendTestRip: prompt_command SendTestRip
proof unfold_locales
  fix R :: renv and n s args
  assume E: "env_total (rE R)" and ok: "prompt_ok (Suc n) s"
  show "\<exists>x. SendTestRip R args s = Some x \<and> result_ok n x"
  proof (cases "ParseAddr (args ! 0)")
    case (Some a)
    obtain hr where hr: "CreateRipPacket 2 a (Table (rdev s)) = Some hr"
      using CreateRipPacket_total [OF prompt_okD(5) [OF ok], of 2 a] by blast
    show ?thesis
    proof (cases hr)
      case (Inr h)
      show ?thesis
      proof (cases "Marshal (Some h)")
        case (Ok bs)
        obtain r es where "SendIP (rE R) (rdev s) a 200 (slice_of bs) = Some (r, es)"
          using prompt_SendIP [OF E ok] by blast
        with Some hr Inr Ok ok show ?thesis by (simp add: SendTestRip_def said_returns)
      next
        case Panic
        then show ?thesis by (simp add: Marshal_def split: if_splits)
      qed (use Some hr Inr ok in \<open>simp add: SendTestRip_def said_returns\<close>)
    qed (use Some hr ok in \<open>simp add: SendTestRip_def said_returns\<close>)
  qed (use ok in \<open>simp add: SendTestRip_def said_returns\<close>)
qed

section \<open>Connections and listeners\<close>

lemma updateIds_ok:
  assumes "prompt_ok n s"
  shows "\<exists>s'. updateIds s = Some s' \<and> prompt_ok n s' \<and> rdev s' = rdev s"
  using assms updataSocketIds_consistent_aux [OF prompt_okD(4,6) [OF assms]]
  by (auto simp: prompt_ok_def updateIds_def)

lemma VConnect_syn_keeps:
  assumes "env_total E" "device_ok d"
  shows "\<exists>x d' es. VConnect_syn E w p q addr port d = Some (x, d', es) \<and> dev_keeps 1 d d' \<and>
    (\<forall>r. x = Inr r \<longrightarrow> mget (connStore d') r \<noteq> None)"
proof -
  from assms(2) obtain if0 where if0: "mget (Interfaces d) ''if0'' = Some if0" by (auto simp: device_ok_def)
  have "\<exists>x d' es. openConn E w sk c (sendSyn E) d = Some (x, d', es) \<and> dev_keeps 1 d d' \<and>
      (\<forall>r. x = Inr r \<longrightarrow> mget (connStore d') r \<noteq> None)" for sk c
  proof -
    let ?r = "length (connStore d)"
    let ?d = "d\<lparr>connStore := connStore d @ [(?r, c)], ConnTable := mput sk ?r (ConnTable d)\<rparr>"
    obtain c' where c': "mget (connStore ?d) ?r = Some c'"
      by (cases "mget (connStore d) ?r") (auto simp: map_of_append map_add_def)
    let ?s = "\<lparr>dev = ?d, conn = c', out = [], now = obNow w, early = obEarly w, heard = obHeard w\<rparr>"
    have "device_ok (dev ?s)" using assms(2) by (simp add: device_ok_def)
    from sendFlags_total [OF assms(1) this] obtain n err s' where s': "sendSyn E ?s = Some ((n, err), s')" "dev s' = ?d"
      unfolding sendSyn_def by fastforce
    let ?d' = "?d\<lparr>connStore := mput ?r (conn s') (connStore ?d)\<rparr>"
    have "onConn (sendSyn E) ?r w ?d = Some ((n, err), ?d', out s')"
      using c' s' by (simp add: onConn_def)
    moreover have "dev_keeps (1 + 0) d ?d'"
      by (rule dev_keeps_trans [OF keeps_new_conn keeps_conn])
    moreover have "mget (connStore ?d') ?r \<noteq> None" by (simp add: gomap_simps)
    ultimately show ?thesis
      by (cases err) (simp_all add: openConn_def newConn_def Let_def del: map_of_append)
  qed
  then show ?thesis
    using if0 by (simp add: VConnect_syn_def CreateSocket_def Let_def dev_keeps_refl)
qed

interpretation ConnectPort: prompt_command ConnectPort
proof unfold_locales
  fix R :: renv and n s args
  assume E: "env_total (rE R)" and ok: "prompt_ok (Suc n) s"
  have "\<exists>x. connect_start a p R s = Some x \<and> result_ok n x" for a p
  proof -
    obtain x d es where v: "VConnect_syn (rE R) (rObs R) (rRndPort R) (rRnd R) a (word_of_int p) (rdev s) = Some (x, d, es)"
      "dev_keeps 1 (rdev s) d" "\<forall>r. x = Inr r \<longrightarrow> mget (connStore d) r \<noteq> None"
      using VConnect_syn_keeps [OF E prompt_okD(2) [OF ok]] by blast
    have "prompt_ok n (s\<lparr>rdev := d\<rparr>)" by (rule prompt_ok_dev [OF ok v(2)]) simp
    then have "prompt_ok n (s\<lparr>rdev := d, reff := reff s @ es\<rparr>)" by simp
    with v(1,3) show ?thesis by (cases x) (simp_all add: connect_start_def)
  qed
  then show "\<exists>x. ConnectPort R args s = Some x \<and> result_ok n x"
    using ok by (auto simp: ConnectPort_def said_returns split: option.split)
qed

text \<open>The second half, after the connection has been waited for.\<close>

lemma ConnectPort_finish_returns:
  assumes "prompt_ok n s" "mget (connStore (rdev s)) r \<noteq> None"
  shows "\<exists>s'. ConnectPort_finish sig r R s = Some s' \<and> prompt_ok n s'"
proof (cases "await_signal sig 0 4")
  case True
  obtain s' where s': "updateIds s = Some s'" "prompt_ok n s'" "rdev s' = rdev s"
    using updateIds_ok [OF assms(1)] by blast
  with assms(2) True show ?thesis
    by (auto simp: ConnectPort_finish_def open_finish_def connKey_def)
next
  case False
  from assms(2) obtain c where c: "mget (connStore (rdev s)) r = Some c" by auto
  from c False obtain d where d: "open_finish sig r (rObs R) (rdev s) = Some (Inl ErrTimeout, d)" "dev_keeps 0 (rdev s) d"
    by (auto simp: open_finish_def onConn_def closeDelete_def Let_def keeps_end)
  from prompt_ok_dev [OF assms(1) d(2)] d(1) show ?thesis by (simp add: ConnectPort_finish_def)
qed

interpretation ListSockets: prompt_command ListSockets
proof unfold_locales
  fix R :: renv and n s args
  assume ok: "prompt_ok (Suc n) s"
  obtain s1 where s1: "updateIds s = Some s1" "prompt_ok (Suc n) s1"
    using updateIds_ok [OF ok] by blast
  obtain s' where "ListSockets R args s = Some (Done s')"
    using ListSockets_complete_aux [OF prompt_okD(4,3,6) [OF ok], of R args] by blast
  with s1 show "\<exists>x. ListSockets R args s = Some x \<and> result_ok n x"
    by (auto simp: ListSockets_def Let_def bind_eq_Some_conv said_returns)
qed

section \<open>Closing\<close>

lemma VClose_dev:
  assumes "env_total E" "device_ok (dev s)"
  shows "\<exists>err s'. VClose E s = Some (err, s') \<and>
    (dev s' = dev s \<or> (\<exists>k. dev s' = (dev s)\<lparr>ConnTable := mdel k (ConnTable (dev s))\<rparr>))"
proof -
  let ?t = "tcb (conn s)"
  let ?s = "\<lambda>st. s\<lparr>conn := (conn s)\<lparr>status := st, tcb := ?t\<lparr>sendNxt := sendNxt ?t + 1\<rparr>\<rparr>\<rparr>"
  have f: "\<exists>n err s'. sendFlags E q a (FIN + ACK) (?s st) = Some ((n, err), s') \<and> dev s' = dev s" for q a st
    using sendFlags_total [OF assms(1), of "?s st" q a "FIN + ACK"] assms(2) by fastforce
  obtain n1 e1 s1 where f1: "sendFlags E (wrapFromIss ?t (sendNxt ?t)) (wrapFromIrs ?t (rcvNxt ?t)) (FIN + ACK) (?s LastAck)
      = Some ((n1, e1), s1)" "dev s1 = dev s" using f by blast
  obtain n2 e2 s2 where f2: "sendFlags E (wrapFromIss ?t (sendNxt ?t)) (wrapFromIrs ?t (rcvNxt ?t)) (FIN + ACK) (?s FinWait1)
      = Some ((n2, e2), s2)" "dev s2 = dev s" using f by blast
  show ?thesis
    by (cases "status (conn s)") (use f1 f2 in \<open>auto simp: VClose_def Let_def closeDelete_def\<close>)
qed

lemma callConn_VClose:
  assumes "env_total (rE R)" "prompt_ok n s" "mget (connStore (rdev s)) r = Some c"
  shows "\<exists>err s'. callConn (VClose (rE R)) r R s = Some (err, s') \<and> prompt_ok n s'"
proof -
  let ?w = "rObs R" and ?d = "rdev s"
  let ?s = "\<lparr>dev = ?d, conn = c, out = [], now = obNow ?w, early = obEarly ?w, heard = obHeard ?w\<rparr>"
  obtain err s1 where v: "VClose (rE R) ?s = Some (err, s1)" and
    d1: "dev s1 = ?d \<or> (\<exists>k. dev s1 = ?d\<lparr>ConnTable := mdel k (ConnTable ?d)\<rparr>)"
    using VClose_dev [OF assms(1), of ?s] prompt_okD(2) [OF assms(2)] by auto
  let ?d1 = "(dev s1)\<lparr>connStore := mput r (conn s1) (connStore (dev s1))\<rparr>"
  have k: "dev_keeps 0 ?d ?d1" using d1 keeps_conn [of 0 ?d] keeps_end [of 0 ?d] by auto
  have "prompt_ok n (s\<lparr>rdev := ?d1\<rparr>)" by (rule prompt_ok_dev [OF assms(2) k]) simp
  then have "prompt_ok n (s\<lparr>rdev := ?d1, reff := reff s @ out s1\<rparr>)" by simp
  with v assms(3) show ?thesis by (auto simp: callConn_def onConn_def)
qed

lemma close_listener_returns:
  assumes "prompt_ok n s"
  shows "\<exists>s'. close_listener idStr err s = Some (Done s') \<and> prompt_ok n s'"
proof (cases "getListenSocket idStr (rdev s) (rids s)")
  case (Inl e)
  with assms show ?thesis by (simp add: close_listener_def)
next
  case (Inr r)
  let ?d = "rdev s"
  from Inr obtain sk where "mget (ListenTable ?d) sk = Some r"
    by (auto simp: getListenSocket_def split: sum.splits option.splits)
  then obtain lis where lis: "mget (lnStore ?d) r = Some lis"
    using tables_okD(1) [OF prompt_okD(3) [OF assms]] by blast
  let ?d1 = "?d\<lparr>lnStore := mput r (lis\<lparr>lnStatus := Closed\<rparr>) (lnStore ?d)\<rparr>"
  let ?d2 = "?d1\<lparr>ListenTable := mdel (SocketKeyFromListener lis) (ListenTable ?d1)\<rparr>"
  have k: "dev_keeps (0 + 0) ?d ?d2" by (rule dev_keeps_trans [OF keeps_listener keeps_del_listener])
  have "prompt_ok n (s\<lparr>rdev := ?d2\<rparr>)" by (rule prompt_ok_dev [OF assms k]) simp
  then obtain s2 where "updateIds (s\<lparr>rdev := ?d2\<rparr>) = Some s2" "prompt_ok n s2" using updateIds_ok by blast
  with Inr lis show ?thesis by (simp add: close_listener_def VCloseListener_def)
qed

interpretation CloseSocket: prompt_command CloseSocket
proof unfold_locales
  fix R :: renv and n s args
  assume E: "env_total (rE R)" and ok: "prompt_ok (Suc n) s"
  show "\<exists>x. CloseSocket R args s = Some x \<and> result_ok n x"
  proof (cases "getSocket (args ! 0) (rdev s) (rids s)")
    case (Inl e)
    then show ?thesis
      using close_listener_returns [OF said_returns [OF ok], of "args ! 0" "Some (LookupErr e)"] ok
      by (auto simp: CloseSocket_def said_returns)
  next
    case (Inr r)
    then obtain sk where "mget (ConnTable (rdev s)) sk = Some r"
      by (auto simp: getSocket_def split: sum.splits option.splits)
    then obtain c where "mget (connStore (rdev s)) r = Some c"
      using tables_okD(2) [OF prompt_okD(3) [OF ok]] by blast
    from callConn_VClose [OF E said_returns [OF ok] this] obtain err s1 where
      s1: "callConn (VClose (rE R)) r R s = Some (err, s1)" "prompt_ok n s1" by blast
    from updateIds_ok [OF s1(2)] obtain s2 where s2: "updateIds s1 = Some s2" "prompt_ok n s2" by blast
    from close_listener_returns [OF s2(2), of "args ! 0" None] Inr s1 s2 ok show ?thesis
      by (cases err) (auto simp: CloseSocket_def said_returns)
  qed
qed

section \<open>Other goroutines\<close>

text \<open>A packet that is handled keeps the device well formed, whichever handler takes it.\<close>

lemma keeps_tcp: "tcp_change d d' \<Longrightarrow> dev_keeps k d d'"
  unfolding tcp_change_def by (elim disjE exE) (simp_all add: keeps)

lemma keeps_rip:
  assumes "RipHandler E d p = Some (d', es)"
  shows "dev_keeps k d d'"
proof -
  note frame = RipHandler_neighbours [OF assms]
  have "good_table (Table d) \<Longrightarrow> good_table (Table d')"
    using RipHandler_table [OF assms] by (auto simp: rip_fold_good split: result.splits if_splits)
  with frame(1,2,5-8) show ?thesis
    by (simp add: dev_keeps_def dev_ok_def sockets_def device_ok_def tables_ok_def)
qed

lemma keeps_run_handler: "run_handler h E w d p = Some (d', es) \<Longrightarrow> dev_keeps k d d'"
  by (cases h) (auto simp: TestHandler_def keeps dest: keeps_rip keeps_tcp tcpHandler_change)

lemma keeps_timeoutHandler: "timeoutHandler d ip = Some d' \<Longrightarrow> dev_keeps k d d'"
  by (auto simp: timeoutHandler_def dev_keeps_def dev_ok_def sockets_def tables_ok_def split: option.splits if_splits)

lemma keeps_Handler:
  assumes "Handler E w d p = Some (d', es)"
  shows "dev_keeps k d d'"
  using Handler_cases [OF assms]
proof (elim disjE exE conjE)
  fix d1 assume t: "timeoutHandler d (ipSrc (Header p)) = Some d1"
  show "dev_keeps k d d'" if "d' = d1"
    using keeps_timeoutHandler [OF t] that by simp
  show "dev_keeps k d d'" if "run_handler h E w d1 p = Some (d', es)" for h
    using dev_keeps_trans [OF keeps_timeoutHandler [OF t] keeps_run_handler [OF that], of 0 k] by simp
qed (simp add: keeps)

text \<open>The device after packets that were handled; one that blocks its handler is left out.\<close>

fun handled :: "env \<Rightarrow> obs \<Rightarrow> Packet list \<Rightarrow> Device \<Rightarrow> Device" where
  "handled E w [] d = d"
| "handled E w (p # ps) d = handled E w ps (case Handler E w d p of None \<Rightarrow> d | Some (d', es) \<Rightarrow> d')"

lemma keeps_handled: "dev_keeps k d (handled E w ps d)"
proof (induction ps arbitrary: d)
  case (Cons p ps)
  let ?d = "case Handler E w d p of None \<Rightarrow> d | Some (d', es) \<Rightarrow> d'"
  have "dev_keeps 0 d ?d" using keeps_Handler [of E w d p] by (auto simp: keeps split: option.split)
  from dev_keeps_trans [OF this Cons.IH] show ?case by simp
qed (simp add: keeps)

section \<open>A session\<close>

text \<open>Other goroutines keep the device well formed, and open at most one socket in a wait.\<close>

definition quiet :: "round \<Rightarrow> bool" where
  "quiet q \<longleftrightarrow> env_total (rE (rdEnv q)) \<and> (\<forall>d. dev_keeps 1 d (rdBefore q d) \<and> dev_keeps 1 d (rdOpening q d))"

lemma finish_returns:
  assumes "quiet q" "prompt_ok (Suc n) s" "mget (connStore (rdev s)) r \<noteq> None"
  shows "\<exists>s'. finish q (WaitConnect r s) = Some (AtPrompt s') \<and> prompt_ok n s'"
proof -
  have k: "dev_keeps 1 (rdev s) (rdOpening q (rdev s))" using assms(1) by (simp add: quiet_def)
  let ?s = "s\<lparr>rdev := rdOpening q (rdev s)\<rparr>"
  have "prompt_ok n ?s" by (rule prompt_ok_dev [OF assms(2) k]) simp
  moreover have "mget (connStore (rdev ?s)) r \<noteq> None" using k assms(3) by (simp add: dev_keeps_def)
  ultimately show ?thesis
    using ConnectPort_finish_returns [of n ?s r "rdSignalled q" "rdEnv q"] by (auto simp: finish_def)
qed

lemmas command_finishes =
  ListInterfaces.finishes ListNeighbours.finishes ListRoutes.finishes UpInterface.finishes DownInterface.finishes
  SendMessage.finishes SendTestRip.finishes ListenPort.finishes ConnectPort.finishes ListSockets.finishes
  CloseSocket.finishes SendFile.finishes

lemma round_returns:
  assumes "quiet q" "typed q \<notin> {''s'', ''r''}" "prompt_ok (n + 3) s"
  shows "if typed q = ''exit'' then repl_round q s = Some Quit
    else \<exists>s'. repl_round q s = Some (AtPrompt s') \<and> prompt_ok n s'"
proof -
  let ?s = "s\<lparr>rdev := rdBefore q (rdev s)\<rparr>" and ?args = "tl (split_on CHR '' '' (trim_newlines (rdText q)))"
  have E: "env_total (rE (rdEnv q))" and k: "dev_keeps 1 (rdev s) (rdBefore q (rdev s))"
    using assms(1) by (simp_all add: quiet_def)
  have ok: "prompt_ok (Suc (Suc n)) ?s" by (rule prompt_ok_dev [OF assms(3) k]) simp
  have ok': "prompt_ok n ?s" by (rule prompt_ok_le [OF ok]) simp
  show ?thesis
  proof (cases "mget commandMap (typed q)")
    case None
    have "typed q \<noteq> ''exit''" using None by (auto simp: commandMap_def)
    with None ok' show ?thesis
      by (simp add: repl_round_def repl_step_def finish_def Let_def typed_def)
  next
    case (Some f)
    then have "trim_newlines (rdText q) \<noteq> []" by (auto simp: typed_def commandMap_def)
    then have r: "repl_round q s = Option.bind (f (rdEnv q) ?args ?s) (finish q)"
      using Some by (simp add: repl_round_def repl_step_def typed_def Let_def)
    show ?thesis
    proof (cases "typed q = ''exit''")
      case True
      with Some have "f = Exit" by (simp add: commandMap_def)
      with r True show ?thesis by (simp add: Exit_def finish_def)
    next
      case False
      with Some assms(2) have "f \<in> {ListInterfaces, ListNeighbours, ListRoutes, UpInterface, DownInterface,
          SendMessage, SendTestRip, ListenPort, ConnectPort, ListSockets, CloseSocket, SendFile}"
        by (auto simp: commandMap_def split: if_splits)
      then have "\<exists>s'. Option.bind (f (rdEnv q) ?args ?s) (finish q) = Some (AtPrompt s') \<and> prompt_ok n s'"
        using command_finishes [OF E ok finish_returns [OF assms(1)]] by blast
      with r False show ?thesis by simp
    qed
  qed
qed

lemma session_returns_aux:
  "prompt_ok (3 * length qs) s \<Longrightarrow> \<forall>q \<in> set qs. quiet q \<and> typed q \<notin> {''s'', ''r''} \<Longrightarrow>
   \<exists>x. repl qs s = Some x \<and> (x = Quit \<longleftrightarrow> ''exit'' \<in> typed ` set qs) \<and> (\<forall>s'. x = AtPrompt s' \<longrightarrow> prompt_ok 0 s')"
proof (induction qs arbitrary: s)
  case (Cons q qs)
  then have r: "if typed q = ''exit'' then repl_round q s = Some Quit
      else \<exists>s'. repl_round q s = Some (AtPrompt s') \<and> prompt_ok (3 * length qs) s'"
    by (intro round_returns) (simp_all add: add.commute)
  show ?case
  proof (cases "typed q = ''exit''")
    case True
    with r show ?thesis by simp
  next
    case False
    with r obtain s' where "repl_round q s = Some (AtPrompt s')" "prompt_ok (3 * length qs) s'" by auto
    with Cons.IH [of s'] Cons.prems(2) False show ?thesis by auto
  qed
qed simp


text \<open>A packet arrives before each line.\<close>

definition exRound :: "string \<Rightarrow> round" where
  "exRound line = \<lparr>rdEnv = exRenv, rdText = line @ [CHR 0x0A],
     rdBefore = handled exEnv \<lparr>obNow = 0, obEarly = False, obHeard = False\<rparr> [exResetPacket],
     rdOpening = (\<lambda>d. d), rdSignalled = (\<lambda>_. False)\<rparr>"

lemma exRound_quiet: "quiet (exRound line)"
  using exDevice_sends(1) by (simp add: quiet_def exRound_def exRenv_def keeps_handled dev_keeps_refl del: handled.simps)

lemma exRepl_prompt: "n < 2 ^ 64 \<Longrightarrow> prompt_ok n exRepl"
  using exDevice_sends(2) exDevice_table
  by (simp add: prompt_ok_def dev_ok_def sockets_def exRepl_def initIds_def ids_ok_def tables_ok_def exDevice_def)


end
