(* ===== verification/Programs.thy ===== *)
theory Programs
  imports Session
begin

text \<open>
  The three programs of \<^verbatim>\<open>cmd\<close>: \<^verbatim>\<open>vhost\<close> and \<^verbatim>\<open>vrouter\<close>, which start a device from a
  configuration file and run the prompt on it, and \<^verbatim>\<open>example\<close>, which prints a
  configuration.  Each refuses the file of the other kind.
\<close>

section \<open>The main functions\<close>

text \<open>
  How far a program has come: it has exited with code 1 after a message, with what
  \<^verbatim>\<open>Initialize\<close> had done by then; it has exited with code 0; or it waits at the prompt.
  \<open>None\<close> is a panic, or a command that waits for ever.  \<open>config\<close> is the value of the flag,
  \<open>files\<close> are the files of the system, and \<open>qs\<close> is what is typed.
\<close>

datatype progress = Refused string "effect list" | Finished | Running rst

definition run_prompt :: "Device \<Rightarrow> round list \<Rightarrow> progress option" where
  "run_prompt d qs =
     do {
       x \<leftarrow> repl qs (Repl_state d);
       Some (case x of Quit \<Rightarrow> Finished | AtPrompt s \<Rightarrow> Running s)
     }"

definition vhost_main :: "env \<Rightarrow> (AddrPort \<Rightarrow> nat option) \<Rightarrow> (string \<Rightarrow> string option) \<Rightarrow> string \<Rightarrow>
    round list \<Rightarrow> progress option" where
  "vhost_main E listenUDP files config qs =
     (if config = [] then Some (Refused ''No config file given'' [])
      else case ParseConfig (files config) of
        Ok configIp \<Rightarrow>
          do {
            (host, es) \<leftarrow> Initialize E listenUDP configIp;
            host \<leftarrow> host;
            if IsRouter host then Some (Refused ''Cannot pass a router lnx config to host binary'' es)
            else run_prompt host qs
          }
      | _ \<Rightarrow> None)"

definition vrouter_main :: "env \<Rightarrow> (AddrPort \<Rightarrow> nat option) \<Rightarrow> (string \<Rightarrow> string option) \<Rightarrow> string \<Rightarrow>
    round list \<Rightarrow> progress option" where
  "vrouter_main E listenUDP files config qs =
     (if config = [] then Some (Refused ''No config file given'' [])
      else case ParseConfig (files config) of
        Ok configIp \<Rightarrow>
          do {
            (router, es) \<leftarrow> Initialize E listenUDP configIp;
            router \<leftarrow> router;
            if \<not> IsRouter router then Some (Refused ''Cannot pass a host lnx config to host binary'' es)
            else run_prompt router qs
          }
      | _ \<Rightarrow> None)"

text \<open>The exit code of \<^verbatim>\<open>example\<close> and what it prints; \<^verbatim>\<open>os.Args[0]\<close> panics without words.\<close>

datatype printed = Usage string | IfaceHasIp string Prefix | RouteVia Prefix Addr

definition example_main :: "(string \<Rightarrow> string option) \<Rightarrow> string list \<Rightarrow> (int \<times> printed list) option" where
  "example_main files args =
     (if length args \<noteq> 2
      then (case args of [] \<Rightarrow> None | program # _ \<Rightarrow> Some (1, [Usage program]))
      else case ParseConfig (files (args ! 1)) of
        Ok lnxConfig \<Rightarrow>
          Some (0,
            map (\<lambda>iface. IfaceHasIp (icName iface) (PrefixFrom (AssignedIP iface) (pfxBits (AssignedPrefix iface))))
              (cfgInterfaces lnxConfig) @
            map (\<lambda>(pre, ip). RouteVia pre ip) (StaticRoutes lnxConfig))
      | _ \<Rightarrow> None)"

section \<open>A device that has just been started\<close>

definition fresh :: "bool \<Rightarrow> Device \<Rightarrow> bool" where
  "fresh r d \<longleftrightarrow> IsRouter d = r \<and> ListenTable d = [] \<and> ConnTable d = [] \<and> connStore d = [] \<and> lnStore d = []"

lemma fresh_channels [simp]: "fresh r (d\<lparr>ripChannels := cs\<rparr>) = fresh r d"
  by (simp add: fresh_def)

lemma fresh_interfaces: "fresh r d \<Longrightarrow> fresh r (init_interfaces is d)"
  by (induction "is" d rule: init_interfaces.induct) (simp_all add: fresh_def)

lemma fresh_rip: "init_rip E routers d = Some (d', es) \<Longrightarrow> fresh r d \<Longrightarrow> fresh r d'"
proof (induction routers arbitrary: d es)
  case (Cons a routers)
  from Cons.prems(1) obtain x es0 where "SendRip E d Request a (Table d) = Some (x, es0)"
    by (auto simp: bind_eq_Some_conv)
  with Cons.prems show ?case
    by (cases x) (auto simp: bind_eq_Some_conv dest: Cons.IH)
qed simp

lemma Initialize_fresh:
  assumes "Initialize E listenUDP cfg = Some (Some d, es)"
  shows "fresh (cfgRoutingMode cfg \<noteq> RoutingTypeNone) d"
proof -
  let ?r = "cfgRoutingMode cfg \<noteq> RoutingTypeNone"
  let ?d0 = "\<lparr>Table = [], Neighbours = [], Interfaces = [], IsRouter = ?r,
      devRoutingMode = cfgRoutingMode cfg, RipNeighbors = cfgRipNeighbors cfg,
      ripChannels = [], Handlers = [], Listeners = [], ListenTable = [], ConnTable = [],
      connStore = [], lnStore = []\<rparr>"
  have "fresh ?r (init_interfaces (cfgInterfaces cfg) ?d0)"
    by (rule fresh_interfaces) (simp add: fresh_def)
  then have f: "fresh ?r ((init_interfaces (cfgInterfaces cfg) ?d0)\<lparr>Neighbours := ns, Table := t, Handlers := h,
      Listeners := ls\<rparr>)" for ns t h ls
    by (simp add: fresh_def)
  show ?thesis
    using assms f fresh_rip
    by (auto simp: Initialize_def Let_def init_routes_eq RegisterRecvHandler_def split: if_splits prod.splits option.splits)
qed

lemma fresh_prompt:
  "fresh r d \<Longrightarrow> device_ok d \<Longrightarrow> good_table (Table d) \<Longrightarrow> n < 2 ^ 64 \<Longrightarrow> prompt_ok n (Repl_state d)"
  by (simp add: fresh_def prompt_ok_def dev_ok_def tables_ok_def sockets_def Repl_state_def initIds_def ids_ok_def)

section \<open>Each program runs one kind of device\<close>


lemma main_without_config:
  "vhost_main E listenUDP files [] qs = Some (Refused ''No config file given'' [])"
  "vrouter_main E listenUDP files [] qs = Some (Refused ''No config file given'' [])"
  by (simp_all add: vhost_main_def vrouter_main_def)

lemma main_bad_config:
  assumes "config \<noteq> []" "\<forall>cfg. ParseConfig (files config) \<noteq> Ok cfg"
  shows "vhost_main E listenUDP files config qs = None" "vrouter_main E listenUDP files config qs = None"
  using assms by (auto simp: vhost_main_def vrouter_main_def split: result.split)

section \<open>What the example prints\<close>

text \<open>The address and the prefix of an interface, put together, are the one of its line.\<close>

lemma example_prefix:
  assumes "iface_ok i"
  shows "Masked (PrefixFrom (AssignedIP i) (pfxBits (AssignedPrefix i))) = AssignedPrefix i"
proof -
  let ?p = "AssignedPrefix i" and ?a = "AssignedIP i"
  have c: "Contains ?p ?a" "Masked ?p = ?p" using assms by (simp_all add: iface_ok_def)
  have b: "0 \<le> pfxBits ?p" "pfxBits ?p \<le> BitLen ?a" using Contains_bits [OF c(1)] by simp_all
  have a: "?a \<noteq> NoAddr" "withoutZone ?a = ?a"
    using c(1) by (cases ?a; simp add: Contains_def)+
  have "Masked (PrefixFrom ?a (pfxBits ?p)) = prefix_at ?a (pfxBits ?p)"
    using a b by (simp add: PrefixFrom_def Masked_def Prefix_IsValid_def prefix_at_def)
  with Contains_Masked [OF c(1)] c(2) show ?thesis by simp
qed

lemma example_lists:
  assumes "ParseConfig (files f) = Ok cfg"
  shows "\<exists>ifs. example_main files [program, f] =
      Some (0, map (\<lambda>(n, p). IfaceHasIp n p) ifs @ map (\<lambda>(pre, ip). RouteVia pre ip) (StaticRoutes cfg)) \<and>
    map (\<lambda>(n, p). (n, pfxAddr p, Masked p)) ifs =
      map (\<lambda>i. (icName i, AssignedIP i, AssignedPrefix i)) (cfgInterfaces cfg)"
proof -
  let ?form = "\<lambda>i. PrefixFrom (AssignedIP i) (pfxBits (AssignedPrefix i))"
  let ?ifs = "map (\<lambda>i. (icName i, ?form i)) (cfgInterfaces cfg)"
  have ok: "config_ok cfg"
    using assms parse_lines_ok config_ok_empty by (fastforce simp: ParseConfig_def split: option.splits)
  have "pfxAddr (?form i) = AssignedIP i \<and> Masked (?form i) = AssignedPrefix i" if i: "i \<in> set (cfgInterfaces cfg)" for i
  proof -
    have i_ok: "iface_ok i" using ok i by (simp add: config_ok_def list_all_iff)
    then have "\<not> hasZone (AssignedIP i)" by (simp add: iface_ok_def Contains_def)
    then have "withoutZone (AssignedIP i) = AssignedIP i" by (cases "AssignedIP i") simp_all
    with example_prefix [OF i_ok] show ?thesis by (simp add: PrefixFrom_def)
  qed
  then have "map (\<lambda>(n, p). (n, pfxAddr p, Masked p)) ?ifs =
      map (\<lambda>i. (icName i, AssignedIP i, AssignedPrefix i)) (cfgInterfaces cfg)" by simp
  with assms show ?thesis by (intro exI [of _ ?ifs]) (simp add: example_main_def comp_def)
qed


end
