(* ===== verification/Spec2Isabelle.thy ===== *)
theory Spec2Isabelle
  imports Hazards Goroutines Network Programs
begin

text \<open>
  A user-space IP and TCP stack: hosts and routers that exchange IPv4 packets over UDP
  sockets, learn routes with RIP, and offer TCP sockets at a prompt.  This development
  translates the Go code under \<^verbatim>\<open>src/pkg\<close> and \<^verbatim>\<open>src/cmd\<close> and proves what it
  promises.

  \<^bold>\<open>How the parts fit.\<close>  A device (\<^verbatim>\<open>protocol.go\<close>) is started from a parsed
  configuration (\<^verbatim>\<open>lnxconfig.go\<close>): interfaces, neighbours, a routing table.  A
  datagram that arrives on an interface is parsed and handed to \<^verbatim>\<open>Handler\<close>, which
  forwards it or dispatches it by protocol number to the RIP handler (\<^verbatim>\<open>rip.go\<close>) or the
  TCP handler (\<^verbatim>\<open>socket.go\<close>).  The TCP handler finds the connection or the listener for
  the segment and runs the handler for its state (\<^verbatim>\<open>socketHandlers.go\<close>).  A connection
  (\<^verbatim>\<open>normalsocket.go\<close>) has a transmission control block with two ring buffers
  (\<^verbatim>\<open>tcb.go\<close>), each served by a goroutine, and a retransmission queue
  (\<^verbatim>\<open>retransmitQueue.go\<close>).  The prompt (\<^verbatim>\<open>utils.go\<close>) calls all of it, and the programs
  (\<^verbatim>\<open>cmd/vhost/main.go\<close>, \<^verbatim>\<open>cmd/vrouter/main.go\<close>) start a device and the prompt on it.

  \<^bold>\<open>The theories.\<close>
  \<^item> \<open>Prelude\<close>: machine integers, outcomes of a call, slices with their capacity, Go maps
    as association lists, big-endian encodings.  Its locales are the keyed update of a map
    in a loop and the fixed-width codec; both are interpreted on the program's functions.
  \<^item> \<open>Netip\<close> and \<open>GoText\<close>: the parts of Go's library the program calls (addresses and
    prefixes; splitting, number and address parsing, scanning).
  \<^item> \<open>Env\<close>: third-party code as the fields of a record, an argument of every definition
    that uses it: the IPv4 and TCP header codecs, the checksum, the write of a UDP socket.
  \<^item> \<open>RipHeader\<close> (\<^verbatim>\<open>rip-headers/ripheader.go\<close>) and \<open>TcpHeader\<close>
    (\<^verbatim>\<open>tcp-headers/tcpheader.go\<close>): the messages.  Round trips, and exactly which bytes panic.
  \<^item> \<open>LnxConfig\<close> and \<open>ConfigParser\<close> (\<^verbatim>\<open>lnxconfig.go\<close>): the configuration and its
    parser.  Round trip, consistency of what is parsed, error lines, panics.
  \<^item> \<open>ByteFifo\<close> and \<open>Tcb\<close> (\<^verbatim>\<open>tcb.go\<close>): sequence arithmetic and the ring buffers; the
    interface of a byte queue is a locale, interpreted for both directions.
  \<^item> \<open>RtoQueue\<close> (\<^verbatim>\<open>retransmitQueue.go\<close>).
  \<^item> \<open>Device\<close> (\<^verbatim>\<open>protocol.go\<close>): lookup, next hop, building and sending packets; it also
    holds the records of sockets, which the device contains.
  \<^item> \<open>Rip\<close> (\<^verbatim>\<open>rip.go\<close>, \<^verbatim>\<open>timeout\<close> of \<^verbatim>\<open>protocol.go\<close>): advertisement, relaxation,
    expiry, and an exchange between two routers.
  \<^item> \<open>Network\<close>: any number of routers that tell each other their tables over the wire.  Routes
    are never shorter than the distance, and reach it after as many rounds as it has links;
    and a route lost with a neighbour is withdrawn from the routers behind.
  \<^item> \<open>Control\<close> (the controllers of \<^verbatim>\<open>tcb.go\<close>), \<open>Conn\<close> (\<^verbatim>\<open>normalsocket.go\<close>,
    \<^verbatim>\<open>socketHandlers.go\<close>), \<open>Sockets\<close> (\<^verbatim>\<open>socket.go\<close>, \<^verbatim>\<open>listensocket.go\<close>, the
    receive path and start of \<^verbatim>\<open>protocol.go\<close>): the definitions of TCP.
  \<^item> \<open>Segments\<close>, \<open>Windows\<close>, \<open>Handshake\<close>, \<open>Streams\<close>: what is proved of them, that is the
    state machine and the return of every handler, the windows, the three-way handshake
    between two devices, and the movement of data from a write to the wire.
  \<^item> \<open>Delivery\<close>, \<open>Teardown\<close>, \<open>Dispatch\<close>, \<open>Startup\<close>: the rest of the way.  What one side
    writes the other reads; a close from either side ends both; a segment reaches the socket
    with its addresses and ports and touches nothing else; and a configuration file becomes
    the device it describes.
  \<^item> \<open>Hazards\<close>: runs of the code that end in the wrong place, each for all states of a kind:
    a read before the data, data out of order, the byte of a FIN, the timer that dies, a
    write to a closed window, and states that forget to look.
  \<^item> \<open>SocketIds\<close> and \<open>Repl\<close> (\<^verbatim>\<open>utils.go\<close>): the numbers of sockets and the commands.
  \<^item> \<open>Goroutines\<close>: every interleaving of what happens to one connection (segments, calls of
    the user, timers, the moves of its controllers) as a step relation.  The invariants of
    its life, and what its reader gets, are interpretations of one locale.
  \<^item> \<open>RouterRun\<close>: every sequence of what happens to a device after its start (packets,
    neighbours that time out, broadcasts, interfaces switched), and the invariant of its
    routing table and neighbours.
  \<^item> \<open>Session\<close>: the loop of the prompt over many lines, with other goroutines at work between
    them.  The contract of a command is a locale, interpreted on every command but those
    that end the process or wait for the peer.
  \<^item> \<open>Programs\<close> (\<^verbatim>\<open>cmd\<close>): the main functions, from the configuration file to the prompt.

  \<^bold>\<open>Conventions.\<close>  Integers keep their width (\<open>u8\<close>, \<open>u16\<close>, \<open>u32\<close>, \<open>u64\<close>) and wrap.  A call
  that panics, or waits on a channel nobody serves, is \<open>None\<close>; an error value is the left
  side of a sum.  Effects on the outside (datagrams written, goroutines started) are listed
  in order.  A map to pointers is a map to references into a store.  A \<^verbatim>\<open>range\<close> over a map
  walks its list in order; where a result must not depend on it this is proved.  Code that
  blocks is cut at the channel operation: a call has a part up to the wait and a part after
  it, and a goroutine is a step function from one channel operation to the next.

  \<^bold>\<open>Bounds.\<close>  The loop of \<^verbatim>\<open>VWrite\<close> has no bound of its own; it takes a list of what the
  other goroutines do before each round, and one round per byte is proved to be enough.
  The loop of \<^verbatim>\<open>updataSocketIds\<close> that looks for a free number is a partial function,
  proved to return while fewer than \<open>2 ^ 64\<close> sockets are open.  All other loops are
  structural.  A session is a list of lines; it needs room for three more sockets per line.

  \<^bold>\<open>Not modelled.\<close>  The bodies of the third-party codecs and the operating system
  (parameters of \<open>Env\<close>); the layout of printed tables; the parsing of flags, whose value is
  an argument of the main functions; scripts and the Wireshark dissector.  Handlers run one
  at a time with the device's lock, as the code takes it; interleavings inside a handler are
  those the code exposes, as the choices \<open>early\<close> and \<open>heard\<close> of \<open>Conn\<close>.  Steps of
  \<open>Goroutines\<close> and \<open>RouterRun\<close> are whole handlers and moves: data races between them are
  not modelled.  In \<open>Network\<close> the topology is fixed and a message is handled before its
  sender changes; lost links are the subject of \<open>RouterRun\<close>.  The smoothed round-trip
  time is a real number instead of a \<^verbatim>\<open>float64\<close>.
\<close>

end
